(* ===== verification/Getopt.thy ===== *)
theory Getopt
  imports Main
begin

section \<open>The options of a command line\<close>

text \<open>
  \<^verbatim>\<open>getopt(argc, argv, optstring)\<close>, called until it returns -1, on the arguments behind the program
  name: the values of \<^verbatim>\<open>opt\<close> with \<^verbatim>\<open>optarg\<close>, and the operands, which \<^verbatim>\<open>getopt\<close> moves behind the options
  and the first of which is \<^verbatim>\<open>argv[optind]\<close> in the end.  Flags may be clustered, an argument stands in
  the same or the next word, \<^verbatim>\<open>--\<close> ends the options, and \<^verbatim>\<open>'?'\<close> reports a letter that is no option or
  an argument that is missing.
\<close>

fun takes_arg :: "string \<Rightarrow> char \<Rightarrow> bool" where
  "takes_arg (x # y # zs) c \<longleftrightarrow> x = c \<and> y = CHR '':'' \<or> takes_arg (y # zs) c"
| "takes_arg _ c \<longleftrightarrow> False"

definition is_option :: "string \<Rightarrow> char \<Rightarrow> bool" where
  "is_option spec c \<longleftrightarrow> c \<noteq> CHR '':'' \<and> c \<in> set spec"

definition bad_option :: "char \<times> string" where
  "bad_option = (CHR ''?'', [])"

type_synonym scanned = "(char \<times> string) list \<times> string list"

definition add_option :: "char \<times> string \<Rightarrow> scanned \<Rightarrow> scanned" where
  "add_option x r = (x # fst r, snd r)"

definition add_operand :: "string \<Rightarrow> scanned \<Rightarrow> scanned" where
  "add_operand a r = (fst r, a # snd r)"

function (sequential) getopt_cluster :: "string \<Rightarrow> string \<Rightarrow> string list \<Rightarrow> scanned"
    and getopt :: "string \<Rightarrow> string list \<Rightarrow> scanned" where
  "getopt_cluster spec [] args = getopt spec args"
| "getopt_cluster spec (x # xs) args =
     (if takes_arg spec x then
        (if xs \<noteq> [] then add_option (x, xs) (getopt spec args)
         else case args of
             [] \<Rightarrow> ([bad_option], [])
           | v # args' \<Rightarrow> add_option (x, v) (getopt spec args'))
      else add_option (if is_option spec x then (x, []) else bad_option) (getopt_cluster spec xs args))"
| "getopt spec [] = ([], [])"
| "getopt spec (a # args) =
     (if a = ''--'' then ([], args)
      else if 1 < length a \<and> hd a = CHR ''-'' then getopt_cluster spec (tl a) args
      else add_operand a (getopt spec args))"
  by pat_completeness auto
termination
  by (relation "measure (\<lambda>x. case x of
      Inl (spec, xs, args) \<Rightarrow> 2 * (length xs + sum_list (map (\<lambda>a. length a + 1) args)) + 1
    | Inr (spec, args) \<Rightarrow> 2 * sum_list (map (\<lambda>a. length a + 1) args))") auto

lemmas getopt_defs = bad_option_def add_option_def add_operand_def is_option_def

text \<open>Every value of \<^verbatim>\<open>opt\<close> is a letter of the option string or \<^verbatim>\<open>'?'\<close>.\<close>

lemma takes_arg_option: "takes_arg spec c \<Longrightarrow> c \<in> set spec"
  by (induction spec c rule: takes_arg.induct) auto

lemma getopt_letters:
  "\<forall>x \<in> set (fst (getopt_cluster spec xs args)). fst x \<in> insert (CHR ''?'') (set spec)"
  "\<forall>x \<in> set (fst (getopt spec args)). fst x \<in> insert (CHR ''?'') (set spec)"
  by (induction spec xs args and spec args rule: getopt_cluster_getopt.induct)
    (auto simp: getopt_defs dest: takes_arg_option split: list.splits)

end
