(* ===== verification/Afs_Prelude.thy ===== *)
theory Afs_Prelude
  imports Main "HOL-Library.Word" "HOL-Library.AList" "HOL-Library.Multiset"
begin

section \<open>Shared types, byte encodings and list lemmas\<close>

text \<open>
  The ground of the development: C++ \<^verbatim>\<open>std::string\<close>s are HOL strings, whose characters are
  exactly the 256 bytes; \<^verbatim>\<open>struct timespec\<close> is a record of two 64-bit words whose memory image is
  its sixteen little-endian bytes; \<^verbatim>\<open>std::getline\<close> and the chunked \<^verbatim>\<open>istream::read\<close> loop are
  functions on the bytes not yet consumed; \<^verbatim>\<open>unordered_map\<close> is an association list with distinct
  keys.  The lemmas about them are shared by every component.
\<close>

named_theorems table_simps \<open>equations of the association-list tables\<close>
named_theorems encoding_simps \<open>lengths and round trips of the byte encodings\<close>
named_theorems wf_intros \<open>preservation of the well-formedness invariants\<close>

type_synonym byte_string = string

abbreviation newline :: char where
  "newline \<equiv> CHR 0x0A"

subsection \<open>Little-endian integers\<close>

text \<open>The memory image of an \<open>n\<close>-byte unsigned integer on the little-endian target.\<close>

fun le_bytes :: "nat \<Rightarrow> nat \<Rightarrow> byte_string" where
  "le_bytes 0 k = []"
| "le_bytes (Suc n) k = char_of (k mod 256) # le_bytes n (k div 256)"

fun of_le_bytes :: "byte_string \<Rightarrow> nat" where
  "of_le_bytes [] = 0"
| "of_le_bytes (c # cs) = of_char c + 256 * of_le_bytes cs"

lemma length_le_bytes [simp, encoding_simps]: "length (le_bytes n k) = n"
  by (induction n arbitrary: k) auto

lemma of_le_le_bytes [encoding_simps]: "of_le_bytes (le_bytes n k) = k mod 256 ^ n"
proof (induction n arbitrary: k)
  case 0
  then show ?case by simp
next
  case (Suc n)
  have "of_le_bytes (le_bytes (Suc n) k) = k mod 256 + 256 * (k div 256 mod 256 ^ n)"
    using Suc.IH[of "k div 256"] by simp
  also have "\<dots> = k mod 256 ^ Suc n"
    by (simp add: mod_mult2_eq)
  finally show ?case .
qed

definition word64_bytes :: "64 word \<Rightarrow> byte_string" where
  "word64_bytes w = le_bytes 8 (unat w)"

definition bytes_word64 :: "byte_string \<Rightarrow> 64 word" where
  "bytes_word64 s = word_of_nat (of_le_bytes s)"

lemma length_word64_bytes [simp, encoding_simps]: "length (word64_bytes w) = 8"
  by (simp add: word64_bytes_def)

lemma bytes_word64_inverse [simp, encoding_simps]: "bytes_word64 (word64_bytes w) = w"
proof -
  have "unat w < 256 ^ 8"
    using unsigned_less[of w] by simp
  then show ?thesis
    by (simp add: word64_bytes_def bytes_word64_def of_le_le_bytes)
qed

subsection \<open>struct timespec and its memory image\<close>

record timespec =
  tv_sec :: "64 word"
  tv_nsec :: "64 word"

definition timespec_bytes :: "timespec \<Rightarrow> byte_string" where
  "timespec_bytes t = word64_bytes (tv_sec t) @ word64_bytes (tv_nsec t)"

text \<open>
  Reading a \<^verbatim>\<open>struct timespec\<close> through a pointer to a string's characters: defined only when the
  string holds at least sixteen of them, otherwise the read leaves the string.
\<close>

definition bytes_timespec :: "byte_string \<Rightarrow> timespec option" where
  "bytes_timespec s =
     (if length s < 16 then None
      else Some \<lparr>tv_sec = bytes_word64 (take 8 s), tv_nsec = bytes_word64 (take 8 (drop 8 s))\<rparr>)"

lemma length_timespec_bytes [simp, encoding_simps]: "length (timespec_bytes t) = 16"
  by (simp add: timespec_bytes_def)

lemma bytes_timespec_inverse [simp, encoding_simps]: "bytes_timespec (timespec_bytes t) = Some t"
  by (simp add: bytes_timespec_def timespec_bytes_def)

lemma timespec_bytes_inject [simp]: "timespec_bytes s = timespec_bytes t \<longleftrightarrow> s = t"
  by (metis bytes_timespec_inverse option.inject)

lemma timespec_bytes_not_Nil [simp]: "timespec_bytes t \<noteq> []"
  using length_timespec_bytes[of t] by force

text \<open>
  The kernel keeps \<^verbatim>\<open>tv_nsec\<close> below one second.  Sixteen bytes 255, which the client's table file
  uses for a deleted entry, are then never a time.
\<close>

definition valid_timespec :: "timespec \<Rightarrow> bool" where
  "valid_timespec t \<longleftrightarrow> unat (tv_nsec t) < 1000000000"

lemma of_le_bytes_ff: "of_le_bytes (replicate 8 (CHR 0xFF)) = 18446744073709551615"
proof -
  have "replicate 8 c = [c, c, c, c, c, c, c, c]" for c :: char
    by (simp add: numeral_eq_Suc)
  then show ?thesis by simp
qed

lemma timespec_bytes_not_ff:
  assumes "valid_timespec t"
  shows "timespec_bytes t \<noteq> replicate 16 (CHR 0xFF)"
proof
  assume "timespec_bytes t = replicate 16 (CHR 0xFF)"
  then have "drop 8 (timespec_bytes t) = drop 8 (replicate 16 (CHR 0xFF))"
    by (rule arg_cong)
  then have "le_bytes 8 (unat (tv_nsec t)) = replicate 8 (CHR 0xFF)"
    by (simp add: timespec_bytes_def word64_bytes_def)
  then have "unat (tv_nsec t) mod 256 ^ 8 = 18446744073709551615"
    by (metis of_le_le_bytes of_le_bytes_ff)
  moreover have "unat (tv_nsec t) < 1000000000"
    using assms by (simp add: valid_timespec_def)
  ultimately show False
    by simp
qed

subsection \<open>std::getline\<close>

text \<open>
  \<^verbatim>\<open>std::getline(is, s)\<close> on the bytes not yet consumed: the line, the bytes left, and whether the
  end of the file was met before a newline (the stream's eofbit).
\<close>

definition getline :: "byte_string \<Rightarrow> byte_string \<times> byte_string \<times> bool" where
  "getline s =
     (let line = takeWhile (\<lambda>c. c \<noteq> newline) s
      in (line, drop (Suc (length line)) s, length line = length s))"

lemma takeWhile_newline:
  "newline \<notin> set xs \<Longrightarrow> takeWhile (\<lambda>c. c \<noteq> newline) (xs @ newline # ys) = xs"
  by (induction xs) auto

lemma getline_line [simp]:
  "newline \<notin> set xs \<Longrightarrow> getline (xs @ newline # ys) = (xs, ys, False)"
  by (simp add: getline_def takeWhile_newline Let_def)

lemma getline_last:
  assumes "newline \<notin> set xs"
  shows "getline xs = (xs, [], True)"
proof -
  have line: "takeWhile (\<lambda>c. c \<noteq> newline) xs = xs"
    using assms by (auto simp: takeWhile_eq_all_conv)
  show ?thesis
    by (simp add: getline_def Let_def line del: takeWhile_eq_all_conv)
qed

lemma getline_shorter:
  assumes "getline s = (line, r, e)" "s \<noteq> []"
  shows "length r < length s"
  using assms by (auto simp: getline_def Let_def)

subsection \<open>Tables\<close>

text \<open>
  \<^verbatim>\<open>unordered_map\<close>s are association lists with distinct keys, updated with the library's
  \<^const>\<open>AList.update\<close> and \<^const>\<open>AList.delete\<close>.
\<close>

type_synonym 'v table = "(string \<times> 'v) list"

abbreviation table_ok :: "'v table \<Rightarrow> bool" where
  "table_ok t \<equiv> distinct (map fst t)"

lemmas table_update [table_simps] = update_conv' and table_delete [table_simps] = delete_conv'

lemma table_ok_update [simp, wf_intros]: "table_ok t \<Longrightarrow> table_ok (AList.update k v t)"
  by (rule distinct_update)

lemma table_ok_delete [simp, wf_intros]: "table_ok t \<Longrightarrow> table_ok (AList.delete k t)"
  by (rule distinct_delete)

lemma map_of_mset_eq:
  assumes "table_ok t" "mset t' = mset t"
  shows "map_of t' = map_of t"
proof -
  have "mset (map fst t') = mset (map fst t)"
    using assms(2) by simp
  then have "table_ok t'"
    using assms(1) by (metis distinct_count_atmost_1 set_mset_mset)
  then show ?thesis
    using assms by (metis map_of_inject_set mset_eq_setD)
qed

end
