(* ===== verification/Hash_Path.thy ===== *)
theory Hash_Path
  imports Afs_Prelude
begin

section \<open>Cache file names\<close>

text \<open>
  \<^verbatim>\<open>hashpath\<close> and \<^verbatim>\<open>cachepath\<close> of \<^verbatim>\<open>afs_client.cc\<close> and \<^verbatim>\<open>hashFilepath\<close> of \<^verbatim>\<open>afs_server.cc\<close>: a
  path's cache file is named by the 64 hexadecimal digits of its SHA-256 digest.  OpenSSL is not
  part of the repository, so the digest function \<open>sha\<close> is an argument; that it returns 32 bytes
  and that two paths do not collide are hypotheses where a property needs them.
\<close>

text \<open>\<^verbatim>\<open>strlen\<close> stops at the first NUL character.\<close>

definition c_str :: "string \<Rightarrow> string" where
  "c_str s = takeWhile (\<lambda>c. c \<noteq> CHR 0x00) s"

definition hex_digit :: "nat \<Rightarrow> char" where
  "hex_digit n = ''0123456789abcdef'' ! n"

text \<open>\<^verbatim>\<open>std::hex\<close> prints an int below 256 with as few digits as it needs.\<close>

definition hex_number :: "nat \<Rightarrow> string" where
  "hex_number n = (if n < 16 then [hex_digit n] else [hex_digit (n div 16), hex_digit (n mod 16)])"

text \<open>\<^verbatim>\<open>std::setw(2)\<close> with \<^verbatim>\<open>std::setfill('0')\<close>.\<close>

definition setw2 :: "string \<Rightarrow> string" where
  "setw2 s = replicate (2 - length s) (CHR ''0'') @ s"

definition hex_byte :: "char \<Rightarrow> string" where
  "hex_byte c = setw2 (hex_number (of_char c))"

definition digest_hex :: "byte_string \<Rightarrow> string" where
  "digest_hex hash = concat (map (\<lambda>i. hex_byte (hash ! i)) [0..<32])"

definition hashpath :: "(byte_string \<Rightarrow> byte_string) \<Rightarrow> string \<Rightarrow> string" where
  "hashpath sha rel_path = digest_hex (sha (c_str rel_path))"

definition cachepath :: "(byte_string \<Rightarrow> byte_string) \<Rightarrow> string \<Rightarrow> string \<Rightarrow> string" where
  "cachepath sha cache_root rel_path = cache_root @ hashpath sha rel_path"

definition hashFilepath :: "(byte_string \<Rightarrow> byte_string) \<Rightarrow> string \<Rightarrow> string" where
  "hashFilepath sha filepath = digest_hex (sha filepath)"

subsection \<open>Shape of the names\<close>

definition hex_chars :: "char set" where
  "hex_chars = set ''0123456789abcdef''"

lemma hex_digit_hex: "n < 16 \<Longrightarrow> hex_digit n \<in> hex_chars"
  unfolding hex_digit_def hex_chars_def by (rule nth_mem) simp

lemma of_char_div_16: "of_char (c :: char) div 16 < (16 :: nat)"
proof -
  have "of_char c < (16 * 16 :: nat)"
    using of_char_mod_256[of c, where ?'a = nat] mod_less_divisor[of 256 "of_char c"] by simp
  then show ?thesis
    by (simp only: less_mult_imp_div_less)
qed

lemma hex_byte_eq:
  "hex_byte c = [hex_digit (of_char c div 16), hex_digit (of_char c mod 16)]"
  by (auto simp: hex_byte_def hex_number_def setw2_def hex_digit_def)

lemma length_hex_byte [simp]: "length (hex_byte c) = 2"
  by (simp add: hex_byte_eq)

lemma set_hex_byte: "set (hex_byte c) \<subseteq> hex_chars"
  using of_char_div_16[of c] by (simp add: hex_byte_eq hex_digit_hex)

lemma length_concat_fixed:
  "(\<And>x. x \<in> set xs \<Longrightarrow> length (f x) = k) \<Longrightarrow> length (concat (map f xs)) = k * length xs"
  by (induction xs) auto

lemma length_digest_hex [simp, encoding_simps]: "length (digest_hex h) = 64"
  unfolding digest_hex_def by (subst length_concat_fixed[where k = 2]) simp_all

lemma set_digest_hex: "set (digest_hex h) \<subseteq> hex_chars"
  using set_hex_byte by (auto simp: digest_hex_def)

lemma newline_not_hex [simp]: "newline \<notin> hex_chars" and slash_not_hex [simp]: "CHR ''/'' \<notin> hex_chars"
  by (simp_all add: hex_chars_def)

lemma length_hashpath [simp, encoding_simps]: "length (hashpath sha p) = 64"
  by (simp add: hashpath_def)

lemma newline_not_in_hashpath [simp]: "newline \<notin> set (hashpath sha p)"
  using set_digest_hex newline_not_hex unfolding hashpath_def by blast

lemma slash_not_in_hashpath: "CHR ''/'' \<notin> set (hashpath sha p)"
  using set_digest_hex slash_not_hex unfolding hashpath_def by blast

subsection \<open>Different digests, different names\<close>

lemma hex_digit_inj: "m < 16 \<Longrightarrow> n < 16 \<Longrightarrow> hex_digit m = hex_digit n \<longleftrightarrow> m = n"
  unfolding hex_digit_def by (rule nth_eq_iff_index_eq) simp_all

lemma hex_byte_inject [simp]: "hex_byte c = hex_byte d \<longleftrightarrow> c = d"
proof
  assume "hex_byte c = hex_byte d"
  then have "of_char c div 16 = (of_char d div 16 :: nat) \<and> of_char c mod 16 = (of_char d mod 16 :: nat)"
    by (auto simp: hex_byte_eq hex_digit_inj of_char_div_16)
  then have "of_char c = (of_char d :: nat)"
    by (metis div_mult_mod_eq)
  then show "c = d" by simp
qed simp

lemma concat_fixed_inject:
  assumes "\<And>x. length (f x) = k" and "\<And>x y. f x = f y \<Longrightarrow> x = y"
  shows "length xs = length ys \<Longrightarrow> concat (map f xs) = concat (map f ys) \<longleftrightarrow> xs = ys"
  by (induction xs ys rule: list_induct2) (auto simp: assms(1) dest: assms(2))

lemma digest_hex_list: "length h = 32 \<Longrightarrow> digest_hex h = concat (map hex_byte h)"
  unfolding digest_hex_def by (metis map_nth map_map comp_apply map_cong)

lemma digest_hex_inject:
  "length h = 32 \<Longrightarrow> length h' = 32 \<Longrightarrow> digest_hex h = digest_hex h' \<longleftrightarrow> h = h'"
  using concat_fixed_inject[of hex_byte 2 h h'] by (simp add: digest_hex_list)

end
