(* ===== verification/Table_Store.thy ===== *)
theory Table_Store
  imports Hash_Path
begin

section \<open>Tables kept in a snapshot and a log\<close>

text \<open>
  What \<^verbatim>\<open>is_dirty_t\<close> and \<^verbatim>\<open>last_modified_t\<close> of \<^verbatim>\<open>afs_client.cc\<close> share: an in-memory table, an open
  log stream, a counter of logged updates, and three files of the cache directory (the snapshot,
  its temporary and the log).  The two classes repeat the same code with different records, so
  their operations are translated separately, and what makes them recover is proved once, in the
  locale \<open>persistent_table\<close>.

  Every flushed write is one \<open>disk_op\<close>.  An operation returns the writes it issues in order, so
  a crash in the middle of it leaves the files after a prefix of them.
\<close>

record table_disk =
  snapshot_file :: "byte_string option"
  snapshot_tmp :: "byte_string option"
  log_file :: "byte_string option"

datatype disk_op =
    AppendLog byte_string
  | OpenTmp
  | AppendTmp byte_string
  | RenameTmp
  | TruncLog

fun run_op :: "disk_op \<Rightarrow> table_disk \<Rightarrow> table_disk" where
  "run_op (AppendLog s) d = d\<lparr>log_file := map_option (\<lambda>l. l @ s) (log_file d)\<rparr>"
| "run_op OpenTmp d = d\<lparr>snapshot_tmp := Some []\<rparr>"
| "run_op (AppendTmp s) d = d\<lparr>snapshot_tmp := map_option (\<lambda>l. l @ s) (snapshot_tmp d)\<rparr>"
| "run_op RenameTmp d =
     (case snapshot_tmp d of None \<Rightarrow> d
      | Some s \<Rightarrow> d\<lparr>snapshot_file := Some s, snapshot_tmp := None\<rparr>)"
| "run_op TruncLog d = d\<lparr>log_file := Some []\<rparr>"

definition run_ops :: "disk_op list \<Rightarrow> table_disk \<Rightarrow> table_disk" where
  "run_ops ops d = fold run_op ops d"

lemma run_ops_simps [simp]:
  "run_ops [] d = d"
  "run_ops (x # xs) d = run_ops xs (run_op x d)"
  "run_ops (xs @ ys) d = run_ops ys (run_ops xs d)"
  by (simp_all add: run_ops_def)

text \<open>The object's members; the files they stand for are \<open>table_disk\<close>.\<close>

record 'v table_obj =
  table :: "'v table"
  log_is_open :: bool
  counter :: int
  snapshot_frequency :: int

text \<open>
  What the operations take from outside the repository: the digest, the order in which
  \<^verbatim>\<open>unordered_map\<close>'s iterator visits the entries, and whether files of the cache directory can be
  opened for writing.
\<close>

record 'v store_env =
  digest :: "byte_string \<Rightarrow> byte_string"
  visit :: "'v table \<Rightarrow> 'v table"
  writable :: bool

definition visits_all :: "'v store_env \<Rightarrow> bool" where
  "visits_all e \<longleftrightarrow> (\<forall>t. mset (visit e t) = mset t)"

lemma visit_facts:
  assumes "visits_all e" "table_ok t"
  shows "map_of (visit e t) = map_of t" "table_ok (visit e t)" "set (visit e t) = set t"
proof -
  have es: "mset (visit e t) = mset t"
    using assms(1) by (simp add: visits_all_def)
  show "map_of (visit e t) = map_of t"
    by (rule map_of_mset_eq[OF assms(2) es])
  show "table_ok (visit e t)"
    using es assms(2) by (metis mset_map mset_eq_imp_distinct_iff)
  show "set (visit e t) = set t"
    using es by (rule mset_eq_setD)
qed

text \<open>C++'s \<^verbatim>\<open>%\<close> truncates towards zero.\<close>

definition cpp_rem :: "int \<Rightarrow> int \<Rightarrow> int" where
  "cpp_rem a b = sgn a * (\<bar>a\<bar> mod \<bar>b\<bar>)"

lemma cpp_rem_eq_0: "cpp_rem a b = 0 \<longleftrightarrow> b dvd a"
  by (auto simp: cpp_rem_def sgn_if mod_eq_0_iff_dvd)

subsection \<open>The writes of a snapshot\<close>

text \<open>
  Both classes write the temporary entry by entry, rename it and reopen the log truncated.  Up to
  the rename the two files a restart reads are untouched; after it the snapshot is the printed
  table and the log is still the old one; after the truncation the log is empty.
\<close>

abbreviation snapshot_ops :: "(string \<times> 'v \<Rightarrow> byte_string) \<Rightarrow> 'v table \<Rightarrow> disk_op list" where
  "snapshot_ops line es \<equiv> OpenTmp # map (\<lambda>x. AppendTmp (line x)) es @ [RenameTmp, TruncLog]"

lemma run_append_tmp:
  "run_ops (map (\<lambda>x. AppendTmp (line x)) es) d
     = d\<lparr>snapshot_tmp := map_option (\<lambda>s. s @ concat (map line es)) (snapshot_tmp d)\<rparr>"
  by (induction es arbitrary: d) (auto simp: option.map_comp comp_def option.map_ident)

lemma run_snapshot_ops:
  "run_ops (snapshot_ops line es) d
     = d\<lparr>snapshot_file := Some (concat (map line es)), snapshot_tmp := None, log_file := Some []\<rparr>"
  by (simp add: run_append_tmp)

lemma run_snapshot_prefix:
  fixes d :: table_disk and line :: "string \<times> 'v \<Rightarrow> byte_string" and es :: "'v table"
  defines "d' n \<equiv> run_ops (take n (snapshot_ops line es)) d"
  shows "snapshot_file (d' n) = snapshot_file d \<and> log_file (d' n) = log_file d
       \<or> snapshot_file (d' n) = Some (concat (map line es)) \<and> log_file (d' n) = log_file d
       \<or> snapshot_file (d' n) = Some (concat (map line es)) \<and> log_file (d' n) = Some []"
proof -
  consider "n = 0" | m where "n = Suc m" "m \<le> length es" | "n = length es + 2" | "n \<ge> length es + 3"
  proof (cases n)
    case (Suc m)
    then consider "m \<le> length es" | "n = length es + 2" | "n \<ge> length es + 3"
      by linarith
    then show ?thesis using Suc that by metis
  qed (use that in blast)
  then show ?thesis
  proof cases
    case 2
    then have "take n (snapshot_ops line es) = OpenTmp # map (\<lambda>x. AppendTmp (line x)) (take m es)"
      by (simp add: take_map)
    then show ?thesis by (simp add: d'_def run_append_tmp)
  next
    case 3
    then have "take n (snapshot_ops line es) = OpenTmp # map (\<lambda>x. AppendTmp (line x)) es @ [RenameTmp]"
      by simp
    then show ?thesis by (simp add: d'_def run_append_tmp)
  next
    case 4
    then have "take n (snapshot_ops line es) = snapshot_ops line es"
      by simp
    then show ?thesis unfolding d'_def by (simp add: run_snapshot_ops del: run_ops_simps)
  qed (simp add: d'_def)
qed

subsection \<open>Records\<close>

text \<open>The log as what it means: a sequence of entries stored and erased.\<close>

datatype 'v rec = Put string 'v | Del string

fun apply_rec :: "'v rec \<Rightarrow> 'v table \<Rightarrow> 'v table" where
  "apply_rec (Put k v) t = AList.update k v t"
| "apply_rec (Del k) t = AList.delete k t"

definition replay :: "'v rec list \<Rightarrow> 'v table \<Rightarrow> 'v table" where
  "replay rs t = fold apply_rec rs t"

lemma replay_simps [simp]:
  "replay [] t = t"
  "replay (r # rs) t = replay rs (apply_rec r t)"
  "replay (rs @ rs') t = replay rs' (replay rs t)"
  by (simp_all add: replay_def)

lemma table_ok_replay [simp]: "table_ok t \<Longrightarrow> table_ok (replay rs t)"
proof (induction rs arbitrary: t)
  case (Cons r rs)
  then show ?case by (cases r) simp_all
qed simp

text \<open>What a sequence of records leaves of one key: nothing, an erased or a stored entry.\<close>

fun last_op :: "'v rec list \<Rightarrow> string \<Rightarrow> 'v option option" where
  "last_op [] k = None"
| "last_op (r # rs) k =
     (case last_op rs k of Some x \<Rightarrow> Some x
      | None \<Rightarrow> (case r of Put k' v \<Rightarrow> if k' = k then Some (Some v) else None
                 | Del k' \<Rightarrow> if k' = k then Some None else None))"

definition in_table :: "'v table \<Rightarrow> string \<Rightarrow> bool" where
  "in_table t k \<longleftrightarrow> map_of t k \<noteq> None"

lemma map_of_replay:
  "map_of (replay rs t) k = (case last_op rs k of None \<Rightarrow> map_of t k | Some x \<Rightarrow> x)"
proof (induction rs arbitrary: t)
  case (Cons r rs)
  then show ?case
    by (cases r) (auto simp: table_simps split: option.splits)
qed simp

lemma replay_cong: "map_of t = map_of t' \<Longrightarrow> map_of (replay rs t) = map_of (replay rs t')"
  by (rule ext) (simp add: map_of_replay split: option.splits)

lemma replay_idem: "map_of t' = map_of (replay rs t) \<Longrightarrow> map_of (replay rs t') = map_of (replay rs t)"
  by (rule ext) (simp add: map_of_replay split: option.splits)

subsection \<open>What the files of a table say\<close>

fun enc_rec :: "(string \<Rightarrow> 'v \<Rightarrow> byte_string) \<Rightarrow> (string \<Rightarrow> byte_string) \<Rightarrow> 'v rec \<Rightarrow> byte_string" where
  "enc_rec put_line del_line (Put k v) = put_line k v"
| "enc_rec put_line del_line (Del k) = del_line k"

abbreviation enc_recs :: "(string \<Rightarrow> 'v \<Rightarrow> byte_string) \<Rightarrow> (string \<Rightarrow> byte_string) \<Rightarrow> 'v rec list \<Rightarrow> byte_string" where
  "enc_recs put_line del_line rs \<equiv> concat (map (enc_rec put_line del_line) rs)"

abbreviation enc_table :: "(string \<Rightarrow> 'v \<Rightarrow> byte_string) \<Rightarrow> 'v table \<Rightarrow> byte_string" where
  "enc_table put_line t \<equiv> concat (map (\<lambda>(k, v). put_line k v) t)"

text \<open>The constructors read the snapshot and then the log; a file that is absent is skipped.\<close>

definition load_files :: "(byte_string \<Rightarrow> 'v table \<Rightarrow> 'v table option) \<Rightarrow> table_disk \<Rightarrow> 'v table option" where
  "load_files load d =
     (case (case snapshot_file d of None \<Rightarrow> Some [] | Some s \<Rightarrow> load s []) of
        None \<Rightarrow> None
      | Some t \<Rightarrow> (case log_file d of None \<Rightarrow> Some t | Some s \<Rightarrow> load s t))"

subsection \<open>The contract of a persistent table\<close>

text \<open>
  A serialisation is a way to print an entry and an erasure and a reader of the printed records.
  The reader carries a buffer from one record to the next.  \<open>legal t k\<close> says that erasing \<open>k\<close> from
  a table \<open>t\<close> is read back as an erasure, \<open>ok k v\<close> that the entry is read back as itself.
\<close>

locale persistent_table =
  fixes put_line :: "string \<Rightarrow> 'v \<Rightarrow> byte_string"
    and del_line :: "string \<Rightarrow> byte_string"
    and load :: "'c \<Rightarrow> byte_string \<Rightarrow> 'v table \<Rightarrow> 'v table option"
    and ok :: "string \<Rightarrow> 'v \<Rightarrow> bool"
    and key_ok :: "string \<Rightarrow> bool"
    and legal :: "'v table \<Rightarrow> string \<Rightarrow> bool"
  assumes load_nil: "load c [] t = Some t"
    and load_put: "ok k v \<Longrightarrow> \<exists>c'. load c (put_line k v @ s) t = load c' s (AList.update k v t)"
    and load_del: "key_ok k \<Longrightarrow> legal t k \<Longrightarrow> \<exists>c'. load c (del_line k @ s) t = load c' s (AList.delete k t)"
    and legal_dom: "map_of t = map_of t' \<Longrightarrow> legal t k = legal t' k"
    and legal_mem: "map_of t k \<noteq> None \<Longrightarrow> legal t k"
begin

fun valid_from :: "'v table \<Rightarrow> 'v rec list \<Rightarrow> bool" where
  "valid_from t [] \<longleftrightarrow> True"
| "valid_from t (Put k v # rs) \<longleftrightarrow> ok k v \<and> valid_from (AList.update k v t) rs"
| "valid_from t (Del k # rs) \<longleftrightarrow> key_ok k \<and> legal t k \<and> valid_from (AList.delete k t) rs"

lemma valid_from_append:
  "valid_from t (rs @ rs') \<longleftrightarrow> valid_from t rs \<and> valid_from (replay rs t) rs'"
  by (induction t rs rule: valid_from.induct) auto

lemma load_recs_then:
  "valid_from t rs \<Longrightarrow> \<exists>c'. load c (enc_recs put_line del_line rs @ s) t = load c' s (replay rs t)"
proof (induction t rs arbitrary: c rule: valid_from.induct)
  case (1 t)
  then show ?case by auto
next
  case (2 t k v rs)
  then obtain c' where "load c (put_line k v @ enc_recs put_line del_line rs @ s) t
      = load c' (enc_recs put_line del_line rs @ s) (AList.update k v t)"
    using load_put by fastforce
  with 2 show ?case by simp
next
  case (3 t k rs)
  then obtain c' where "load c (del_line k @ enc_recs put_line del_line rs @ s) t
      = load c' (enc_recs put_line del_line rs @ s) (AList.delete k t)"
    using load_del by fastforce
  with 3 show ?case by simp
qed

lemma load_recs: "valid_from t rs \<Longrightarrow> load c (enc_recs put_line del_line rs) t = Some (replay rs t)"
  using load_recs_then[of t rs c "[]"] load_nil by auto

lemma valid_from_puts: "\<forall>(k, v) \<in> set es. ok k v \<Longrightarrow> valid_from t (map (\<lambda>(k, v). Put k v) es)"
  by (induction es arbitrary: t) auto

lemma enc_table_recs: "enc_table put_line es = enc_recs put_line del_line (map (\<lambda>(k, v). Put k v) es)"
  by (induction es) auto

lemma last_op_puts:
  "table_ok es \<Longrightarrow> last_op (map (\<lambda>(k, v). Put k v) es) k = map_option Some (map_of es k)"
proof (induction es)
  case (Cons e es)
  obtain a b where e: "e = (a, b)" by (cases e)
  have "map_of es a = None"
    using Cons.prems e by (simp add: map_of_eq_None_iff)
  then show ?case
    using Cons e by (auto split: option.splits)
qed simp

lemma replay_puts: "table_ok es \<Longrightarrow> map_of (replay (map (\<lambda>(k, v). Put k v) es) []) = map_of es"
  by (rule ext) (simp add: map_of_replay last_op_puts split: option.splits)

lemma load_table:
  assumes "table_ok es" "\<forall>(k, v) \<in> set es. ok k v"
  shows "\<exists>t. load c (enc_table put_line es) [] = Some t \<and> map_of t = map_of es \<and> table_ok t"
proof (intro exI conjI)
  show "load c (enc_table put_line es) [] = Some (replay (map (\<lambda>(k, v). Put k v) es) [])"
    unfolding enc_table_recs by (rule load_recs[OF valid_from_puts[OF assms(2)]])
  show "map_of (replay (map (\<lambda>(k, v). Put k v) es) []) = map_of es"
    by (rule replay_puts[OF assms(1)])
  show "table_ok (replay (map (\<lambda>(k, v). Put k v) es) [])"
    by simp
qed

lemma valid_from_cong: "map_of t = map_of t' \<Longrightarrow> valid_from t rs = valid_from t' rs"
proof (induction t rs arbitrary: t' rule: valid_from.induct)
  case (2 t k v rs)
  have "map_of (AList.update k v t) = map_of (AList.update k v t')"
    using 2(2) by (simp add: table_simps)
  from 2(1)[OF this] show ?case by simp
next
  case (3 t k rs)
  have "map_of (AList.delete k t) = map_of (AList.delete k t')"
    using 3(2) by (simp add: table_simps)
  from 3(1)[OF this] legal_dom[OF 3(2)] show ?case by simp
qed simp

text \<open>
  The files hold the table \<open>t\<close>: the snapshot is a printed table (or absent), the log is the
  printed records since, and replaying them gives \<open>t\<close>.
\<close>

definition holds :: "table_disk \<Rightarrow> 'v table \<Rightarrow> bool" where
  "holds d t \<longleftrightarrow>
     (\<exists>S rs. (snapshot_file d = None \<and> S = [] \<or> snapshot_file d = Some (enc_table put_line S))
        \<and> table_ok S \<and> (\<forall>(k, v) \<in> set S. ok k v)
        \<and> log_file d = Some (enc_recs put_line del_line rs)
        \<and> valid_from S rs \<and> map_of (replay rs S) = map_of t)"

text \<open>Bytes behind the log are read with the table the log gives.\<close>

lemma holds_load_tail:
  assumes "holds d t"
  shows "\<exists>t' c'. map_of t' = map_of t \<and> table_ok t'
    \<and> load_files (load c) (run_op (AppendLog s) d) = load c' s t'"
proof -
  obtain S rs where snap: "snapshot_file d = None \<and> S = [] \<or> snapshot_file d = Some (enc_table put_line S)"
    and S: "table_ok S" "\<forall>(k, v) \<in> set S. ok k v"
    and log: "log_file d = Some (enc_recs put_line del_line rs)"
    and rs: "valid_from S rs" "map_of (replay rs S) = map_of t"
    using assms unfolding holds_def by blast
  obtain T where T: "(case snapshot_file d of None \<Rightarrow> Some [] | Some s \<Rightarrow> load c s []) = Some T"
    "map_of T = map_of S" "table_ok T"
    using snap load_table[OF S, of c] by auto
  have "valid_from T rs"
    using rs(1) valid_from_cong[OF T(2)] by simp
  then obtain c' where "load c (enc_recs put_line del_line rs @ s) T = load c' s (replay rs T)"
    using load_recs_then by blast
  then have "load_files (load c) (run_op (AppendLog s) d) = load c' s (replay rs T)"
    using T(1) log by (simp add: load_files_def)
  moreover have "map_of (replay rs T) = map_of t"
    using replay_cong[OF T(2)] rs(2) by metis
  ultimately show ?thesis
    using table_ok_replay[OF T(3)] by blast
qed

lemma holds_load:
  assumes "holds d t"
  shows "\<exists>t'. load_files (load c) d = Some t' \<and> map_of t' = map_of t \<and> table_ok t'"
proof -
  have "run_op (AppendLog []) d = d"
    using assms by (cases d) (auto simp: holds_def option.map_ident)
  then show ?thesis
    using holds_load_tail[OF assms, of c "[]"] load_nil by auto
qed

lemma holds_cong: "holds d t \<Longrightarrow> map_of t = map_of t' \<Longrightarrow> holds d t'"
  unfolding holds_def by metis

lemma holds_append:
  assumes "holds d t" "valid_from t rs'"
  shows "holds (run_op (AppendLog (enc_recs put_line del_line rs')) d) (replay rs' t)"
proof -
  obtain S rs where *: "snapshot_file d = None \<and> S = [] \<or> snapshot_file d = Some (enc_table put_line S)"
    "table_ok S" "\<forall>(k, v) \<in> set S. ok k v" "log_file d = Some (enc_recs put_line del_line rs)"
    "valid_from S rs" "map_of (replay rs S) = map_of t"
    using assms(1) unfolding holds_def by blast
  have "valid_from S (rs @ rs')"
    using *(5,6) assms(2) valid_from_cong by (metis valid_from_append)
  moreover have "map_of (replay (rs @ rs') S) = map_of (replay rs' t)"
    using replay_cong[OF *(6)] by simp
  moreover have "log_file (run_op (AppendLog (enc_recs put_line del_line rs')) d)
      = Some (enc_recs put_line del_line (rs @ rs'))"
    using *(4) by simp
  moreover have "snapshot_file (run_op (AppendLog (enc_recs put_line del_line rs')) d) = snapshot_file d"
    by simp
  ultimately show ?thesis
    using *(1-3) unfolding holds_def by metis
qed

lemma holds_put:
  "holds d t \<Longrightarrow> ok k v \<Longrightarrow> holds (run_op (AppendLog (put_line k v)) d) (AList.update k v t)"
  using holds_append[of d t "[Put k v]"] by simp

lemma holds_del:
  "holds d t \<Longrightarrow> key_ok k \<Longrightarrow> legal t k \<Longrightarrow> holds (run_op (AppendLog (del_line k)) d) (AList.delete k t)"
  using holds_append[of d t "[Del k]"] by simp

lemma holds_other_files:
  "snapshot_file d' = snapshot_file d \<Longrightarrow> log_file d' = log_file d \<Longrightarrow> holds d t \<Longrightarrow> holds d' t"
  unfolding holds_def by simp

lemma holds_log: "holds d t \<Longrightarrow> log_file d \<noteq> None"
  unfolding holds_def by auto

lemma holds_boot: "snapshot_file d = None \<Longrightarrow> log_file d = Some [] \<Longrightarrow> holds d []"
  unfolding holds_def by (intro exI[of _ "[]"]) simp

lemma holds_snapshot:
  assumes "snapshot_file d = Some (enc_table put_line es)" "log_file d = Some []"
    and "table_ok es" "\<forall>(k, v) \<in> set es. ok k v" "map_of es = map_of t"
  shows "holds d t"
  unfolding holds_def by (intro exI[of _ es] exI[of _ "[]"]) (use assms in auto)

end

text \<open>
  Where erasing an absent entry is read back as doing nothing, a snapshot replayed with the log
  it already covers still gives the table: this is what the rename before the truncation of the
  log relies on.
\<close>

locale lenient_table = persistent_table +
  assumes legal_any: "legal t k"
begin

lemma valid_from_any: "valid_from t rs = valid_from t' rs"
proof (induction rs arbitrary: t t')
  case (Cons r rs)
  show ?case
  proof (cases r)
    case (Put k v)
    with Cons.IH show ?thesis by auto
  next
    case (Del k)
    with Cons.IH[of "AList.delete k t" "AList.delete k t'"] legal_any show ?thesis
      unfolding Del valid_from.simps by blast
  qed
qed simp

lemma holds_renamed:
  assumes "holds d t" "table_ok es" "\<forall>(k, v) \<in> set es. ok k v" "map_of es = map_of t"
    and "snapshot_file d' = Some (enc_table put_line es)" "log_file d' = log_file d"
  shows "holds d' t"
proof -
  obtain S rs where *: "log_file d = Some (enc_recs put_line del_line rs)"
    "valid_from S rs" "map_of (replay rs S) = map_of t"
    using assms(1) unfolding holds_def by blast
  have "map_of (replay rs es) = map_of t"
    using replay_idem[of es rs S] assms(4) *(3) by simp
  moreover have "valid_from es rs"
    using *(2) valid_from_any by blast
  ultimately show ?thesis
    using assms *(1) unfolding holds_def by metis
qed

end

end
