(* ===== verification/Is_Dirty.thy ===== *)
theory Is_Dirty
  imports Table_Store
begin

section \<open>The table of dirty files\<close>

text \<open>
  \<^verbatim>\<open>class is_dirty_t\<close> of \<^verbatim>\<open>afs_client.cc\<close>: which cached files hold writes not yet uploaded.  One
  record is one line of 66 characters, the 64 digits of the path's hash, a blank and \<^verbatim>\<open>0\<close>, \<^verbatim>\<open>1\<close> or
  \<^verbatim>\<open>2\<close> (erased).  Proved here: what \<^verbatim>\<open>get\<close> returns after each operation, that a restart reads back
  the table the object held, also when the client dies between any two of its writes, and that a
  line cut short makes every later start of the client fail its assertion.
\<close>

definition is_dirty_snapshot_path :: "string \<Rightarrow> string" where
  "is_dirty_snapshot_path cache_root = cache_root @ ''/is_dirty_snapshot.txt''"

definition is_dirty_log_path :: "string \<Rightarrow> string" where
  "is_dirty_log_path cache_root = cache_root @ ''/is_dirty_log.txt''"

subsection \<open>Reading the files back\<close>

text \<open>The \<^verbatim>\<open>switch (buf.back())\<close> of the constructor.\<close>

definition is_dirty_line :: "string \<Rightarrow> bool table \<Rightarrow> bool table" where
  "is_dirty_line buf t =
     (if last buf = CHR ''2'' then AList.delete (take 64 buf) t
      else if last buf = CHR ''1'' then AList.update (take 64 buf) True t
      else if last buf = CHR ''0'' then AList.update (take 64 buf) False t
      else t)"

text \<open>
  The reading loop, on the bytes not yet consumed.  \<^verbatim>\<open>tellg\<close> equals the size when they are used up,
  and is \<^verbatim>\<open>-1\<close> once \<^verbatim>\<open>getline\<close> has met the end of the file; \<open>None\<close> is the failed \<^verbatim>\<open>assert\<close>.
\<close>

function is_dirty_read :: "byte_string \<Rightarrow> bool table \<Rightarrow> bool table option" where
  "is_dirty_read s t =
     (if s = [] then Some t
      else (case getline s of (buf, rest, eof) \<Rightarrow>
        if length buf \<noteq> 66 then None
        else if eof then Some (is_dirty_line buf t)
        else is_dirty_read rest (is_dirty_line buf t)))"
  by pat_completeness auto
termination
  by (relation "measure (\<lambda>(s, t). length s)") (auto dest: getline_shorter[OF sym])

declare is_dirty_read.simps [simp del]

text \<open>
  The constructor.  \<^verbatim>\<open>counter\<close> is never initialised, so its first value \<open>c0\<close> is whatever the memory
  held.  Opening the log for appending creates it.
\<close>

definition is_dirty_new :: "bool \<Rightarrow> int \<Rightarrow> table_disk \<Rightarrow> (bool table_obj \<times> table_disk) option" where
  "is_dirty_new can_write c0 d =
     (case load_files is_dirty_read d of
        None \<Rightarrow> None
      | Some t \<Rightarrow>
          Some (\<lparr>table = t, log_is_open = can_write, counter = c0, snapshot_frequency = 10\<rparr>,
                if can_write then d\<lparr>log_file := Some (case log_file d of None \<Rightarrow> [] | Some s \<Rightarrow> s)\<rparr>
                else d))"

subsection \<open>Operations\<close>

definition is_dirty_get :: "bool store_env \<Rightarrow> bool table_obj \<Rightarrow> string \<Rightarrow> bool" where
  "is_dirty_get e obj filename =
     (let hashed_fn = hashpath (digest e) filename
      in case map_of (table obj) hashed_fn of None \<Rightarrow> False | Some b \<Rightarrow> b)"

definition is_dirty_put_line :: "string \<Rightarrow> bool \<Rightarrow> byte_string" where
  "is_dirty_put_line hashed_fn state = hashed_fn @ '' '' @ (if state then ''1'' else ''0'') @ [newline]"

definition is_dirty_del_line :: "string \<Rightarrow> byte_string" where
  "is_dirty_del_line hashed_fn = hashed_fn @ '' 2'' @ [newline]"

definition is_dirty_do_snapshot ::
    "bool store_env \<Rightarrow> bool table_obj \<Rightarrow> bool \<times> bool table_obj \<times> disk_op list" where
  "is_dirty_do_snapshot e obj =
     (if writable e then
        (True, obj\<lparr>log_is_open := True\<rparr>,
         OpenTmp # map (\<lambda>(k, v). AppendTmp (is_dirty_put_line k v)) (visit e (table obj))
           @ [RenameTmp, TruncLog])
      else (False, obj, []))"

definition is_dirty_set ::
    "bool store_env \<Rightarrow> bool table_obj \<Rightarrow> string \<Rightarrow> bool \<Rightarrow> bool table_obj \<times> disk_op list" where
  "is_dirty_set e obj filename state =
     (let hashed_fn = hashpath (digest e) filename in
      if map_of (table obj) hashed_fn = Some state then (obj, [])
      else
        let obj1 = obj\<lparr>table := AList.update hashed_fn state (table obj)\<rparr>;
            ops = (if log_is_open obj then [AppendLog (is_dirty_put_line hashed_fn state)] else []);
            c = cpp_rem (counter obj + 1) (snapshot_frequency obj);
            obj2 = obj1\<lparr>counter := c\<rparr>
        in if c = 0
           then (case is_dirty_do_snapshot e obj2 of (_, obj3, ops') \<Rightarrow> (obj3, ops @ ops'))
           else (obj2, ops))"

definition is_dirty_erase ::
    "bool store_env \<Rightarrow> bool table_obj \<Rightarrow> string \<Rightarrow> bool table_obj \<times> disk_op list" where
  "is_dirty_erase e obj filename =
     (let hashed_fn = hashpath (digest e) filename in
      if map_of (table obj) hashed_fn \<noteq> None
      then (obj\<lparr>table := AList.delete hashed_fn (table obj)\<rparr>,
            if log_is_open obj then [AppendLog (is_dirty_del_line hashed_fn)] else [])
      else (obj, []))"

subsection \<open>The serialisation obeys the contract\<close>

abbreviation hash_key :: "string \<Rightarrow> bool" where
  "hash_key k \<equiv> length k = 64 \<and> newline \<notin> set k"

lemma is_dirty_read_nil [simp]: "is_dirty_read [] t = Some t"
  by (simp add: is_dirty_read.simps)

lemma is_dirty_read_line:
  assumes "length buf = 66" "newline \<notin> set buf"
  shows "is_dirty_read (buf @ newline # s) t = is_dirty_read s (is_dirty_line buf t)"
  using assms by (subst is_dirty_read.simps) simp

lemma is_dirty_line_put [simp]:
  "length k = 64 \<Longrightarrow> is_dirty_line (k @ '' '' @ (if b then ''1'' else ''0'')) t = AList.update k b t"
  by (simp add: is_dirty_line_def)

lemma is_dirty_line_del [simp]:
  "length k = 64 \<Longrightarrow> is_dirty_line (k @ '' 2'') t = AList.delete k t"
  by (simp add: is_dirty_line_def)

lemma is_dirty_read_put:
  assumes "hash_key k"
  shows "is_dirty_read (is_dirty_put_line k b @ s) t = is_dirty_read s (AList.update k b t)"
  using is_dirty_read_line[of "k @ '' '' @ (if b then ''1'' else ''0'')" s t] assms
  by (simp add: is_dirty_put_line_def is_dirty_line_put[simplified])

lemma is_dirty_read_del:
  assumes "hash_key k"
  shows "is_dirty_read (is_dirty_del_line k @ s) t = is_dirty_read s (AList.delete k t)"
  using is_dirty_read_line[of "k @ '' 2''" s t] assms
  by (simp add: is_dirty_del_line_def is_dirty_line_del[simplified])

interpretation dirty: lenient_table
  is_dirty_put_line is_dirty_del_line "\<lambda>_::unit. is_dirty_read" "\<lambda>k _. hash_key k" hash_key "\<lambda>_ _. True"
  by unfold_locales (auto simp: is_dirty_read_put is_dirty_read_del)

subsection \<open>Reachable states, with crashes\<close>

text \<open>
  The object and its files in step: the log is open and the files hold the table.
\<close>

definition is_dirty_synced :: "bool table_obj \<Rightarrow> table_disk \<Rightarrow> bool" where
  "is_dirty_synced obj d \<longleftrightarrow>
     log_is_open obj \<and> table_ok (table obj) \<and> (\<forall>k. map_of (table obj) k \<noteq> None \<longrightarrow> hash_key k)
     \<and> dirty.holds d (table obj)"

text \<open>
  What can happen to the object: it is built on empty files, set, erased from, or the client dies
  between two writes of an operation and is started again.
\<close>

definition no_files :: table_disk where
  "no_files = \<lparr>snapshot_file = None, snapshot_tmp = None, log_file = None\<rparr>"

inductive is_dirty_reach :: "bool store_env \<Rightarrow> bool table_obj \<Rightarrow> table_disk \<Rightarrow> bool" for e where
  boot: "is_dirty_new True c0 no_files = Some (obj, d) \<Longrightarrow> is_dirty_reach e obj d"
| set: "is_dirty_reach e obj d \<Longrightarrow> is_dirty_set e obj f b = (obj', ops)
    \<Longrightarrow> is_dirty_reach e obj' (run_ops ops d)"
| erase: "is_dirty_reach e obj d \<Longrightarrow> is_dirty_erase e obj f = (obj', ops)
    \<Longrightarrow> is_dirty_reach e obj' (run_ops ops d)"
| crash_set: "is_dirty_reach e obj d \<Longrightarrow> is_dirty_set e obj f b = (obj', ops)
    \<Longrightarrow> is_dirty_new True c0 (run_ops (take n ops) d) = Some (obj'', d'') \<Longrightarrow> is_dirty_reach e obj'' d''"
| crash_erase: "is_dirty_reach e obj d \<Longrightarrow> is_dirty_erase e obj f = (obj', ops)
    \<Longrightarrow> is_dirty_new True c0 (run_ops (take n ops) d) = Some (obj'', d'') \<Longrightarrow> is_dirty_reach e obj'' d''"

lemma is_dirty_new_synced:
  assumes "is_dirty_new True c0 d = Some (obj, d')" "dirty.holds d t"
    "\<forall>k. map_of t k \<noteq> None \<longrightarrow> hash_key k"
  shows "is_dirty_synced obj d' \<and> map_of (table obj) = map_of t"
proof -
  obtain t' where t': "load_files is_dirty_read d = Some t'" "map_of t' = map_of t" "table_ok t'"
    using dirty.holds_load[OF assms(2)] by blast
  have "log_file d \<noteq> None"
    by (rule dirty.holds_log[OF assms(2)])
  then have "d' = d" "table obj = t'" "log_is_open obj"
    using assms(1) t'(1) by (auto simp: is_dirty_new_def)
  moreover have "dirty.holds d t'"
    using dirty.holds_cong[OF assms(2)] t'(2) by simp
  ultimately show ?thesis
    using t' assms(3) by (simp add: is_dirty_synced_def)
qed

lemma is_dirty_boot_synced:
  assumes "is_dirty_new True c0 no_files = Some (obj, d)"
  shows "is_dirty_synced obj d \<and> table obj = []"
proof -
  have "dirty.holds (no_files\<lparr>log_file := Some []\<rparr>) []"
    by (rule dirty.holds_boot) (simp_all add: no_files_def)
  then show ?thesis
    using assms by (auto simp: is_dirty_new_def load_files_def no_files_def is_dirty_synced_def)
qed

text \<open>
  The heart of it: whatever prefix of an operation's writes reached the disk, the files hold the
  table from before or the one from after, and after all of them object and files are in step.
\<close>

lemma is_dirty_snapshot_holds:
  assumes "dirty.holds d t" "table_ok t" "\<forall>k. map_of t k \<noteq> None \<longrightarrow> hash_key k" "visits_all e"
  shows "dirty.holds (run_ops (take n (snapshot_ops (\<lambda>(k, v). is_dirty_put_line k v) (visit e t))) d) t"
proof -
  note v = visit_facts[OF assms(4,2)]
  have keys: "\<forall>(k, v) \<in> set (visit e t). hash_key k"
    using assms(3) v(3) by (auto dest: weak_map_of_SomeI)
  show ?thesis
    using run_snapshot_prefix[of n "\<lambda>(k, v). is_dirty_put_line k v" "visit e t" d]
      dirty.holds_other_files[OF _ _ assms(1)] dirty.holds_renamed[OF assms(1) v(2) keys v(1)]
      dirty.holds_snapshot[OF _ _ v(2) keys v(1)]
    by blast
qed

lemma is_dirty_set_cases:
  assumes sync: "is_dirty_synced obj d" and set: "is_dirty_set e obj f b = (obj', ops)"
    and e: "visits_all e" "writable e"
  shows "is_dirty_synced obj' (run_ops ops d)
       \<and> map_of (table obj') = (map_of (table obj))(hashpath (digest e) f \<mapsto> b)
       \<and> (\<forall>n. dirty.holds (run_ops (take n ops) d) (table obj)
            \<or> dirty.holds (run_ops (take n ops) d) (table obj'))"
proof -
  let ?h = "hashpath (digest e) f"
  let ?t = "AList.update ?h b (table obj)"
  let ?line = "\<lambda>(k, v). is_dirty_put_line k v"
  have s: "log_is_open obj" "table_ok (table obj)" "\<forall>k. map_of (table obj) k \<noteq> None \<longrightarrow> hash_key k"
    "dirty.holds d (table obj)"
    using sync by (simp_all add: is_dirty_synced_def)
  define d1 where "d1 = run_op (AppendLog (is_dirty_put_line ?h b)) d"
  have t: "table_ok ?t" "\<forall>k. map_of ?t k \<noteq> None \<longrightarrow> hash_key k"
    using s(2,3) by (auto simp: table_simps)
  have h1: "dirty.holds d1 ?t"
    unfolding d1_def by (rule dirty.holds_put[OF s(4)]) simp
  have pre: "run_ops (take n (AppendLog (is_dirty_put_line ?h b) # more)) d
      = (if n = 0 then d else run_ops (take (n - 1) more) d1)" for n more
    by (cases n) (simp_all add: d1_def)
  show ?thesis
  proof (cases "map_of (table obj) ?h = Some b")
    case True
    then have "obj' = obj" "ops = []"
      using set by (simp_all add: is_dirty_set_def Let_def)
    with True sync s(4) show ?thesis by auto
  next
    case False
    show ?thesis
    proof (cases "cpp_rem (counter obj + 1) (snapshot_frequency obj) = 0")
      case True
      have ops: "ops = AppendLog (is_dirty_put_line ?h b) # snapshot_ops ?line (visit e ?t)"
        and obj': "table obj' = ?t" "log_is_open obj'"
        using set False True s(1) e(2) by (auto simp: is_dirty_set_def is_dirty_do_snapshot_def Let_def)
      have snap: "dirty.holds (run_ops (take m (snapshot_ops ?line (visit e ?t))) d1) ?t" for m
        by (rule is_dirty_snapshot_holds[OF h1 t e(1)])
      have all: "dirty.holds (run_ops (take n ops) d) (table obj)
          \<or> dirty.holds (run_ops (take n ops) d) (table obj')" for n
        unfolding ops pre obj' using s(4) snap by simp
      have "dirty.holds (run_ops ops d) ?t"
        using snap[of "length (snapshot_ops ?line (visit e ?t))"] pre[of "length ops"]
        by (simp add: ops d1_def del: run_op.simps)
      with all t obj' show ?thesis
        by (simp add: is_dirty_synced_def table_simps)
    next
      case ctr: False
      have ops: "ops = [AppendLog (is_dirty_put_line ?h b)]"
        and obj': "table obj' = ?t" "log_is_open obj'"
        using set False ctr s(1) by (auto simp: is_dirty_set_def Let_def)
      have "dirty.holds (run_ops (take n ops) d) (table obj)
          \<or> dirty.holds (run_ops (take n ops) d) (table obj')" for n
        unfolding ops pre obj' using s(4) h1 by simp
      moreover have "dirty.holds (run_ops ops d) ?t"
        using h1 by (simp add: ops d1_def)
      ultimately show ?thesis
        using t obj' by (simp add: is_dirty_synced_def table_simps)
    qed
  qed
qed

lemma is_dirty_erase_cases:
  assumes sync: "is_dirty_synced obj d" and er: "is_dirty_erase e obj f = (obj', ops)"
  shows "is_dirty_synced obj' (run_ops ops d)
       \<and> map_of (table obj') = (map_of (table obj))(hashpath (digest e) f := None)
       \<and> (\<forall>n. dirty.holds (run_ops (take n ops) d) (table obj)
            \<or> dirty.holds (run_ops (take n ops) d) (table obj'))"
proof -
  let ?h = "hashpath (digest e) f"
  have s: "log_is_open obj" "table_ok (table obj)" "\<forall>k. map_of (table obj) k \<noteq> None \<longrightarrow> hash_key k"
    "dirty.holds d (table obj)"
    using sync by (simp_all add: is_dirty_synced_def)
  show ?thesis
  proof (cases "map_of (table obj) ?h = None")
    case True
    then have "obj' = obj" "ops = []"
      using er by (simp_all add: is_dirty_erase_def Let_def)
    with True sync s(4) show ?thesis by auto
  next
    case False
    have ops: "ops = [AppendLog (is_dirty_del_line ?h)]"
      and obj': "table obj' = AList.delete ?h (table obj)" "log_is_open obj'"
      using er False s(1) by (auto simp: is_dirty_erase_def Let_def)
    have h: "dirty.holds (run_ops ops d) (table obj')"
      using dirty.holds_del[OF s(4), of ?h] by (simp add: ops obj')
    have "dirty.holds (run_ops (take n ops) d) (table obj)
        \<or> dirty.holds (run_ops (take n ops) d) (table obj')" for n
      using s(4) h by (cases n) (simp_all add: ops)
    with h s(2,3) obj' show ?thesis
      by (auto simp: is_dirty_synced_def table_simps)
  qed
qed

lemma is_dirty_restart_synced:
  assumes "is_dirty_synced obj d" "is_dirty_synced obj' d'" "is_dirty_new True c0 d'' = Some (o3, d3)"
    "dirty.holds d'' (table obj) \<or> dirty.holds d'' (table obj')"
  shows "is_dirty_synced o3 d3"
proof -
  obtain t where t: "dirty.holds d'' t" "\<forall>k. map_of t k \<noteq> None \<longrightarrow> hash_key k"
    using assms(1,2,4) unfolding is_dirty_synced_def by blast
  show ?thesis
    using is_dirty_new_synced[OF assms(3) t] by blast
qed

lemma is_dirty_reach_synced:
  assumes e: "visits_all e" "writable e"
  shows "is_dirty_reach e obj d \<Longrightarrow> is_dirty_synced obj d"
proof (induction rule: is_dirty_reach.induct)
  case (boot c0 obj d)
  then show ?case using is_dirty_boot_synced by blast
next
  case (set obj d f b obj' ops)
  then show ?case using is_dirty_set_cases[OF _ _ e] by blast
next
  case (erase obj d f obj' ops)
  then show ?case using is_dirty_erase_cases by blast
next
  case (crash_set obj d f b obj' ops c0 n obj'' d'')
  then show ?case
    using is_dirty_set_cases[OF crash_set.IH crash_set.hyps(2) e] is_dirty_restart_synced by blast
next
  case (crash_erase obj d f obj' ops c0 n obj'' d'')
  then show ?case
    using is_dirty_erase_cases[OF crash_erase.IH crash_erase.hyps(2)] is_dirty_restart_synced by blast
qed

subsection \<open>Properties\<close>

lemma is_dirty_set_table:
  "map_of (table (fst (is_dirty_set e obj f b))) = (map_of (table obj))(hashpath (digest e) f \<mapsto> b)"
  by (auto simp: is_dirty_set_def is_dirty_do_snapshot_def Let_def table_simps split: prod.splits)

lemma is_dirty_erase_table:
  "map_of (table (fst (is_dirty_erase e obj f))) = (map_of (table obj))(hashpath (digest e) f := None)"
  by (auto simp: is_dirty_erase_def Let_def table_simps)

text \<open>
  After \<^verbatim>\<open>set(f, b)\<close>, \<^verbatim>\<open>get\<close> answers \<open>b\<close> for every path with the hash of \<open>f\<close> and what it answered
  before for every other path; after \<^verbatim>\<open>erase(f)\<close> it answers false for \<open>f\<close> and as before for the
  others.  This holds whether or not the operation logged anything or took a snapshot.
\<close>

lemma is_dirty_get_after:
  "is_dirty_get e (fst (is_dirty_set e obj f b)) g =
     (if hashpath (digest e) g = hashpath (digest e) f then b else is_dirty_get e obj g)
   \<and> is_dirty_get e (fst (is_dirty_erase e obj f)) g =
     (if hashpath (digest e) g = hashpath (digest e) f then False else is_dirty_get e obj g)"
  by (simp add: is_dirty_get_def is_dirty_set_table is_dirty_erase_table Let_def)

text \<open>
  At any moment of any history of sets, erasures, deaths in the middle of an operation and
  restarts, the constructor run on the files present succeeds and reads back the very table the
  object holds.
\<close>

lemma is_dirty_restart_reads_table:
  assumes "visits_all e" "writable e" "is_dirty_reach e obj d"
  shows "\<exists>t. load_files is_dirty_read d = Some t \<and> map_of t = map_of (table obj)"
  using is_dirty_reach_synced[OF assms] dirty.holds_load unfolding is_dirty_synced_def by blast

text \<open>
  C19: \<^verbatim>\<open>set\<close> is atomic with respect to a crash.  Whatever prefix of its writes (log line, temporary
  snapshot, rename, truncation of the log) reached the disk, a restart reads the table from before
  the call or the one after it.
\<close>

theorem is_dirty_set_crash_atomic:
  assumes "visits_all e" "writable e" "is_dirty_reach e obj d" "is_dirty_set e obj f b = (obj', ops)"
  shows "\<exists>t. load_files is_dirty_read (run_ops (take n ops) d) = Some t
      \<and> (map_of t = map_of (table obj) \<or> map_of t = (map_of (table obj))(hashpath (digest e) f \<mapsto> b))"
proof -
  note c = is_dirty_set_cases[OF is_dirty_reach_synced[OF assms(1-3)] assms(4,1,2)]
  then obtain t where "dirty.holds (run_ops (take n ops) d) t" "t = table obj \<or> t = table obj'"
    by blast
  then show ?thesis
    using dirty.holds_load[of "run_ops (take n ops) d" t] c by auto
qed

text \<open>
  A log line cut short (by a crash inside a write) is not survived.  If fewer than 66 of its
  characters, but at least one, reached the file, the constructor's \<^verbatim>\<open>assert(false)\<close> ends the client
  at its next start, whatever the table was.
\<close>

lemma is_dirty_torn_line_aborts:
  assumes "visits_all e" "writable e" "is_dirty_reach e obj d" "0 < n" "n < 66" "length h = 64"
    "newline \<notin> set h"
  shows "is_dirty_new True c0 (run_op (AppendLog (take n (is_dirty_put_line h b))) d) = None"
proof -
  have holds: "dirty.holds d (table obj)"
    using is_dirty_reach_synced[OF assms(1-3)] by (simp add: is_dirty_synced_def)
  let ?s = "take n (is_dirty_put_line h b)"
  have "newline \<notin> set ?s"
    using assms(4-7) by (auto simp: is_dirty_put_line_def take_Cons' dest: in_set_takeD)
  moreover have "length ?s = n"
    using assms(5,6) by (simp add: is_dirty_put_line_def)
  ultimately have "is_dirty_read ?s t = None" for t
    using assms(4,5) getline_last[of ?s] by (subst is_dirty_read.simps) auto
  moreover obtain t' where "load_files is_dirty_read (run_op (AppendLog ?s) d) = is_dirty_read ?s t'"
    using dirty.holds_load_tail[OF holds] by blast
  ultimately show ?thesis
    by (simp add: is_dirty_new_def)
qed

subsection \<open>Witnesses\<close>

definition sample_dirty_env :: "bool store_env" where
  "sample_dirty_env = \<lparr>digest = (\<lambda>s. replicate 32 (CHR ''a'')), visit = rev, writable = True\<rparr>"

definition sample_dirty_obj :: "bool table_obj" where
  "sample_dirty_obj = \<lparr>table = [], log_is_open = True, counter = 9, snapshot_frequency = 10\<rparr>"

definition sample_disk :: table_disk where
  "sample_disk = no_files\<lparr>log_file := Some []\<rparr>"

lemma sample_dirty_env: "visits_all sample_dirty_env" "writable sample_dirty_env"
  by (simp_all add: visits_all_def sample_dirty_env_def)

lemma sample_dirty_reach: "is_dirty_reach e sample_dirty_obj sample_disk"
  by (rule is_dirty_reach.boot[of 9])
    (simp add: is_dirty_new_def load_files_def no_files_def sample_dirty_obj_def sample_disk_def)

theorem is_dirty_set_crash_witness:
  "\<exists>t. load_files is_dirty_read
         (run_ops (take 2 (snd (is_dirty_set sample_dirty_env sample_dirty_obj ''/f'' True))) sample_disk) = Some t
     \<and> (map_of t = map_of (table sample_dirty_obj)
        \<or> map_of t = (map_of (table sample_dirty_obj))(hashpath (digest sample_dirty_env) ''/f'' \<mapsto> True))"
  by (rule is_dirty_set_crash_atomic[OF sample_dirty_env sample_dirty_reach surjective_pairing])

end
