(* ===== verification/Last_Modified.thy ===== *)
theory Last_Modified
  imports Is_Dirty
begin

section \<open>The table of modification times\<close>

text \<open>
  \<^verbatim>\<open>class last_modified_t\<close> of \<^verbatim>\<open>afs_client.cc\<close>: for each cached file the server's modification time
  the cache was filled at, as the sixteen bytes of a \<^verbatim>\<open>struct timespec\<close>, or the marker
  \<^verbatim>\<open>LOCAL_CREAT_FILE\<close>.  A record is the path's hash, a newline, sixteen bytes, a newline; sixteen
  bytes 255 erase the entry.  The reader takes the time with a fixed-size \<^verbatim>\<open>read\<close>, so a newline
  among its bytes does no harm.  Proved here: what \<^verbatim>\<open>get\<close> returns, that a restart reads back the
  table as long as sixteen-byte times were stored, that the marker (22 bytes) makes every later
  start of the client abort, and what a crash inside \<^verbatim>\<open>set\<close> leaves.
\<close>

definition LOCAL_CREAT_FILE :: string where
  "LOCAL_CREAT_FILE = ''locally_generated_file''"

definition last_modified_snapshot_path :: "string \<Rightarrow> string" where
  "last_modified_snapshot_path cache_root = cache_root @ ''/last_modified_snapshot.txt''"

definition last_modified_log_path :: "string \<Rightarrow> string" where
  "last_modified_log_path cache_root = cache_root @ ''/last_modified_log.txt''"

text \<open>\<^verbatim>\<open>std::string(sizeof(struct timespec), 255)\<close>\<close>

definition erased_mark :: byte_string where
  "erased_mark = replicate 16 (CHR 0xFF)"

lemma length_LOCAL [simp]: "length LOCAL_CREAT_FILE = 22"
  by (simp add: LOCAL_CREAT_FILE_def)

subsection \<open>Reading the files back\<close>

text \<open>
  The reading loop on the bytes not yet consumed; \<open>ts\<close> is the 16-character buffer, which keeps what
  it held where \<^verbatim>\<open>read\<close> stores fewer bytes (none, once \<^verbatim>\<open>getline\<close> met the end of the file).  The
  loop goes on only if the time was complete and \<^verbatim>\<open>get\<close> found a byte to strip behind it: otherwise
  the stream has failed and \<^verbatim>\<open>tellg\<close> is \<^verbatim>\<open>-1\<close>.
\<close>

function last_modified_read :: "byte_string \<Rightarrow> byte_string \<Rightarrow> string table \<Rightarrow> string table option" where
  "last_modified_read ts s t =
     (if s = [] then Some t
      else (case getline s of (fn, rest, eof) \<Rightarrow>
        if length fn \<noteq> 64 then None
        else
          let got = (if eof then [] else take 16 rest);
              ts' = got @ drop (length got) ts
          in if ts' = erased_mark \<and> map_of t fn \<noteq> None
             then (if \<not> eof \<and> 16 < length rest
                   then last_modified_read ts' (drop 17 rest) (AList.delete fn t)
                   else Some (AList.delete fn t))
             else if length ts' \<noteq> 16 then None
             else (if \<not> eof \<and> 16 < length rest
                   then last_modified_read ts' (drop 17 rest) (AList.update fn ts' t)
                   else Some (AList.update fn ts' t))))"
  by pat_completeness auto
termination
  by (relation "measure (\<lambda>(ts, s, t). length s)") (auto dest!: getline_shorter[OF sym])

declare last_modified_read.simps [simp del]

text \<open>Each file is read with a fresh buffer of sixteen NUL characters.\<close>

definition fresh_ts :: byte_string where
  "fresh_ts = replicate 16 (CHR 0x00)"

definition last_modified_new :: "bool \<Rightarrow> int \<Rightarrow> table_disk \<Rightarrow> (string table_obj \<times> table_disk) option" where
  "last_modified_new can_write c0 d =
     (case load_files (last_modified_read fresh_ts) d of
        None \<Rightarrow> None
      | Some t \<Rightarrow>
          Some (\<lparr>table = t, log_is_open = can_write, counter = c0, snapshot_frequency = 10\<rparr>,
                if can_write then d\<lparr>log_file := Some (case log_file d of None \<Rightarrow> [] | Some s \<Rightarrow> s)\<rparr>
                else d))"

subsection \<open>Operations\<close>

definition last_modified_get :: "string store_env \<Rightarrow> string table_obj \<Rightarrow> string \<Rightarrow> string" where
  "last_modified_get e obj filename =
     (let hashed_fn = hashpath (digest e) filename
      in case map_of (table obj) hashed_fn of None \<Rightarrow> ''not found'' | Some v \<Rightarrow> v)"

definition last_modified_count :: "string store_env \<Rightarrow> string table_obj \<Rightarrow> string \<Rightarrow> nat" where
  "last_modified_count e obj filename =
     (case map_of (table obj) (hashpath (digest e) filename) of None \<Rightarrow> 0 | Some _ \<Rightarrow> 1)"

definition last_modified_size :: "string table_obj \<Rightarrow> nat" where
  "last_modified_size obj = length (table obj)"

definition last_modified_do_snapshot ::
    "string store_env \<Rightarrow> string table_obj \<Rightarrow> bool \<times> string table_obj \<times> disk_op list" where
  "last_modified_do_snapshot e obj =
     (if writable e then
        (True, obj\<lparr>log_is_open := True\<rparr>,
         OpenTmp # map (\<lambda>(k, v). AppendTmp (k @ [newline] @ v @ [newline])) (visit e (table obj))
           @ [RenameTmp, TruncLog])
      else (False, obj, []))"

text \<open>\<^verbatim>\<open>log << hashed_fn << std::endl << state << std::endl\<close> flushes twice.\<close>

definition last_modified_set ::
    "string store_env \<Rightarrow> string table_obj \<Rightarrow> string \<Rightarrow> string \<Rightarrow> string table_obj \<times> disk_op list" where
  "last_modified_set e obj filename state =
     (let hashed_fn = hashpath (digest e) filename in
      if map_of (table obj) hashed_fn = Some state then (obj, [])
      else
        let obj1 = obj\<lparr>table := AList.update hashed_fn state (table obj)\<rparr>;
            ops = (if log_is_open obj
                   then [AppendLog (hashed_fn @ [newline]), AppendLog (state @ [newline])] else []);
            c = cpp_rem (counter obj + 1) (snapshot_frequency obj);
            obj2 = obj1\<lparr>counter := c\<rparr>
        in if c = 0
           then (case last_modified_do_snapshot e obj2 of (_, obj3, ops') \<Rightarrow> (obj3, ops @ ops'))
           else (obj2, ops))"

definition last_modified_erase ::
    "string store_env \<Rightarrow> string table_obj \<Rightarrow> string \<Rightarrow> string table_obj \<times> disk_op list" where
  "last_modified_erase e obj filename =
     (let hashed_fn = hashpath (digest e) filename in
      if map_of (table obj) hashed_fn \<noteq> None
      then (obj\<lparr>table := AList.delete hashed_fn (table obj)\<rparr>,
            if log_is_open obj
            then [AppendLog (hashed_fn @ [newline]), AppendLog (erased_mark @ [newline])] else [])
      else (obj, []))"

subsection \<open>The serialisation obeys the contract\<close>

definition time_put_line :: "string \<Rightarrow> string \<Rightarrow> byte_string" where
  "time_put_line k v = k @ [newline] @ v @ [newline]"

definition time_del_line :: "string \<Rightarrow> byte_string" where
  "time_del_line k = time_put_line k erased_mark"

text \<open>An entry that is read back as itself: a sixteen-byte time that is not the mark.\<close>

definition time_ok :: "string \<Rightarrow> string \<Rightarrow> bool" where
  "time_ok k v \<longleftrightarrow> hash_key k \<and> length v = 16 \<and> v \<noteq> erased_mark"

definition fit16 :: "byte_string \<Rightarrow> byte_string" where
  "fit16 c = take 16 (c @ fresh_ts)"

lemma length_fit16 [simp]: "length (fit16 c) = 16"
  by (simp add: fit16_def fresh_ts_def)

lemma fit16_id [simp]: "length v = 16 \<Longrightarrow> fit16 v = v"
  by (simp add: fit16_def)

lemma fresh_ts_fit16: "fit16 [] = fresh_ts"
  by (simp add: fit16_def fresh_ts_def)

lemma length_erased_mark [simp]: "length erased_mark = 16"
  by (simp add: erased_mark_def)

lemma last_modified_read_nil [simp]: "last_modified_read ts [] t = Some t"
  by (simp add: last_modified_read.simps)

text \<open>One complete record, with whatever follows it.\<close>

lemma last_modified_read_record:
  assumes "hash_key k" "length v = 16" "length ts = 16"
  shows "last_modified_read ts (time_put_line k v @ s) t =
    last_modified_read v s
      (if v = erased_mark \<and> map_of t k \<noteq> None then AList.delete k t else AList.update k v t)"
proof -
  have g: "getline (k @ newline # v @ newline # s) = (k, v @ newline # s, False)"
    using assms(1) by simp
  have d: "take 16 (v @ newline # s) = v" "drop 17 (v @ newline # s) = s"
    using assms(2) by simp_all
  show ?thesis
    unfolding time_put_line_def
    by (subst last_modified_read.simps) (auto simp: g assms d Let_def)
qed

interpretation mtime: persistent_table
  time_put_line time_del_line "\<lambda>c. last_modified_read (fit16 c)" time_ok hash_key
  in_table
proof
  fix k v c s and t :: "string table"
  assume "time_ok k v"
  then have "last_modified_read (fit16 c) (time_put_line k v @ s) t
      = last_modified_read (fit16 v) s (AList.update k v t)"
    by (simp add: time_ok_def last_modified_read_record)
  then show "\<exists>c'. last_modified_read (fit16 c) (time_put_line k v @ s) t
      = last_modified_read (fit16 c') s (AList.update k v t)" ..
next
  fix k c s and t :: "string table"
  assume "hash_key k" "in_table t k"
  then have "last_modified_read (fit16 c) (time_del_line k @ s) t
      = last_modified_read (fit16 erased_mark) s (AList.delete k t)"
    by (simp add: time_del_line_def last_modified_read_record in_table_def)
  then show "\<exists>c'. last_modified_read (fit16 c) (time_del_line k @ s) t
      = last_modified_read (fit16 c') s (AList.delete k t)" ..
qed (auto simp: in_table_def)

subsection \<open>Reachable states\<close>

definition last_modified_synced :: "string table_obj \<Rightarrow> table_disk \<Rightarrow> bool" where
  "last_modified_synced obj d \<longleftrightarrow>
     log_is_open obj \<and> table_ok (table obj) \<and> (\<forall>k v. map_of (table obj) k = Some v \<longrightarrow> time_ok k v)
     \<and> mtime.holds d (table obj)"

text \<open>
  The object is built on empty files, sixteen-byte times are stored, entries erased, and the
  client is stopped between two operations and started again.
\<close>

inductive last_modified_reach :: "string store_env \<Rightarrow> string table_obj \<Rightarrow> table_disk \<Rightarrow> bool" for e where
  boot: "last_modified_new True c0 no_files = Some (obj, d) \<Longrightarrow> last_modified_reach e obj d"
| set: "last_modified_reach e obj d \<Longrightarrow> length v = 16 \<Longrightarrow> v \<noteq> erased_mark
    \<Longrightarrow> last_modified_set e obj f v = (obj', ops) \<Longrightarrow> last_modified_reach e obj' (run_ops ops d)"
| erase: "last_modified_reach e obj d \<Longrightarrow> last_modified_erase e obj f = (obj', ops)
    \<Longrightarrow> last_modified_reach e obj' (run_ops ops d)"
| restart: "last_modified_reach e obj d \<Longrightarrow> last_modified_new True c0 d = Some (obj', d')
    \<Longrightarrow> last_modified_reach e obj' d'"

lemma mtime_load:
  assumes "mtime.holds d t"
  shows "\<exists>t'. load_files (last_modified_read fresh_ts) d = Some t' \<and> map_of t' = map_of t \<and> table_ok t'"
  using mtime.holds_load[OF assms, of "[]"] by (simp add: fresh_ts_fit16)

lemma mtime_load_tail:
  assumes "mtime.holds d t"
  shows "\<exists>t' c. map_of t' = map_of t \<and> table_ok t'
    \<and> load_files (last_modified_read fresh_ts) (run_op (AppendLog s) d) = last_modified_read (fit16 c) s t'"
  using mtime.holds_load_tail[OF assms, of "[]" s] by (simp add: fresh_ts_fit16)

lemma append_twice [simp]:
  "log_file (run_op (AppendLog b) (run_op (AppendLog a) d)) = log_file (run_op (AppendLog (a @ b)) d)"
  "snapshot_file (run_op (AppendLog b) (run_op (AppendLog a) d)) = snapshot_file (run_op (AppendLog (a @ b)) d)"
  by (simp_all add: option.map_comp comp_def)

lemma last_modified_new_synced:
  assumes "last_modified_new True c0 d = Some (obj', d')" "last_modified_synced obj d"
  shows "last_modified_synced obj' d' \<and> d' = d \<and> map_of (table obj') = map_of (table obj)"
proof -
  have h: "mtime.holds d (table obj)" "\<forall>k v. map_of (table obj) k = Some v \<longrightarrow> time_ok k v"
    using assms(2) by (simp_all add: last_modified_synced_def)
  obtain t' where t': "load_files (last_modified_read fresh_ts) d = Some t'"
    "map_of t' = map_of (table obj)" "table_ok t'"
    using mtime_load[OF h(1)] by blast
  have "log_file d \<noteq> None"
    by (rule mtime.holds_log[OF h(1)])
  then have "d' = d" "table obj' = t'" "log_is_open obj'"
    using assms(1) t'(1) by (auto simp: last_modified_new_def)
  moreover have "mtime.holds d t'"
    using mtime.holds_cong[OF h(1)] t'(2) by simp
  ultimately show ?thesis
    using t' h(2) by (simp add: last_modified_synced_def)
qed

lemma last_modified_boot_synced:
  assumes "last_modified_new True c0 no_files = Some (obj, d)"
  shows "last_modified_synced obj d"
proof -
  have "mtime.holds (no_files\<lparr>log_file := Some []\<rparr>) []"
    by (rule mtime.holds_boot) (simp_all add: no_files_def)
  then show ?thesis
    using assms by (auto simp: last_modified_new_def load_files_def no_files_def last_modified_synced_def)
qed

text \<open>The writes of \<^verbatim>\<open>set\<close>: two appends, and every tenth time a snapshot of the new table.\<close>

lemma last_modified_set_shape:
  assumes "last_modified_set e obj f v = (obj', ops)" "writable e" "log_is_open obj"
    "map_of (table obj) (hashpath (digest e) f) \<noteq> Some v"
  shows "table obj' = AList.update (hashpath (digest e) f) v (table obj)" "log_is_open obj'"
    "ops = AppendLog (hashpath (digest e) f @ [newline]) # AppendLog (v @ [newline])
       # (if cpp_rem (counter obj + 1) (snapshot_frequency obj) = 0
          then snapshot_ops (\<lambda>(k, v). time_put_line k v) (visit e (table obj')) else [])"
  using assms by (auto simp: last_modified_set_def last_modified_do_snapshot_def time_put_line_def
      Let_def split: if_splits)

lemma last_modified_set_same:
  assumes "last_modified_set e obj f v = (obj', ops)"
    "map_of (table obj) (hashpath (digest e) f) = Some v"
  shows "obj' = obj" "ops = []"
  using assms by (simp_all add: last_modified_set_def Let_def)

lemma mtime_keys:
  assumes "\<forall>k v. map_of t k = Some v \<longrightarrow> time_ok k v" "table_ok t" "visits_all e"
  shows "\<forall>(k, v) \<in> set (visit e t). time_ok k v"
  using visit_facts[OF assms(3,2)] assms(1,2) by auto

lemma last_modified_set_synced:
  assumes sync: "last_modified_synced obj d" and v: "length v = 16" "v \<noteq> erased_mark"
    and set: "last_modified_set e obj f v = (obj', ops)" and e: "visits_all e" "writable e"
  shows "last_modified_synced obj' (run_ops ops d)"
proof (cases "map_of (table obj) (hashpath (digest e) f) = Some v")
  case True
  with sync show ?thesis
    using last_modified_set_same[OF set] by simp
next
  case False
  let ?h = "hashpath (digest e) f"
  have s: "log_is_open obj" "table_ok (table obj)" "\<forall>k v. map_of (table obj) k = Some v \<longrightarrow> time_ok k v"
    "mtime.holds d (table obj)"
    using sync by (simp_all add: last_modified_synced_def)
  note shape = last_modified_set_shape[OF set e(2) s(1) False]
  have vok: "time_ok ?h v"
    using v by (simp add: time_ok_def)
  have t: "table_ok (table obj')" "\<forall>k v. map_of (table obj') k = Some v \<longrightarrow> time_ok k v"
    using s(2,3) vok by (auto simp: shape(1) table_simps)
  let ?d1 = "run_op (AppendLog (time_put_line ?h v)) d"
  let ?d2 = "run_op (AppendLog (v @ [newline])) (run_op (AppendLog (?h @ [newline])) d)"
  have h1: "mtime.holds ?d1 (table obj')"
    unfolding shape(1) by (rule mtime.holds_put[OF s(4) vok])
  have h2: "mtime.holds ?d2 (table obj')"
    by (rule mtime.holds_other_files[OF _ _ h1]) (simp_all only: append_twice time_put_line_def append_assoc)
  have "mtime.holds (run_ops ops d) (table obj')"
  proof (cases "cpp_rem (counter obj + 1) (snapshot_frequency obj) = 0")
    case True
    have ops: "run_ops ops d
        = run_ops (snapshot_ops (\<lambda>(k, v). time_put_line k v) (visit e (table obj'))) ?d2"
      by (simp add: shape(3) True del: run_op.simps)
    note vis = visit_facts[OF e(1) t(1)]
    show ?thesis
      unfolding ops run_snapshot_ops
      by (rule mtime.holds_snapshot[OF _ _ vis(2) mtime_keys[OF t(2,1) e(1)] vis(1)]) simp_all
  next
    case False
    then show ?thesis using h2 by (simp add: shape(3) del: run_op.simps)
  qed
  with t shape(2) show ?thesis
    by (simp add: last_modified_synced_def)
qed

lemma last_modified_erase_synced:
  assumes sync: "last_modified_synced obj d" and er: "last_modified_erase e obj f = (obj', ops)"
  shows "last_modified_synced obj' (run_ops ops d)"
proof (cases "map_of (table obj) (hashpath (digest e) f) = None")
  case True
  then have "obj' = obj" "ops = []"
    using er by (simp_all add: last_modified_erase_def Let_def)
  with sync show ?thesis by simp
next
  case False
  let ?h = "hashpath (digest e) f"
  have s: "log_is_open obj" "table_ok (table obj)" "\<forall>k v. map_of (table obj) k = Some v \<longrightarrow> time_ok k v"
    "mtime.holds d (table obj)"
    using sync by (simp_all add: last_modified_synced_def)
  have ops: "ops = [AppendLog (?h @ [newline]), AppendLog (erased_mark @ [newline])]"
    and obj': "table obj' = AList.delete ?h (table obj)" "log_is_open obj'"
    using er False s(1) by (auto simp: last_modified_erase_def Let_def)
  have h: "mtime.holds (run_op (AppendLog (time_del_line ?h)) d) (table obj')"
    unfolding obj' by (rule mtime.holds_del[OF s(4)]) (use False in \<open>simp_all add: in_table_def\<close>)
  have "mtime.holds (run_ops ops d) (table obj')"
    by (rule mtime.holds_other_files[OF _ _ h])
      (simp_all only: ops run_ops_simps append_twice time_del_line_def time_put_line_def append_assoc)
  with s(2,3) obj' show ?thesis
    by (auto simp: last_modified_synced_def table_simps split: if_splits)
qed

lemma last_modified_reach_synced:
  assumes e: "visits_all e" "writable e"
  shows "last_modified_reach e obj d \<Longrightarrow> last_modified_synced obj d"
proof (induction rule: last_modified_reach.induct)
  case (boot c0 obj d)
  then show ?case by (rule last_modified_boot_synced)
next
  case (set obj d v f obj' ops)
  then show ?case using last_modified_set_synced[OF _ _ _ _ e] by blast
next
  case (erase obj d f obj' ops)
  then show ?case using last_modified_erase_synced by blast
next
  case (restart obj d c0 obj' d')
  then show ?case using last_modified_new_synced by blast
qed

subsection \<open>Unfinished and odd records\<close>

text \<open>A hash without its time: the entry takes the bytes left in the buffer.\<close>

lemma last_modified_read_torn:
  assumes "hash_key k" "length ts = 16"
  shows "last_modified_read ts (k @ [newline]) t =
    Some (if ts = erased_mark \<and> map_of t k \<noteq> None then AList.delete k t else AList.update k ts t)"
proof -
  have "getline (k @ [newline]) = (k, [], False)"
    using assms(1) getline_line[of k "[]"] by simp
  then show ?thesis
    using assms by (subst last_modified_read.simps) (auto simp: Let_def)
qed

text \<open>
  A time of the wrong length: what follows its first seventeen bytes up to the next newline is
  taken for a hash, and the assertion on its length fails.
\<close>

lemma last_modified_read_misframed:
  assumes "hash_key k" "16 < length r" "drop 17 r = w @ newline # s" "newline \<notin> set w" "length w \<noteq> 64"
  shows "last_modified_read ts (k @ newline # r) t = None"
proof -
  have g: "getline (k @ newline # r) = (k, r, False)"
    using assms(1) by simp
  have no: "last_modified_read ts' (w @ newline # s) t' = None" for ts' t'
    using assms(4,5) by (subst last_modified_read.simps) simp
  show ?thesis
    using assms(1-3) by (subst last_modified_read.simps) (simp add: g no Let_def)
qed

lemma last_modified_read_local:
  assumes "hash_key k"
  shows "last_modified_read ts (time_put_line k LOCAL_CREAT_FILE @ s) t = None"
proof -
  have "drop 17 (LOCAL_CREAT_FILE @ newline # s) = ''_file'' @ newline # s"
    by (simp add: LOCAL_CREAT_FILE_def)
  moreover have "16 < length (LOCAL_CREAT_FILE @ newline # s)"
    by (simp add: LOCAL_CREAT_FILE_def)
  ultimately show ?thesis
    using last_modified_read_misframed[OF assms, of "LOCAL_CREAT_FILE @ newline # s" "''_file''" s]
    by (simp add: time_put_line_def)
qed

lemma last_modified_read_torn_then:
  assumes "hash_key k" "hash_key g"
  shows "last_modified_read ts (k @ newline # g @ newline # s) t = None"
  by (rule last_modified_read_misframed[OF assms(1), of _ "drop 17 g" s])
    (use assms(2) in \<open>auto dest: in_set_dropD\<close>)

subsection \<open>Properties\<close>

lemma last_modified_set_table:
  "map_of (table (fst (last_modified_set e obj f v))) = (map_of (table obj))(hashpath (digest e) f \<mapsto> v)"
  by (auto simp: last_modified_set_def last_modified_do_snapshot_def Let_def table_simps split: prod.splits)

lemma last_modified_erase_table:
  "map_of (table (fst (last_modified_erase e obj f))) = (map_of (table obj))(hashpath (digest e) f := None)"
  by (auto simp: last_modified_erase_def Let_def table_simps)

text \<open>
  After \<^verbatim>\<open>set(f, v)\<close>, \<^verbatim>\<open>get\<close> answers \<open>v\<close> for the paths with the hash of \<open>f\<close> and as before for the
  others; after \<^verbatim>\<open>erase(f)\<close> the entry of \<open>f\<close> is gone (\<^verbatim>\<open>count\<close> is 0) and the others are as before.
\<close>

lemma last_modified_get_after:
  "last_modified_get e (fst (last_modified_set e obj f v)) g =
     (if hashpath (digest e) g = hashpath (digest e) f then v else last_modified_get e obj g)
   \<and> last_modified_count e (fst (last_modified_erase e obj f)) g =
     (if hashpath (digest e) g = hashpath (digest e) f then 0 else last_modified_count e obj g)"
  by (simp add: last_modified_get_def last_modified_count_def last_modified_set_table
      last_modified_erase_table Let_def)

text \<open>
  C20: as long as only sixteen-byte times (other than sixteen bytes 255) were stored, the
  constructor run on the files succeeds and reads back the table the object holds, at any moment of
  any history of sets, erasures and restarts between operations.
\<close>

theorem last_modified_restart_reads_table:
  assumes "visits_all e" "writable e" "last_modified_reach e obj d"
  shows "\<exists>t. load_files (last_modified_read fresh_ts) d = Some t \<and> map_of t = map_of (table obj)"
  using last_modified_reach_synced[OF assms] mtime_load unfolding last_modified_synced_def by blast

text \<open>
  Storing the marker of a locally created file ends the client at its next start: the marker
  is six bytes longer than a time, the reader takes its tail for the next hash and the assertion on
  the hash's length fails.  This is so whether the entry is in the log or in a snapshot.
\<close>

lemma last_modified_local_marker_aborts:
  assumes "visits_all e" "writable e" "last_modified_reach e obj d"
    and set: "last_modified_set e obj f LOCAL_CREAT_FILE = (obj', ops)"
  shows "last_modified_new True c0 (run_ops ops d) = None"
proof -
  let ?h = "hashpath (digest e) f"
  have s: "log_is_open obj" "table_ok (table obj)" "\<forall>k v. map_of (table obj) k = Some v \<longrightarrow> time_ok k v"
    "mtime.holds d (table obj)"
    using last_modified_reach_synced[OF assms(1-3)] by (simp_all add: last_modified_synced_def)
  have "map_of (table obj) ?h \<noteq> Some LOCAL_CREAT_FILE"
    using s(3) by (fastforce simp: time_ok_def)
  note shape = last_modified_set_shape[OF set assms(2) s(1) this]
  let ?d2 = "run_op (AppendLog (LOCAL_CREAT_FILE @ [newline])) (run_op (AppendLog (?h @ [newline])) d)"
  have "load_files (last_modified_read fresh_ts) (run_ops ops d) = None"
  proof (cases "cpp_rem (counter obj + 1) (snapshot_frequency obj) = 0")
    case True
    let ?es = "visit e (table obj')"
    have ok': "table_ok (table obj')"
      using s(2) by (simp add: shape(1))
    note vis = visit_facts[OF assms(1) ok']
    have "map_of (table obj') ?h = Some LOCAL_CREAT_FILE"
      by (simp add: shape(1) table_simps)
    then have "(?h, LOCAL_CREAT_FILE) \<in> set ?es"
      unfolding vis(3) by (rule map_of_SomeD)
    then obtain pre post where es: "?es = pre @ (?h, LOCAL_CREAT_FILE) # post"
      by (metis split_list)
    have "\<forall>(k, v) \<in> set pre. time_ok k v"
    proof clarify
      fix k v
      assume kv: "(k, v) \<in> set pre"
      then have "k \<noteq> ?h"
        using vis(2) by (force simp: es)
      moreover have "map_of (table obj') k = Some v"
        using kv vis by (simp add: es flip: vis(1))
      ultimately show "time_ok k v"
        using s(3) by (simp add: shape(1) table_simps)
    qed
    then have "mtime.valid_from [] (map (\<lambda>(k, v). Put k v) pre)"
      by (rule mtime.valid_from_puts)
    then obtain c where "last_modified_read (fit16 []) (enc_table time_put_line pre
          @ time_put_line ?h LOCAL_CREAT_FILE @ enc_table time_put_line post) []
        = last_modified_read (fit16 c) (time_put_line ?h LOCAL_CREAT_FILE @ enc_table time_put_line post)
            (replay (map (\<lambda>(k, v). Put k v) pre) [])"
      using mtime.load_recs_then unfolding mtime.enc_table_recs by blast
    then have "last_modified_read fresh_ts (enc_table time_put_line ?es) [] = None"
      by (simp add: es fresh_ts_fit16 last_modified_read_local)
    moreover have "snapshot_file (run_ops ops d) = Some (enc_table time_put_line ?es)"
      by (simp add: shape(3) True run_snapshot_ops[simplified])
    ultimately show ?thesis
      by (simp add: load_files_def)
  next
    case False
    have files: "load_files (last_modified_read fresh_ts) (run_ops ops d)
        = load_files (last_modified_read fresh_ts)
            (run_op (AppendLog (time_put_line ?h LOCAL_CREAT_FILE)) d)"
      by (simp add: shape(3) False load_files_def time_put_line_def option.map_comp comp_def)
    obtain t' c where "load_files (last_modified_read fresh_ts)
        (run_op (AppendLog (time_put_line ?h LOCAL_CREAT_FILE)) d)
        = last_modified_read (fit16 c) (time_put_line ?h LOCAL_CREAT_FILE) t'"
      using mtime_load_tail[OF s(4)] by blast
    then show ?thesis
      using last_modified_read_local[of ?h "fit16 c" "[]" t'] unfolding files by simp
  qed
  then show ?thesis
    by (simp add: last_modified_new_def)
qed

text \<open>
  A crash between the two writes of \<^verbatim>\<open>set\<close> can hand one file's time to another.  If \<open>f\<close> was
  just stored with time \<open>v\<close> and the client dies after the hash of \<open>g\<close> reached the log but before its
  time did, the restarted client holds \<open>v\<close> as the time of \<open>g\<close>.
\<close>

lemma last_modified_torn_takes_foreign_time:
  assumes "visits_all e" "writable e" "last_modified_reach e obj d"
    and v: "length v = 16" "v \<noteq> erased_mark"
    and f: "last_modified_set e obj f v = (obj1, ops1)" "last_modified_get e obj f \<noteq> v"
      "cpp_rem (counter obj + 1) (snapshot_frequency obj) \<noteq> 0"
    and g: "last_modified_set e obj1 g w = (obj2, ops2)" "last_modified_get e obj1 g \<noteq> w"
  shows "\<exists>t. load_files (last_modified_read fresh_ts) (run_ops (take 1 ops2) (run_ops ops1 d)) = Some t
    \<and> map_of t (hashpath (digest e) g) = Some v"
proof -
  let ?h = "hashpath (digest e) f" and ?k = "hashpath (digest e) g"
  have s: "log_is_open obj" "mtime.holds d (table obj)"
    using last_modified_reach_synced[OF assms(1-3)] by (simp_all add: last_modified_synced_def)
  have nf: "map_of (table obj) ?h \<noteq> Some v"
    using f(2) by (auto simp: last_modified_get_def)
  note sf = last_modified_set_shape[OF f(1) assms(2) s(1) nf]
  have ng: "map_of (table obj1) ?k \<noteq> Some w"
    using g(2) by (auto simp: last_modified_get_def)
  note sg = last_modified_set_shape[OF g(1) assms(2) sf(2) ng]
  let ?s = "time_put_line ?h v @ ?k @ [newline]"
  have files: "load_files (last_modified_read fresh_ts) (run_ops (take 1 ops2) (run_ops ops1 d))
      = load_files (last_modified_read fresh_ts) (run_op (AppendLog ?s) d)"
    using f(3) by (simp add: sf(3) sg(3) load_files_def time_put_line_def option.map_comp comp_def)
  obtain t' c where "load_files (last_modified_read fresh_ts) (run_op (AppendLog ?s) d)
      = last_modified_read (fit16 c) ?s t'"
    using mtime_load_tail[OF s(2)] by blast
  also have "\<dots> = last_modified_read v (?k @ [newline]) (AList.update ?h v t')"
    using v by (subst last_modified_read_record) simp_all
  also have "\<dots> = Some (AList.update ?k v (AList.update ?h v t'))"
    using v by (subst last_modified_read_torn) simp_all
  finally show ?thesis
    unfolding files by (simp add: table_simps)
qed

text \<open>
  Such a half-written entry is not survived twice.  The restarted client appends its next
  record behind the dangling hash, and the start after that fails its assertion.
\<close>

lemma last_modified_torn_then_set_aborts:
  assumes "visits_all e" "writable e" "last_modified_reach e obj d" "hash_key k"
    and boot: "last_modified_new True c0 (run_op (AppendLog (k @ [newline])) d) = Some (obj1, d1)"
    and set: "last_modified_set e obj1 g w = (obj2, ops)" "last_modified_get e obj1 g \<noteq> w"
      "cpp_rem (counter obj1 + 1) (snapshot_frequency obj1) \<noteq> 0"
  shows "last_modified_new True c1 (run_ops ops d1) = None"
proof -
  let ?h = "hashpath (digest e) g"
  have s: "mtime.holds d (table obj)"
    using last_modified_reach_synced[OF assms(1-3)] by (simp add: last_modified_synced_def)
  have log: "log_file d \<noteq> None"
    by (rule mtime.holds_log[OF s])
  have d1: "d1 = run_op (AppendLog (k @ [newline])) d" and o1: "log_is_open obj1"
    using boot log by (auto simp: last_modified_new_def split: option.splits)
  have ng: "map_of (table obj1) ?h \<noteq> Some w"
    using set(2) by (auto simp: last_modified_get_def)
  note shape = last_modified_set_shape[OF set(1) assms(2) o1 ng]
  let ?s = "k @ newline # ?h @ newline # w @ [newline]"
  have files: "load_files (last_modified_read fresh_ts) (run_ops ops d1)
      = load_files (last_modified_read fresh_ts) (run_op (AppendLog ?s) d)"
    using set(3) by (simp add: shape(3) d1 load_files_def option.map_comp comp_def)
  obtain t' c where "load_files (last_modified_read fresh_ts) (run_op (AppendLog ?s) d)
      = last_modified_read (fit16 c) ?s t'"
    using mtime_load_tail[OF s] by blast
  then have "load_files (last_modified_read fresh_ts) (run_ops ops d1) = None"
    unfolding files using assms(4) last_modified_read_torn_then[of k ?h] by simp
  then show ?thesis
    by (simp add: last_modified_new_def)
qed

subsection \<open>Witnesses\<close>

definition sample_time_env :: "string store_env" where
  "sample_time_env = \<lparr>digest = (\<lambda>s. take 32 (s @ replicate 32 (CHR 0x00))), visit = rev, writable = True\<rparr>"

definition sample_time_obj :: "int \<Rightarrow> string table_obj" where
  "sample_time_obj c = \<lparr>table = [], log_is_open = True, counter = c, snapshot_frequency = 10\<rparr>"

lemma sample_time_env: "visits_all sample_time_env" "writable sample_time_env"
  by (simp_all add: visits_all_def sample_time_env_def)

lemma sample_time_reach: "last_modified_reach e (sample_time_obj c) sample_disk"
  by (rule last_modified_reach.boot[of c])
    (simp add: last_modified_new_def load_files_def no_files_def sample_time_obj_def sample_disk_def)

definition sample_time :: byte_string where
  "sample_time = timespec_bytes \<lparr>tv_sec = 1645000000, tv_nsec = 10\<rparr>"

lemma sample_time: "length sample_time = 16" "sample_time \<noteq> erased_mark"
proof -
  show "length sample_time = 16" by (simp add: sample_time_def)
  show "sample_time \<noteq> erased_mark"
    unfolding sample_time_def erased_mark_def by (rule timespec_bytes_not_ff) (simp add: valid_timespec_def)
qed

theorem last_modified_restart_witness:
  "\<exists>t. load_files (last_modified_read fresh_ts)
         (run_ops (snd (last_modified_set sample_time_env (sample_time_obj 9) ''/f'' sample_time)) sample_disk) = Some t
     \<and> map_of t = map_of (table (fst (last_modified_set sample_time_env (sample_time_obj 9) ''/f'' sample_time)))"
  by (rule last_modified_restart_reads_table[OF sample_time_env
        last_modified_reach.set[OF sample_time_reach sample_time surjective_pairing]])

end
