(* ===== verification/Posix.thy ===== *)
theory Posix
  imports Afs_Prelude
begin

unbundle bit_operations_syntax

section \<open>The file system calls the programs make\<close>

text \<open>
  A model of the part of the C library and of POSIX that client and server use: pathname
  resolution with \<^verbatim>\<open>.\<close> and \<^verbatim>\<open>..\<close>, \<^verbatim>\<open>stat\<close>, \<^verbatim>\<open>open\<close> with its flags, reading, writing and truncating
  an open file, \<^verbatim>\<open>unlink\<close>, \<^verbatim>\<open>mkdir\<close>, \<^verbatim>\<open>rmdir\<close>, \<^verbatim>\<open>rename\<close> of a regular file and \<^verbatim>\<open>readdir\<close>.  Names refer
  to inodes, so an open file survives the removal of its name and a renamed file keeps its
  modification time.  A failed call gives its \<^verbatim>\<open>errno\<close>.

  Left out: permissions (the processes own their files), links, the times of directories, and
  errors of a full or broken disk.  What a call does to the names is summarised by \<open>view\<close>, the
  abstract file system, with one lemma per call.
\<close>

subsection \<open>Error numbers\<close>

abbreviation ENOENT :: int where "ENOENT \<equiv> 2"
abbreviation EIO :: int where "EIO \<equiv> 5"
abbreviation EBADF :: int where "EBADF \<equiv> 9"
abbreviation ENOMEM :: int where "ENOMEM \<equiv> 12"
abbreviation EEXIST :: int where "EEXIST \<equiv> 17"
abbreviation ENOTDIR :: int where "ENOTDIR \<equiv> 20"
abbreviation EISDIR :: int where "EISDIR \<equiv> 21"
abbreviation EINVAL :: int where "EINVAL \<equiv> 22"
abbreviation ENOTEMPTY :: int where "ENOTEMPTY \<equiv> 39"

type_synonym 'a sysres = "int + 'a"

subsection \<open>struct stat, inodes and the file system\<close>

record stat_buf =
  st_dev :: "64 word"
  st_ino :: "64 word"
  st_mode :: "32 word"
  st_nlink :: "64 word"
  st_uid :: "32 word"
  st_gid :: "32 word"
  st_rdev :: "64 word"
  st_size :: "64 word"
  st_blksize :: "64 word"
  st_blocks :: "64 word"
  st_atim :: timespec
  st_mtim :: timespec
  st_ctim :: timespec

text \<open>
  \<open>i_stat\<close> holds what \<^verbatim>\<open>stat\<close> reports beside the inode number, the type and the size, which follow
  from the other fields.
\<close>

record inode =
  i_isdir :: bool
  i_data :: byte_string
  i_stat :: stat_buf

record open_file =
  of_ino :: nat
  of_read :: bool
  of_write :: bool
  of_append :: bool

text \<open>
  \<open>fs_now\<close> is the time the kernel stamps on files, moved by the environment only; \<open>fs_template\<close>
  the attributes it gives a new inode.
\<close>

record fs =
  fs_names :: "(string list \<times> nat) list"
  fs_inodes :: "nat \<Rightarrow> inode"
  fs_next :: nat
  fs_now :: timespec
  fs_template :: stat_buf
  fs_fds :: "int \<Rightarrow> open_file option"
  fs_next_fd :: int

subsection \<open>Pathname resolution\<close>

fun split_slash :: "string \<Rightarrow> string list" where
  "split_slash [] = [[]]"
| "split_slash (c # cs) =
     (if c = CHR ''/'' then [] # split_slash cs
      else (case split_slash cs of [] \<Rightarrow> [[c]] | w # ws \<Rightarrow> (c # w) # ws))"

definition path_comps :: "string \<Rightarrow> string list" where
  "path_comps p = filter (\<lambda>w. w \<noteq> []) (split_slash p)"

definition node :: "fs \<Rightarrow> string list \<Rightarrow> nat option" where
  "node s cp = map_of (fs_names s) cp"

definition is_dir :: "fs \<Rightarrow> string list \<Rightarrow> bool" where
  "is_dir s cp = (case node s cp of None \<Rightarrow> False | Some i \<Rightarrow> i_isdir (fs_inodes s i))"

text \<open>
  Every component but the last must be a directory; the result is the resolved path.  The empty
  path names nothing.
\<close>

fun walk :: "fs \<Rightarrow> string list \<Rightarrow> string list \<Rightarrow> string list sysres" where
  "walk s cur [] = Inr cur"
| "walk s cur (c # cs) =
     (if \<not> is_dir s cur then Inl (if node s cur = None then ENOENT else ENOTDIR)
      else walk s (if c = ''.'' then cur else if c = ''..'' then butlast cur else cur @ [c]) cs)"

definition resolve :: "fs \<Rightarrow> string \<Rightarrow> string list sysres" where
  "resolve s p = (if p = [] then Inl ENOENT else walk s [] (path_comps p))"

subsection \<open>Calls\<close>

definition S_IFDIR :: "32 word" where "S_IFDIR = 0x4000"
definition S_IFREG :: "32 word" where "S_IFREG = 0x8000"

definition stat_of :: "fs \<Rightarrow> nat \<Rightarrow> stat_buf" where
  "stat_of s i =
     (let n = fs_inodes s i
      in (i_stat n)\<lparr>st_ino := word_of_nat i, st_size := word_of_nat (length (i_data n))\<rparr>)"

definition sys_stat :: "fs \<Rightarrow> string \<Rightarrow> stat_buf sysres" where
  "sys_stat s p =
     (case resolve s p of Inl e \<Rightarrow> Inl e
      | Inr cp \<Rightarrow> (case node s cp of None \<Rightarrow> Inl ENOENT | Some i \<Rightarrow> Inr (stat_of s i)))"

text \<open>Storing bytes in an inode stamps it.\<close>

definition set_data :: "fs \<Rightarrow> nat \<Rightarrow> byte_string \<Rightarrow> fs" where
  "set_data s i d =
     s\<lparr>fs_inodes := (fs_inodes s)(i := (fs_inodes s i)\<lparr>i_data := d,
         i_stat := (i_stat (fs_inodes s i))\<lparr>st_mtim := fs_now s, st_ctim := fs_now s\<rparr>\<rparr>)\<rparr>"

definition new_inode :: "fs \<Rightarrow> bool \<Rightarrow> 32 word \<Rightarrow> inode" where
  "new_inode s isdir mode =
     \<lparr>i_isdir = isdir, i_data = [],
      i_stat = (fs_template s)\<lparr>st_mode := (if isdir then S_IFDIR else S_IFREG) OR (mode AND 0xFFF),
        st_atim := fs_now s, st_mtim := fs_now s, st_ctim := fs_now s\<rparr>\<rparr>"

definition create_node :: "fs \<Rightarrow> string list \<Rightarrow> bool \<Rightarrow> 32 word \<Rightarrow> fs" where
  "create_node s cp isdir mode =
     s\<lparr>fs_names := fs_names s @ [(cp, fs_next s)],
       fs_inodes := (fs_inodes s)(fs_next s := new_inode s isdir mode),
       fs_next := Suc (fs_next s)\<rparr>"

record open_flags =
  o_read :: bool
  o_write :: bool
  o_creat :: bool
  o_excl :: bool
  o_trunc :: bool
  o_append :: bool

definition O_RDONLY :: open_flags where
  "O_RDONLY = \<lparr>o_read = True, o_write = False, o_creat = False, o_excl = False, o_trunc = False, o_append = False\<rparr>"

definition O_WRONLY :: open_flags where
  "O_WRONLY = O_RDONLY\<lparr>o_read := False, o_write := True\<rparr>"

definition O_RDWR :: open_flags where
  "O_RDWR = O_RDONLY\<lparr>o_write := True\<rparr>"

text \<open>Finding or making the inode that \<^verbatim>\<open>open\<close> opens.\<close>

definition open_node :: "fs \<Rightarrow> string \<Rightarrow> open_flags \<Rightarrow> 32 word \<Rightarrow> fs \<times> nat sysres" where
  "open_node s p fl mode =
     (case resolve s p of
        Inl e \<Rightarrow> (s, Inl e)
      | Inr cp \<Rightarrow>
          (case node s cp of
             None \<Rightarrow> if o_creat fl then (create_node s cp False mode, Inr (fs_next s)) else (s, Inl ENOENT)
           | Some i \<Rightarrow>
               if o_creat fl \<and> o_excl fl then (s, Inl EEXIST)
               else if i_isdir (fs_inodes s i) \<and> (o_write fl \<or> o_creat fl) then (s, Inl EISDIR)
               else if o_trunc fl \<and> \<not> i_isdir (fs_inodes s i) then (set_data s i [], Inr i)
               else (s, Inr i)))"

text \<open>\<^verbatim>\<open>open\<close> gives a descriptor, or \<open>-1\<close> with \<^verbatim>\<open>errno\<close>.\<close>

definition sys_open :: "fs \<Rightarrow> string \<Rightarrow> open_flags \<Rightarrow> 32 word \<Rightarrow> fs \<times> int sysres" where
  "sys_open s p fl mode =
     (case open_node s p fl mode of
        (s', Inl e) \<Rightarrow> (s', Inl e)
      | (s', Inr i) \<Rightarrow>
          (s'\<lparr>fs_fds := (fs_fds s')(fs_next_fd s' \<mapsto>
                \<lparr>of_ino = i, of_read = o_read fl, of_write = o_write fl, of_append = o_append fl\<rparr>),
              fs_next_fd := fs_next_fd s' + 1\<rparr>,
           Inr (fs_next_fd s')))"

definition sys_close :: "fs \<Rightarrow> int \<Rightarrow> fs \<times> unit sysres" where
  "sys_close s fd =
     (if fs_fds s fd = None then (s, Inl EBADF) else (s\<lparr>fs_fds := (fs_fds s)(fd := None)\<rparr>, Inr ()))"

definition sys_fsync :: "fs \<Rightarrow> int \<Rightarrow> unit sysres" where
  "sys_fsync s fd = (if fs_fds s fd = None then Inl EBADF else Inr ())"

definition sys_pread :: "fs \<Rightarrow> int \<Rightarrow> nat \<Rightarrow> int \<Rightarrow> byte_string sysres" where
  "sys_pread s fd n off =
     (case fs_fds s fd of
        None \<Rightarrow> Inl EBADF
      | Some f \<Rightarrow>
          if \<not> of_read f then Inl EBADF
          else if off < 0 then Inl EINVAL
          else if i_isdir (fs_inodes s (of_ino f)) then Inl EISDIR
          else Inr (take n (drop (nat off) (i_data (fs_inodes s (of_ino f))))))"

text \<open>Bytes stored at an offset; a gap behind the end is filled with NULs.\<close>

definition put_bytes :: "byte_string \<Rightarrow> nat \<Rightarrow> byte_string \<Rightarrow> byte_string" where
  "put_bytes d off buf =
     (if buf = [] then d
      else take off d @ replicate (off - length d) (CHR 0x00) @ buf @ drop (off + length buf) d)"

definition sys_pwrite :: "fs \<Rightarrow> int \<Rightarrow> byte_string \<Rightarrow> int \<Rightarrow> fs \<times> nat sysres" where
  "sys_pwrite s fd buf off =
     (case fs_fds s fd of
        None \<Rightarrow> (s, Inl EBADF)
      | Some f \<Rightarrow>
          if \<not> of_write f then (s, Inl EBADF)
          else if off < 0 then (s, Inl EINVAL)
          else if buf = [] then (s, Inr 0)
          else
            let d = i_data (fs_inodes s (of_ino f));
                at = (if of_append f then length d else nat off)
            in (set_data s (of_ino f) (put_bytes d at buf), Inr (length buf)))"

definition resize :: "byte_string \<Rightarrow> nat \<Rightarrow> byte_string" where
  "resize d n = take n d @ replicate (n - length d) (CHR 0x00)"

definition sys_ftruncate :: "fs \<Rightarrow> int \<Rightarrow> int \<Rightarrow> fs \<times> unit sysres" where
  "sys_ftruncate s fd n =
     (case fs_fds s fd of
        None \<Rightarrow> (s, Inl EBADF)
      | Some f \<Rightarrow>
          if \<not> of_write f \<or> n < 0 then (s, Inl EINVAL)
          else (set_data s (of_ino f) (resize (i_data (fs_inodes s (of_ino f))) (nat n)), Inr ()))"

definition sys_truncate :: "fs \<Rightarrow> string \<Rightarrow> int \<Rightarrow> fs \<times> unit sysres" where
  "sys_truncate s p n =
     (if n < 0 then (s, Inl EINVAL)
      else case resolve s p of
        Inl e \<Rightarrow> (s, Inl e)
      | Inr cp \<Rightarrow>
          (case node s cp of
             None \<Rightarrow> (s, Inl ENOENT)
           | Some i \<Rightarrow>
               if i_isdir (fs_inodes s i) then (s, Inl EISDIR)
               else (set_data s i (resize (i_data (fs_inodes s i)) (nat n)), Inr ())))"

definition sys_unlink :: "fs \<Rightarrow> string \<Rightarrow> fs \<times> unit sysres" where
  "sys_unlink s p =
     (case resolve s p of
        Inl e \<Rightarrow> (s, Inl e)
      | Inr cp \<Rightarrow>
          (case node s cp of
             None \<Rightarrow> (s, Inl ENOENT)
           | Some i \<Rightarrow>
               if i_isdir (fs_inodes s i) then (s, Inl EISDIR)
               else (s\<lparr>fs_names := AList.delete cp (fs_names s)\<rparr>, Inr ())))"

definition sys_mkdir :: "fs \<Rightarrow> string \<Rightarrow> 32 word \<Rightarrow> fs \<times> unit sysres" where
  "sys_mkdir s p mode =
     (case resolve s p of
        Inl e \<Rightarrow> (s, Inl e)
      | Inr cp \<Rightarrow>
          (case node s cp of
             None \<Rightarrow> (create_node s cp True mode, Inr ())
           | Some i \<Rightarrow> (s, Inl EEXIST)))"

definition entries :: "fs \<Rightarrow> string list \<Rightarrow> string list" where
  "entries s cp = map last (filter (\<lambda>q. q \<noteq> [] \<and> butlast q = cp) (map fst (fs_names s)))"

definition sys_rmdir :: "fs \<Rightarrow> string \<Rightarrow> fs \<times> unit sysres" where
  "sys_rmdir s p =
     (case resolve s p of
        Inl e \<Rightarrow> (s, Inl e)
      | Inr cp \<Rightarrow>
          (case node s cp of
             None \<Rightarrow> (s, Inl ENOENT)
           | Some i \<Rightarrow>
               if \<not> i_isdir (fs_inodes s i) then (s, Inl ENOTDIR)
               else if cp = [] \<or> entries s cp \<noteq> [] then (s, Inl ENOTEMPTY)
               else (s\<lparr>fs_names := AList.delete cp (fs_names s)\<rparr>, Inr ())))"

text \<open>
  \<^verbatim>\<open>rename\<close>, for the regular files the programs rename: the new name takes the inode over, and
  what it named before loses it.  (A directory is refused; none is ever renamed here.)
\<close>

definition sys_rename :: "fs \<Rightarrow> string \<Rightarrow> string \<Rightarrow> fs \<times> unit sysres" where
  "sys_rename s old new =
     (case resolve s old of
        Inl e \<Rightarrow> (s, Inl e)
      | Inr co \<Rightarrow>
          (case node s co of
             None \<Rightarrow> (s, Inl ENOENT)
           | Some i \<Rightarrow>
               if i_isdir (fs_inodes s i) then (s, Inl EINVAL)
               else (case resolve s new of
                  Inl e \<Rightarrow> (s, Inl e)
                | Inr cn \<Rightarrow>
                    if is_dir s cn then (s, Inl EISDIR)
                    else if cn = co then (s, Inr ())
                    else (s\<lparr>fs_names := AList.update cn i (AList.delete co (fs_names s)),
                            fs_inodes := (fs_inodes s)(i := (fs_inodes s i)
                              \<lparr>i_stat := (i_stat (fs_inodes s i))\<lparr>st_ctim := fs_now s\<rparr>\<rparr>)\<rparr>, Inr ()))))"

text \<open>\<^verbatim>\<open>opendir\<close> and the names \<^verbatim>\<open>readdir\<close> returns; \<open>None\<close> is the NULL of a failed \<^verbatim>\<open>opendir\<close>.\<close>

definition read_dir :: "fs \<Rightarrow> string \<Rightarrow> string list option" where
  "read_dir s p =
     (case resolve s p of
        Inl e \<Rightarrow> None
      | Inr cp \<Rightarrow> if is_dir s cp then Some (''.'' # ''..'' # entries s cp) else None)"

subsection \<open>C++ file streams\<close>

text \<open>
  \<^verbatim>\<open>std::ifstream(path)\<close>: \<open>None\<close> when it is not open; a directory opens, but reading it fails, which
  is \<open>Some None\<close>.
\<close>

definition ifstream_read :: "fs \<Rightarrow> string \<Rightarrow> byte_string option option" where
  "ifstream_read s p =
     (case open_node s p O_RDONLY 0 of
        (_, Inl e) \<Rightarrow> None
      | (_, Inr i) \<Rightarrow> Some (if i_isdir (fs_inodes s i) then None else Some (i_data (fs_inodes s i))))"

text \<open>\<^verbatim>\<open>std::ofstream(path, out | trunc)\<close>\<close>

definition ofstream_open :: "fs \<Rightarrow> string \<Rightarrow> fs \<times> nat sysres" where
  "ofstream_open s p = open_node s p (O_WRONLY\<lparr>o_creat := True, o_trunc := True\<rparr>) 0x1B6"

text \<open>What a stream opened truncated has stored at its inode when it is closed.\<close>

definition stream_write :: "fs \<Rightarrow> nat \<Rightarrow> byte_string \<Rightarrow> fs" where
  "stream_write s i d = (if d = [] then s else set_data s i d)"

text \<open>One piece stored behind what the stream has stored before.\<close>

definition store_more :: "fs \<Rightarrow> nat \<Rightarrow> byte_string \<Rightarrow> fs" where
  "store_more s i b = (if b = [] then s else set_data s i (i_data (fs_inodes s i) @ b))"

text \<open>The same at the stream's own position, whatever others have done to the file since.\<close>

definition store_at :: "fs \<Rightarrow> nat \<Rightarrow> nat \<Rightarrow> byte_string \<Rightarrow> fs" where
  "store_at s i pos b = (if b = [] then s else set_data s i (put_bytes (i_data (fs_inodes s i)) pos b))"

end
