(* ===== verification/Proto.thy ===== *)
theory Proto
  imports Posix
begin

section \<open>Messages of the protocol and the chunked streams\<close>

text \<open>
  The messages of \<^verbatim>\<open>protos/afs.proto\<close> as records with the default values proto3 gives absent
  fields, and the loop by which server and client both send a file: \<^verbatim>\<open>BUFSIZE\<close> bytes at a time, the
  rest in a last, possibly empty message.  The transport (gRPC) is not part of the repository; what
  it does is a parameter wherever it matters.  \<open>acc i\<close> says whether the \<open>i\<close>-th \<^verbatim>\<open>Write\<close> on a stream
  returned true.
\<close>

datatype status = OK | CANCELLED | NOT_FOUND | UNAVAILABLE

record Meta =
  meta_file_exists :: bool
  meta_timestamp :: byte_string

definition default_Meta :: Meta where
  "default_Meta = \<lparr>meta_file_exists = False, meta_timestamp = []\<rparr>"

record FilepathContent =
  fc_filepath :: string
  fc_b :: byte_string

definition default_FilepathContent :: FilepathContent where
  "default_FilepathContent = \<lparr>fc_filepath = [], fc_b = []\<rparr>"

record MetaContent =
  mc_file_exists :: bool
  mc_timestamp :: byte_string
  mc_b :: byte_string

definition default_MetaContent :: MetaContent where
  "default_MetaContent = \<lparr>mc_file_exists = False, mc_timestamp = [], mc_b = []\<rparr>"

type_synonym LsResult = "string list"

record Response =
  resp_return_code :: "32 word"
  resp_error_number :: "32 word"

definition default_Response :: Response where
  "default_Response = \<lparr>resp_return_code = 0, resp_error_number = 0\<rparr>"

record StatContent =
  sc_return_code :: "32 word"
  sc_error_number :: "32 word"
  sc_st_dev :: "64 word"
  sc_st_ino :: "64 word"
  sc_st_mode :: "64 word"
  sc_st_nlink :: "64 word"
  sc_st_uid :: "64 word"
  sc_st_gid :: "64 word"
  sc_st_rdev :: "64 word"
  sc_st_size :: "64 word"
  sc_st_blksize :: "64 word"
  sc_st_blocks :: "64 word"
  sc_st_atim :: byte_string
  sc_st_mtim :: byte_string
  sc_st_ctim :: byte_string

definition default_StatContent :: StatContent where
  "default_StatContent =
     \<lparr>sc_return_code = 0, sc_error_number = 0, sc_st_dev = 0, sc_st_ino = 0, sc_st_mode = 0,
      sc_st_nlink = 0, sc_st_uid = 0, sc_st_gid = 0, sc_st_rdev = 0, sc_st_size = 0, sc_st_blksize = 0,
      sc_st_blocks = 0, sc_st_atim = [], sc_st_mtim = [], sc_st_ctim = []\<rparr>"

subsection \<open>Sending a file in pieces\<close>

definition BUFSIZE :: nat where
  "BUFSIZE = 65500"

text \<open>
  \<^verbatim>\<open>while (file.read(&buf[0], n)) { ... if (!writer->Write(msg)) break; } if (file.eof()) { ... }\<close>:
  the pieces that were accepted.  A refused piece ends the loop before the end of the file, so
  nothing follows it.
\<close>

function send_chunks :: "nat \<Rightarrow> (nat \<Rightarrow> bool) \<Rightarrow> nat \<Rightarrow> byte_string \<Rightarrow> byte_string list" where
  "send_chunks n acc i s =
     (if n = 0 \<or> length s < n then (if acc i then [s] else [])
      else if acc i then take n s # send_chunks n acc (Suc i) (drop n s) else [])"
  by pat_completeness auto
termination
  by (relation "measure (\<lambda>(n, acc, i, s). length s)") auto

declare send_chunks.simps [simp del]

abbreviation accept_all :: "nat \<Rightarrow> bool" where
  "accept_all \<equiv> \<lambda>_. True"

lemma concat_send_chunks [simp]: "concat (send_chunks n accept_all i s) = s"
proof (induction s arbitrary: i rule: length_induct)
  case (1 s)
  show ?case
  proof (cases "n = 0 \<or> length s < n")
    case True
    then show ?thesis by (subst send_chunks.simps) simp
  next
    case False
    then have "length (drop n s) < length s" by auto
    then have "concat (send_chunks n accept_all (Suc i) (drop n s)) = drop n s"
      using 1 by blast
    with False show ?thesis by (subst send_chunks.simps) simp
  qed
qed

lemma send_chunks_nonempty [simp]: "send_chunks n accept_all i s \<noteq> []"
  by (subst send_chunks.simps) simp

text \<open>Whatever is refused, what was sent is a beginning of the file.\<close>

lemma send_chunks_prefix: "\<exists>k. concat (send_chunks n acc i s) = take k s"
proof (induction n acc i s rule: send_chunks.induct)
  case (1 n acc i s)
  show ?case
  proof (cases "n = 0 \<or> length s < n")
    case True
    then show ?thesis
      by (subst send_chunks.simps) (auto intro: exI[of _ 0] exI[of _ "length s"])
  next
    case False
    show ?thesis
    proof (cases "acc i")
      case True
      then obtain k where "concat (send_chunks n acc (Suc i) (drop n s)) = take k (drop n s)"
        using 1[OF False True] by blast
      then have "concat (send_chunks n acc i s) = take (n + k) s"
        using False True by (subst send_chunks.simps) (simp add: take_add)
      then show ?thesis by blast
    next
      case nacc: False
      then show ?thesis
        using False by (subst send_chunks.simps) (auto intro: exI[of _ 0])
    qed
  qed
qed

lemma send_chunks_size: "0 < n \<Longrightarrow> c \<in> set (send_chunks n acc i s) \<Longrightarrow> length c \<le> n"
proof (induction n acc i s rule: send_chunks.induct)
  case (1 n acc i s)
  then show ?case by (subst (asm) send_chunks.simps) (auto split: if_splits)
qed

lemma send_chunks_small:
  "length s < n \<Longrightarrow> acc i \<Longrightarrow> send_chunks n acc i s = [s]"
  by (subst send_chunks.simps) simp

text \<open>The pieces in closed form: the \<open>k\<close>-th starts at byte \<open>k * n\<close>, and the last one ends the file.\<close>

definition piece :: "nat \<Rightarrow> byte_string \<Rightarrow> nat \<Rightarrow> byte_string" where
  "piece n s k = take n (drop (k * n) s)"

lemma piece_Suc: "piece n s (Suc k) = piece n (drop n s) k"
  by (simp add: piece_def add.commute)

lemma send_chunks_pieces:
  assumes "0 < n"
  shows "send_chunks n acc i s = map (piece n s) (takeWhile (\<lambda>k. acc (i + k)) [0..<Suc (length s div n)])"
  using assms
proof (induction n acc i s rule: send_chunks.induct)
  case (1 n acc i s)
  show ?case
  proof (cases "length s < n")
    case True
    then show ?thesis
      by (subst send_chunks.simps) (simp add: piece_def)
  next
    case False
    then have len: "length s div n = Suc (length (drop n s) div n)"
      using "1.prems" by (simp add: le_div_geq)
    have "[0..<Suc (length s div n)] = 0 # map Suc [0..<Suc (length (drop n s) div n)]"
      unfolding len map_Suc_upt by (subst upt_conv_Cons) simp_all
    then have "map (piece n s) (takeWhile (\<lambda>k. acc (i + k)) [0..<Suc (length s div n)])
        = (if acc i then take n s # map (piece n (drop n s))
            (takeWhile (\<lambda>k. acc (Suc i + k)) [0..<Suc (length (drop n s) div n)]) else [])"
      by (simp only: takeWhile.simps takeWhile_map list.map map_map comp_def piece_Suc)
        (simp add: piece_def add.commute)
    then show ?thesis
      using False "1.prems" "1.IH" by (subst send_chunks.simps) simp
  qed
qed

text \<open>
  The sending loop computes the obvious division of the file: with \<open>L\<close> bytes there are
  \<open>L div BUFSIZE + 1\<close> pieces, the \<open>k\<close>-th the bytes from \<open>k * BUFSIZE\<close> on, and those before the first
  refused one are sent.
\<close>

lemma chunks_are_pieces:
  "send_chunks BUFSIZE acc i s =
     map (\<lambda>k. take BUFSIZE (drop (k * BUFSIZE) s)) (takeWhile (\<lambda>k. acc (i + k)) [0..<length s div BUFSIZE + 1])"
  using send_chunks_pieces[of BUFSIZE acc i s] by (simp add: BUFSIZE_def piece_def[abs_def])

end
