(* ===== verification/Client.thy ===== *)
theory Client
  imports Last_Modified Proto
begin

section \<open>The client's file operations\<close>

text \<open>
  The FUSE callbacks \<^verbatim>\<open>afs_*\<close> of \<^verbatim>\<open>afs_client.cc\<close>, one definition each.  The client's state is its
  two tables with their files, and the file system holding its cache; the server is reached through
  the generated stub, which is a record of functions over an unspecified world.  A callback
  returns, ends the process (a failed \<^verbatim>\<open>assert\<close> or \<^verbatim>\<open>exit\<close>), waits forever, or runs into undefined
  behaviour.
\<close>

subsection \<open>The stub\<close>

text \<open>
  A call returns, or never does (\<open>None\<close>).  The statuses the client does not look at are left
  out.  \<open>rpc_accepts w i\<close> is what the \<open>i\<close>-th \<^verbatim>\<open>writer->Write\<close> of an upload returns; \<open>rpc_Write\<close> is the
  upload of the accepted messages up to \<^verbatim>\<open>Finish\<close>, \<open>rpc_Write_killed\<close> one whose client died after
  them.
\<close>

record 'w stub =
  rpc_Stat :: "'w \<Rightarrow> string \<Rightarrow> (StatContent \<times> 'w) option"
  rpc_GetContent :: "'w \<Rightarrow> string \<Rightarrow> (MetaContent list \<times> status \<times> 'w) option"
  rpc_Ls :: "'w \<Rightarrow> string \<Rightarrow> (LsResult \<times> 'w) option"
  rpc_accepts :: "'w \<Rightarrow> nat \<Rightarrow> bool"
  rpc_Write :: "'w \<Rightarrow> FilepathContent list \<Rightarrow> (status \<times> Meta \<times> 'w) option"
  rpc_Write_killed :: "'w \<Rightarrow> FilepathContent list \<Rightarrow> 'w"
  rpc_Unlink :: "'w \<Rightarrow> string \<Rightarrow> (Response \<times> 'w) option"
  rpc_Mkdir :: "'w \<Rightarrow> string \<Rightarrow> (Response \<times> 'w) option"
  rpc_Rmdir :: "'w \<Rightarrow> string \<Rightarrow> (Response \<times> 'w) option"

subsection \<open>The state\<close>

text \<open>
  \<open>client_env\<close> is what stays fixed: the digest, the iteration orders of the two maps, whether files
  of the cache directory can be opened for writing, and the macro \<^verbatim>\<open>FAILURE_POINT\<close>, which is 3 in the
  source; 1 and 2 compile in the deaths during and after an upload.
\<close>

record client_env =
  sha256 :: "byte_string \<Rightarrow> byte_string"
  dirty_visit :: "bool table \<Rightarrow> bool table"
  time_visit :: "string table \<Rightarrow> string table"
  can_write :: bool
  failure_point :: nat

definition dirty_env :: "client_env \<Rightarrow> bool store_env" where
  "dirty_env e = \<lparr>digest = sha256 e, visit = dirty_visit e, writable = can_write e\<rparr>"

definition time_env :: "client_env \<Rightarrow> string store_env" where
  "time_env e = \<lparr>digest = sha256 e, visit = time_visit e, writable = can_write e\<rparr>"

text \<open>\<^verbatim>\<open>afs_data_t\<close>, with the files of its tables and the file system of the cache.\<close>

record client =
  cache_root :: string
  last_modified :: "string table_obj"
  is_dirty :: "bool table_obj"
  last_modified_files :: table_disk
  is_dirty_files :: table_disk
  cfs :: fs

record fuse_file_info =
  flags :: open_flags
  fh :: "64 word"

datatype ('a, 'w) outcome =
    Ret 'a client 'w
  | Died client 'w
  | Hang
  | Undef

subsection \<open>The members as the callbacks use them\<close>

definition cache_file :: "client_env \<Rightarrow> client \<Rightarrow> string \<Rightarrow> string" where
  "cache_file e c path = cachepath (sha256 e) (cache_root c) path"

definition dirty_get :: "client_env \<Rightarrow> client \<Rightarrow> string \<Rightarrow> bool" where
  "dirty_get e c path = is_dirty_get (dirty_env e) (is_dirty c) path"

definition dirty_set :: "client_env \<Rightarrow> client \<Rightarrow> string \<Rightarrow> bool \<Rightarrow> client" where
  "dirty_set e c path state =
     (case is_dirty_set (dirty_env e) (is_dirty c) path state of (obj, ops) \<Rightarrow>
        c\<lparr>is_dirty := obj, is_dirty_files := run_ops ops (is_dirty_files c)\<rparr>)"

definition dirty_erase :: "client_env \<Rightarrow> client \<Rightarrow> string \<Rightarrow> client" where
  "dirty_erase e c path =
     (case is_dirty_erase (dirty_env e) (is_dirty c) path of (obj, ops) \<Rightarrow>
        c\<lparr>is_dirty := obj, is_dirty_files := run_ops ops (is_dirty_files c)\<rparr>)"

definition time_count :: "client_env \<Rightarrow> client \<Rightarrow> string \<Rightarrow> nat" where
  "time_count e c path = last_modified_count (time_env e) (last_modified c) path"

definition time_get :: "client_env \<Rightarrow> client \<Rightarrow> string \<Rightarrow> string" where
  "time_get e c path = last_modified_get (time_env e) (last_modified c) path"

definition time_set :: "client_env \<Rightarrow> client \<Rightarrow> string \<Rightarrow> string \<Rightarrow> client" where
  "time_set e c path state =
     (case last_modified_set (time_env e) (last_modified c) path state of (obj, ops) \<Rightarrow>
        c\<lparr>last_modified := obj, last_modified_files := run_ops ops (last_modified_files c)\<rparr>)"

definition time_erase :: "client_env \<Rightarrow> client \<Rightarrow> string \<Rightarrow> client" where
  "time_erase e c path =
     (case last_modified_erase (time_env e) (last_modified c) path of (obj, ops) \<Rightarrow>
        c\<lparr>last_modified := obj, last_modified_files := run_ops ops (last_modified_files c)\<rparr>)"

text \<open>
  A descriptor goes through \<^verbatim>\<open>uint64_t fh\<close>: storing \<^verbatim>\<open>open\<close>'s result extends its sign, using it as an
  \<^verbatim>\<open>int\<close> cuts it to 32 bits.
\<close>

definition fh_of :: "int sysres \<Rightarrow> 64 word" where
  "fh_of r = (case r of Inl e \<Rightarrow> -1 | Inr fd \<Rightarrow> word_of_int fd)"

definition fd_of :: "fuse_file_info \<Rightarrow> int" where
  "fd_of fi = sint (ucast (fh fi) :: 32 word)"

definition errno_of :: "'a sysres \<Rightarrow> int" where
  "errno_of r = (case r of Inl e \<Rightarrow> e | Inr _ \<Rightarrow> 0)"

subsection \<open>Opening\<close>

text \<open>
  \<^verbatim>\<open>fi->fh = open(...); if (fi->fh < 0) return -errno; return 0;\<close>, with the comparison on the
  unsigned member.
\<close>

definition open_cache_file ::
    "client_env \<Rightarrow> client \<Rightarrow> 'w \<Rightarrow> string \<Rightarrow> fuse_file_info \<Rightarrow> (int \<times> fuse_file_info, 'w) outcome" where
  "open_cache_file e c w path fi =
     (case sys_open (cfs c) (cache_file e c path) (flags fi) 0 of (s, r) \<Rightarrow>
        let fi' = fi\<lparr>fh := fh_of r\<rparr>
        in if uint (fh fi') < 0 then Ret (- errno_of r, fi') (c\<lparr>cfs := s\<rparr>) w
           else Ret (0, fi') (c\<lparr>cfs := s\<rparr>) w)"

text \<open>What an \<^verbatim>\<open>ofstream\<close> leaves that was given these bytes; it may have failed to open.\<close>

definition ofstream_store :: "fs \<Rightarrow> string \<Rightarrow> byte_string \<Rightarrow> fs" where
  "ofstream_store s path data =
     (case ofstream_open s path of (s', Inl _) \<Rightarrow> s' | (s', Inr i) \<Rightarrow> stream_write s' i data)"

text \<open>\<^verbatim>\<open>close(creat(path, mode))\<close>\<close>

definition close_creat :: "fs \<Rightarrow> string \<Rightarrow> 32 word \<Rightarrow> fs" where
  "close_creat s path mode =
     (case sys_open s path (O_WRONLY\<lparr>o_creat := True, o_trunc := True\<rparr>) mode of
        (s', Inl _) \<Rightarrow> s' | (s', Inr fd) \<Rightarrow> fst (sys_close s' fd))"

text \<open>
  The part of \<^verbatim>\<open>afs_open\<close> from the download on.  The last \<^verbatim>\<open>Read\<close> fails and leaves \<^verbatim>\<open>msg\<close> at the last
  message, whose timestamp is stored.
\<close>

definition download ::
    "client_env \<Rightarrow> 'w stub \<Rightarrow> client \<Rightarrow> 'w \<Rightarrow> string \<Rightarrow> fuse_file_info \<Rightarrow> (int \<times> fuse_file_info, 'w) outcome" where
  "download e stub c w path fi =
     (case rpc_GetContent stub w path of
        None \<Rightarrow> Hang
      | Some ([], status, w') \<Rightarrow> Ret (- EIO, fi) c w'
      | Some (msg # msgs, status, w') \<Rightarrow>
          if mc_file_exists msg then
            let c1 = c\<lparr>cfs := ofstream_store (cfs c) (cache_file e c path) (concat (map mc_b (msg # msgs)))\<rparr>
            in if status \<noteq> OK then Ret (- EIO, fi) c1 w'
               else
                 let c2 = time_set e c1 path (mc_timestamp (last (msg # msgs)))
                 in open_cache_file e (dirty_set e c2 path False) w' path fi
          else
            let c1 = time_set e c path LOCAL_CREAT_FILE;
                c2 = c1\<lparr>cfs := close_creat (cfs c1) (cache_file e c path) 0x1FF\<rparr>
            in open_cache_file e (dirty_set e c2 path False) w' path fi)"

definition afs_open ::
    "client_env \<Rightarrow> 'w stub \<Rightarrow> client \<Rightarrow> 'w \<Rightarrow> string \<Rightarrow> fuse_file_info \<Rightarrow> (int \<times> fuse_file_info, 'w) outcome" where
  "afs_open e stub c w path fi =
     (if time_count e c path = 1 then
        if time_get e c path = LOCAL_CREAT_FILE then open_cache_file e c w path fi
        else case rpc_Stat stub w path of
          None \<Rightarrow> Hang
        | Some (stat_content, w') \<Rightarrow>
            if sc_st_mtim stat_content = time_get e c path then open_cache_file e c w' path fi
            else
              let c1 = time_erase e c path;
                  c2 = c1\<lparr>cfs := fst (sys_unlink (cfs c1) (cache_file e c path))\<rparr>
              in download e stub c2 w' path fi
      else download e stub c w path fi)"

subsection \<open>Closing\<close>

text \<open>
  The messages of an upload: one per piece of the file.  A cache file that is a directory gives a
  failing read without end of file, hence none.
\<close>

definition upload_messages :: "'w stub \<Rightarrow> 'w \<Rightarrow> string \<Rightarrow> byte_string option \<Rightarrow> FilepathContent list" where
  "upload_messages stub w path content =
     (case content of
        None \<Rightarrow> []
      | Some s \<Rightarrow> map (\<lambda>b. \<lparr>fc_filepath = path, fc_b = b\<rparr>) (send_chunks BUFSIZE (rpc_accepts stub w) 0 s))"

text \<open>
  With \<^verbatim>\<open>FAILURE_POINT\<close> 1 the client dies once ten whole pieces are sent, with 2 after \<^verbatim>\<open>Finish\<close>.  The
  stream is started before the cache file is opened, so the exit on a missing file ends a stream
  without messages.
\<close>

definition afs_release ::
    "client_env \<Rightarrow> 'w stub \<Rightarrow> client \<Rightarrow> 'w \<Rightarrow> string \<Rightarrow> fuse_file_info \<Rightarrow> (int, 'w) outcome" where
  "afs_release e stub c w path fi =
     (let c1 = c\<lparr>cfs := fst (sys_close (cfs c) (fd_of fi))\<rparr> in
      if dirty_get e c1 path then
        case ifstream_read (cfs c1) (cache_file e c1 path) of
          None \<Rightarrow> Died c1 (rpc_Write_killed stub w [])
        | Some content \<Rightarrow>
            let msgs = upload_messages stub w path content;
                whole = filter (\<lambda>m. length (fc_b m) = BUFSIZE) msgs
            in if failure_point e = 1 \<and> 10 \<le> length whole then Died c1 (rpc_Write_killed stub w (take 10 whole))
               else case rpc_Write stub w msgs of
                 None \<Rightarrow> Hang
               | Some (status, meta, w') \<Rightarrow>
                   if failure_point e = 2 then Died c1 w'
                   else if status = OK then
                     Ret 0 (time_set e (dirty_set e c1 path False) path (meta_timestamp meta)) w'
                   else Ret EIO c1 w'
      else Ret 0 c1 w)"

definition afs_fsync :: "client \<Rightarrow> 'w \<Rightarrow> string \<Rightarrow> int \<Rightarrow> fuse_file_info \<Rightarrow> (int, 'w) outcome" where
  "afs_fsync c w path datasync fi =
     (case sys_fsync (cfs c) (fd_of fi) of Inl e \<Rightarrow> Ret (- e) c w | Inr _ \<Rightarrow> Ret 0 c w)"

subsection \<open>Names\<close>

definition afs_mknod ::
    "client_env \<Rightarrow> 'w stub \<Rightarrow> client \<Rightarrow> 'w \<Rightarrow> string \<Rightarrow> 32 word \<Rightarrow> (int, 'w) outcome" where
  "afs_mknod e stub c w path mode =
     (case rpc_Stat stub w path of
        None \<Rightarrow> Hang
      | Some (stat_content, w1) \<Rightarrow>
          if sc_return_code stat_content = 0 then Ret EEXIST c w1
          else case sys_open (cfs c) (cache_file e c path) (O_WRONLY\<lparr>o_creat := True, o_excl := True\<rparr>) mode of
            (s1, Inl err) \<Rightarrow> Ret (- err) (c\<lparr>cfs := s1\<rparr>) w1
          | (s1, Inr fd) \<Rightarrow>
              (case sys_close s1 fd of
                (s2, Inl err) \<Rightarrow> Ret (- err) (c\<lparr>cfs := s2\<rparr>) w1
              | (s2, Inr _) \<Rightarrow>
                  let c1 = c\<lparr>cfs := s2\<rparr>;
                      msgs = (if rpc_accepts stub w1 0 then [\<lparr>fc_filepath = path, fc_b = []\<rparr>] else [])
                  in case rpc_Write stub w1 msgs of
                    None \<Rightarrow> Hang
                  | Some (status, meta, w2) \<Rightarrow>
                      if status = OK then Ret 0 (time_set e c1 path (meta_timestamp meta)) w2
                      else Ret EIO c1 w2))"

definition response_result :: "Response \<Rightarrow> int" where
  "response_result res =
     (if sint (resp_return_code res) < 0 then - sint (resp_error_number res) else sint (resp_return_code res))"

definition afs_unlink :: "client_env \<Rightarrow> 'w stub \<Rightarrow> client \<Rightarrow> 'w \<Rightarrow> string \<Rightarrow> (int, 'w) outcome" where
  "afs_unlink e stub c w path =
     (let c1 = c\<lparr>cfs := fst (sys_unlink (cfs c) (cache_file e c path))\<rparr>;
          c2 = dirty_erase e (time_erase e c1 path) path
      in case rpc_Unlink stub w path of
           None \<Rightarrow> Hang
         | Some (res, w') \<Rightarrow> Ret (response_result res) c2 w')"

definition afs_mkdir :: "'w stub \<Rightarrow> client \<Rightarrow> 'w \<Rightarrow> string \<Rightarrow> 32 word \<Rightarrow> (int, 'w) outcome" where
  "afs_mkdir stub c w path mode =
     (case rpc_Mkdir stub w path of None \<Rightarrow> Hang | Some (res, w') \<Rightarrow> Ret (response_result res) c w')"

definition afs_rmdir :: "'w stub \<Rightarrow> client \<Rightarrow> 'w \<Rightarrow> string \<Rightarrow> (int, 'w) outcome" where
  "afs_rmdir stub c w path =
     (case rpc_Rmdir stub w path of None \<Rightarrow> Hang | Some (res, w') \<Rightarrow> Ret (response_result res) c w')"

text \<open>\<open>filler\<close> is FUSE's callback: it adds a name to the buffer and returns nonzero when it is full.\<close>

fun fill_names :: "('b \<Rightarrow> string \<Rightarrow> 'b \<times> int) \<Rightarrow> 'b \<Rightarrow> string list \<Rightarrow> int \<times> 'b" where
  "fill_names filler buf [] = (0, buf)"
| "fill_names filler buf (n # ns) =
     (case filler buf (c_str n) of (buf', r) \<Rightarrow> if r \<noteq> 0 then (- ENOMEM, buf') else fill_names filler buf' ns)"

definition afs_readdir ::
    "'w stub \<Rightarrow> client \<Rightarrow> 'w \<Rightarrow> string \<Rightarrow> 'b \<Rightarrow> ('b \<Rightarrow> string \<Rightarrow> 'b \<times> int) \<Rightarrow> (int \<times> 'b, 'w) outcome" where
  "afs_readdir stub c w path buf filler =
     (case rpc_Ls stub w path of
        None \<Rightarrow> Hang
      | Some (ls_result, w') \<Rightarrow> Ret (fill_names filler buf ls_result) c w')"

subsection \<open>Attributes\<close>

text \<open>
  \<^verbatim>\<open>*((timespec *)s.c_str())\<close> reads sixteen bytes of the string and its terminating NUL.
\<close>

definition afs_getattr ::
    "'w stub \<Rightarrow> client \<Rightarrow> 'w \<Rightarrow> string \<Rightarrow> stat_buf \<Rightarrow> (int \<times> stat_buf, 'w) outcome" where
  "afs_getattr stub c w path stbuf =
     (case rpc_Stat stub w path of
        None \<Rightarrow> Hang
      | Some (response, w') \<Rightarrow>
          if sint (sc_return_code response) < 0 then Ret (- sint (sc_error_number response), stbuf) c w'
          else
            let cast = (\<lambda>s. bytes_timespec (s @ [CHR 0x00]))
            in case (cast (sc_st_atim response), cast (sc_st_mtim response), cast (sc_st_ctim response)) of
                 (Some atim, Some mtim, Some ctim) \<Rightarrow>
                   Ret (sint (sc_return_code response),
                     \<lparr>st_dev = sc_st_dev response, st_ino = sc_st_ino response, st_mode = ucast (sc_st_mode response),
                      st_nlink = sc_st_nlink response, st_uid = ucast (sc_st_uid response),
                      st_gid = ucast (sc_st_gid response), st_rdev = sc_st_rdev response,
                      st_size = sc_st_size response, st_blksize = sc_st_blksize response,
                      st_blocks = sc_st_blocks response, st_atim = atim, st_mtim = mtim, st_ctim = ctim\<rparr>) c w'
               | _ \<Rightarrow> Undef)"

subsection \<open>Data\<close>

text \<open>The \<^verbatim>\<open>ssize_t\<close> result is returned as an \<^verbatim>\<open>int\<close>.\<close>

definition int_of_ssize :: "nat \<Rightarrow> int" where
  "int_of_ssize n = sint (word_of_nat n :: 32 word)"

definition afs_read ::
    "client \<Rightarrow> 'w \<Rightarrow> string \<Rightarrow> nat \<Rightarrow> int \<Rightarrow> fuse_file_info \<Rightarrow> (int \<times> byte_string, 'w) outcome" where
  "afs_read c w path size_of offset fi =
     (case sys_pread (cfs c) (fd_of fi) size_of offset of
        Inl e \<Rightarrow> Ret (- e, []) c w
      | Inr data \<Rightarrow> Ret (int_of_ssize (length data), data) c w)"

definition afs_write ::
    "client_env \<Rightarrow> client \<Rightarrow> 'w \<Rightarrow> string \<Rightarrow> byte_string \<Rightarrow> int \<Rightarrow> fuse_file_info \<Rightarrow> (int, 'w) outcome" where
  "afs_write e c w path buf offset fi =
     (let c1 = dirty_set e c path True in
      case sys_pwrite (cfs c1) (fd_of fi) buf offset of
        (s, Inl err) \<Rightarrow> Ret (- err) (c1\<lparr>cfs := s\<rparr>) w
      | (s, Inr n) \<Rightarrow> Ret (int_of_ssize n) (c1\<lparr>cfs := s\<rparr>) w)"

definition afs_ftruncate :: "client \<Rightarrow> 'w \<Rightarrow> string \<Rightarrow> int \<Rightarrow> fuse_file_info \<Rightarrow> (int, 'w) outcome" where
  "afs_ftruncate c w path offset fi =
     (case sys_ftruncate (cfs c) (fd_of fi) offset of
        (s, Inl e) \<Rightarrow> Ret (- e) (c\<lparr>cfs := s\<rparr>) w
      | (s, Inr _) \<Rightarrow> Ret 0 (c\<lparr>cfs := s\<rparr>) w)"

definition afs_truncate :: "client_env \<Rightarrow> client \<Rightarrow> 'w \<Rightarrow> string \<Rightarrow> int \<Rightarrow> (int, 'w) outcome" where
  "afs_truncate e c w path newsize =
     (case sys_truncate (cfs c) (cache_file e c path) newsize of
        (s, Inl err) \<Rightarrow> Ret (- err) (c\<lparr>cfs := s\<rparr>) w
      | (s, Inr _) \<Rightarrow> Ret 0 (c\<lparr>cfs := s\<rparr>) w)"

subsection \<open>Starting over\<close>

text \<open>
  The constructor of \<^verbatim>\<open>afs_data_t\<close> on the files of a cache directory, and the slash \<^verbatim>\<open>main\<close> appends;
  \<open>None\<close> is an assertion that failed.  \<open>ct\<close> and \<open>cd\<close> are the uninitialised counters.  A process
  that ended left its descriptors closed.
\<close>

definition afs_data_new ::
    "client_env \<Rightarrow> int \<Rightarrow> int \<Rightarrow> string \<Rightarrow> table_disk \<Rightarrow> table_disk \<Rightarrow> fs \<Rightarrow> client option" where
  "afs_data_new e ct cd root time_files dirty_files s =
     (case last_modified_new (can_write e) ct time_files of
        None \<Rightarrow> None
      | Some (lm, time_files') \<Rightarrow>
          (case is_dirty_new (can_write e) cd dirty_files of
             None \<Rightarrow> None
           | Some (dirty, dirty_files') \<Rightarrow>
               Some \<lparr>cache_root = (if last root = CHR ''/'' then root else root @ ''/''),
                     last_modified = lm, is_dirty = dirty, last_modified_files = time_files',
                     is_dirty_files = dirty_files', cfs = s\<lparr>fs_fds := (\<lambda>_. None)\<rparr>\<rparr>))"

definition restart :: "client_env \<Rightarrow> int \<Rightarrow> int \<Rightarrow> client \<Rightarrow> client option" where
  "restart e ct cd c = afs_data_new e ct cd (cache_root c) (last_modified_files c) (is_dirty_files c) (cfs c)"

end
