(* ===== verification/Posix_Spec.thy ===== *)
theory Posix_Spec
  imports Posix
begin

section \<open>The abstract file system\<close>

text \<open>
  What the names of a file system say, without inodes: a map from resolved paths to folders and to
  files with their bytes and modification time.  Every call of \<open>Posix\<close> is a map update on it, and
  keeps the well-formedness \<open>wf_fs\<close> (names and inodes one to one, every parent a directory, open
  files on allocated inodes).
\<close>

datatype entry = Folder | File byte_string timespec

definition entry_of :: "inode \<Rightarrow> entry" where
  "entry_of n = (if i_isdir n then Folder else File (i_data n) (st_mtim (i_stat n)))"

definition view :: "fs \<Rightarrow> string list \<Rightarrow> entry option" where
  "view s cp = map_option (\<lambda>i. entry_of (fs_inodes s i)) (node s cp)"

definition wf_fs :: "fs \<Rightarrow> bool" where
  "wf_fs s \<longleftrightarrow>
     distinct (map fst (fs_names s)) \<and> distinct (map snd (fs_names s))
     \<and> (\<forall>i \<in> snd ` set (fs_names s). i < fs_next s)
     \<and> is_dir s []
     \<and> (\<forall>cp. cp \<noteq> [] \<and> node s cp \<noteq> None \<longrightarrow> is_dir s (butlast cp))
     \<and> (\<forall>fd f. fs_fds s fd = Some f \<longrightarrow> of_ino f < fs_next s \<and> fd < fs_next_fd s)"

lemma is_dir_view: "is_dir s cp \<longleftrightarrow> view s cp = Some Folder"
  by (auto simp: is_dir_def view_def entry_of_def split: option.splits)

lemma node_view: "node s cp = None \<longleftrightarrow> view s cp = None"
  by (simp add: view_def)

lemma is_dir_node: "is_dir s cp \<Longrightarrow> \<exists>i. node s cp = Some i \<and> i_isdir (fs_inodes s i)"
  by (auto simp: is_dir_def split: option.splits)

lemma node_inj: "wf_fs s \<Longrightarrow> node s cp = Some i \<Longrightarrow> node s cp' = Some i \<Longrightarrow> cp = cp'"
  unfolding wf_fs_def node_def
  by (metis distinct_map inj_onD map_of_SomeD prod.inject snd_conv)

lemma node_less: "wf_fs s \<Longrightarrow> node s cp = Some i \<Longrightarrow> i < fs_next s"
  unfolding wf_fs_def node_def by (metis imageI map_of_SomeD snd_conv)

subsection \<open>Resolution\<close>

lemma walk_cong:
  assumes "\<And>cp. is_dir s cp = is_dir s' cp" "\<And>cp. node s cp = None \<longleftrightarrow> node s' cp = None"
  shows "walk s cur cs = walk s' cur cs"
  by (induction cs arbitrary: cur) (simp_all add: assms)

text \<open>Which paths resolve, and to what, depends on the directories only.\<close>

lemma walk_dirs:
  assumes "\<And>cp. is_dir s cp = is_dir s' cp"
  shows "walk s cur cs = Inr cp \<longleftrightarrow> walk s' cur cs = Inr cp"
  by (induction cs arbitrary: cur) (simp_all add: assms)

lemma resolve_dirs:
  "(\<And>cp. is_dir s cp = is_dir s' cp) \<Longrightarrow> resolve s p = Inr cp \<longleftrightarrow> resolve s' p = Inr cp"
  using walk_dirs[of s s' "[]" "path_comps p" cp] by (simp add: resolve_def)

lemma walk_parent:
  assumes "wf_fs s"
  shows "walk s cur cs = Inr cp \<Longrightarrow> cur = [] \<or> is_dir s (butlast cur) \<Longrightarrow> cp = [] \<or> is_dir s (butlast cp)"
proof (induction cs arbitrary: cur)
  case (Cons c cs)
  have d: "is_dir s cur"
    using Cons.prems(1) by (auto split: if_splits)
  have up: "butlast cur = [] \<or> is_dir s (butlast (butlast cur))"
  proof (cases "butlast cur = []")
    case False
    then have "cur \<noteq> []" by auto
    then have "is_dir s (butlast cur)"
      using Cons.prems(2) by blast
    then have "node s (butlast cur) \<noteq> None"
      using is_dir_node by fastforce
    with False show ?thesis
      using assms unfolding wf_fs_def by blast
  qed simp
  show ?case
    using Cons.IH Cons.prems d up by (auto split: if_splits)
qed simp

lemma resolve_parent: "wf_fs s \<Longrightarrow> resolve s p = Inr cp \<Longrightarrow> cp = [] \<or> is_dir s (butlast cp)"
  using walk_parent[of s "[]" "path_comps p" cp] by (simp add: resolve_def split: if_splits)

lemma split_slash_not_Nil [simp]: "split_slash p \<noteq> []"
  by (induction p) (auto split: list.splits)

lemma split_slash_slash: "split_slash (a @ CHR ''/'' # b) = split_slash a @ split_slash b"
  by (induction a) (auto split: list.splits)

lemma path_comps_slash: "path_comps (a @ CHR ''/'' # b) = path_comps a @ path_comps b"
  by (simp add: path_comps_def split_slash_slash)

lemma split_slash_plain: "CHR ''/'' \<notin> set w \<Longrightarrow> split_slash w = [w]"
  by (induction w) auto

lemma path_comps_plain: "CHR ''/'' \<notin> set w \<Longrightarrow> w \<noteq> [] \<Longrightarrow> path_comps w = [w]"
  by (simp add: path_comps_def split_slash_plain)

lemma walk_append:
  "walk s cur (xs @ ys) = (case walk s cur xs of Inl e \<Rightarrow> Inl e | Inr cp \<Rightarrow> walk s cp ys)"
  by (induction xs arbitrary: cur) auto

text \<open>A path without \<^verbatim>\<open>..\<close> stays below the directory it starts from.\<close>

lemma walk_below:
  "''..'' \<notin> set cs \<Longrightarrow> walk s cur cs = Inr cp \<Longrightarrow> \<exists>zs. cp = cur @ zs"
proof (induction cs arbitrary: cur)
  case (Cons c cs)
  then obtain zs where "cp = (if c = ''.'' then cur else cur @ [c]) @ zs"
    by (fastforce split: if_splits)
  then show ?case by (auto split: if_splits)
qed simp

subsection \<open>Calls as map updates\<close>

lemma node_set_data [simp]: "node (set_data s i d) cp = node s cp"
  by (simp add: node_def set_data_def)

lemma is_dir_set_data [simp]: "is_dir (set_data s i d) cp = is_dir s cp"
  by (auto simp: is_dir_def set_data_def node_def split: option.splits)

lemma wf_set_data [simp, wf_intros]: "wf_fs (set_data s i d) = wf_fs s"
  unfolding wf_fs_def by (simp, simp add: set_data_def)

lemma resolve_set_data [simp]: "resolve (set_data s i d) p = resolve s p"
  using walk_cong[of "set_data s i d" s] by (simp add: resolve_def)

lemma view_set_data:
  assumes "wf_fs s" "node s cp = Some i" "\<not> i_isdir (fs_inodes s i)"
  shows "view (set_data s i d) = (view s)(cp \<mapsto> File d (fs_now s))"
proof
  fix q
  show "view (set_data s i d) q = ((view s)(cp \<mapsto> File d (fs_now s))) q"
  proof (cases "q = cp")
    case True
    with assms show ?thesis
      by (simp add: view_def, simp add: set_data_def entry_of_def)
  next
    case False
    then have "node s q \<noteq> Some i"
      using node_inj[OF assms(1,2)] by blast
    with False show ?thesis
      by (cases "node s q") (simp_all add: view_def, auto simp: set_data_def)
  qed
qed

lemma node_create:
  "node s cp = None \<Longrightarrow> node (create_node s cp isdir mode) = (node s)(cp \<mapsto> fs_next s)"
  by (rule ext) (auto simp: node_def create_node_def map_add_def split: option.splits)

lemma view_create:
  assumes "wf_fs s" "node s cp = None"
  shows "view (create_node s cp isdir mode)
    = (view s)(cp \<mapsto> (if isdir then Folder else File [] (fs_now s)))"
proof
  fix q
  show "view (create_node s cp isdir mode) q
      = ((view s)(cp \<mapsto> (if isdir then Folder else File [] (fs_now s)))) q"
  proof (cases "q = cp")
    case True
    then show ?thesis
      by (simp add: view_def node_create[OF assms(2)], simp add: create_node_def new_inode_def entry_of_def)
  next
    case False
    have "node s q \<noteq> Some (fs_next s)"
      using node_less[OF assms(1)] by blast
    with False show ?thesis
      by (cases "node s q") (simp_all add: view_def node_create[OF assms(2)], auto simp: create_node_def)
  qed
qed

lemma wf_create:
  assumes "wf_fs s" "node s cp = None" "cp = [] \<or> is_dir s (butlast cp)"
  shows "wf_fs (create_node s cp isdir mode)"
proof -
  have ne: "cp \<noteq> []"
    using assms(1,2) is_dir_node unfolding wf_fs_def by fastforce
  have dir: "is_dir s q \<Longrightarrow> is_dir (create_node s cp isdir mode) q" for q
    using assms(1,2) by (auto simp: is_dir_view view_create node_view)
  have fresh: "fs_next s \<notin> snd ` set (fs_names s)"
    using assms(1) unfolding wf_fs_def by blast
  have key: "cp \<notin> fst ` set (fs_names s)"
    using assms(2) by (simp add: node_def map_of_eq_None_iff)
  show ?thesis
    unfolding wf_fs_def
  proof (intro conjI allI impI ballI)
    show "distinct (map fst (fs_names (create_node s cp isdir mode)))"
      using assms(1) key by (simp add: wf_fs_def create_node_def)
    show "distinct (map snd (fs_names (create_node s cp isdir mode)))"
      using assms(1) fresh by (simp add: wf_fs_def create_node_def)
    show "is_dir (create_node s cp isdir mode) []"
      using assms(1) dir by (simp add: wf_fs_def)
    fix i assume "i \<in> snd ` set (fs_names (create_node s cp isdir mode))"
    then show "i < fs_next (create_node s cp isdir mode)"
      using assms(1) by (fastforce simp: wf_fs_def create_node_def)
  next
    fix q assume q: "q \<noteq> [] \<and> node (create_node s cp isdir mode) q \<noteq> None"
    have "is_dir s (butlast q)"
    proof (cases "q = cp")
      case True
      then show ?thesis using assms(3) ne by blast
    next
      case False
      then have "node s q \<noteq> None"
        using q by (simp add: node_create[OF assms(2)])
      then show ?thesis using assms(1) q by (auto simp: wf_fs_def)
    qed
    then show "is_dir (create_node s cp isdir mode) (butlast q)"
      by (rule dir)
  next
    fix fd f assume "fs_fds (create_node s cp isdir mode) fd = Some f"
    then have "of_ino f < fs_next s \<and> fd < fs_next_fd s"
      using assms(1) by (auto simp: wf_fs_def create_node_def)
    then show "of_ino f < fs_next (create_node s cp isdir mode)"
      and "fd < fs_next_fd (create_node s cp isdir mode)"
      by (simp_all add: create_node_def)
  qed
qed

text \<open>Removing a name, for \<^verbatim>\<open>unlink\<close> and \<^verbatim>\<open>rmdir\<close>.\<close>

definition drop_name :: "fs \<Rightarrow> string list \<Rightarrow> fs" where
  "drop_name s cp = s\<lparr>fs_names := AList.delete cp (fs_names s)\<rparr>"

lemma node_drop: "node (drop_name s cp) = (node s)(cp := None)"
  by (rule ext) (simp add: node_def drop_name_def delete_conv')

lemma view_drop: "view (drop_name s cp) = (view s)(cp := None)"
  by (rule ext) (simp add: view_def node_drop, simp add: drop_name_def)

lemma wf_drop:
  assumes "wf_fs s" "cp \<noteq> []" "\<And>q. q \<noteq> [] \<Longrightarrow> butlast q = cp \<Longrightarrow> node s q = None"
  shows "wf_fs (drop_name s cp)"
proof -
  have names: "set (fs_names (drop_name s cp)) \<subseteq> set (fs_names s)"
    by (auto simp: drop_name_def AList.delete_eq)
  have dir: "is_dir (drop_name s cp) q" if "is_dir s q" "q \<noteq> cp" for q
    using that by (simp add: is_dir_view view_drop)
  show ?thesis
    unfolding wf_fs_def
  proof (intro conjI allI impI ballI)
    show "distinct (map fst (fs_names (drop_name s cp)))"
      using assms(1) by (simp add: wf_fs_def drop_name_def distinct_delete)
    show "distinct (map snd (fs_names (drop_name s cp)))"
      using assms(1) by (simp add: wf_fs_def drop_name_def AList.delete_eq distinct_map_filter)
    show "is_dir (drop_name s cp) []"
      using assms(1,2) dir by (simp add: wf_fs_def)
    fix i assume "i \<in> snd ` set (fs_names (drop_name s cp))"
    then have "i \<in> snd ` set (fs_names s)"
      using names by blast
    then have "i < fs_next s"
      using assms(1) unfolding wf_fs_def by blast
    then show "i < fs_next (drop_name s cp)"
      by (simp add: drop_name_def)
  next
    fix q assume q: "q \<noteq> [] \<and> node (drop_name s cp) q \<noteq> None"
    then have "node s q \<noteq> None" "butlast q \<noteq> cp"
      using assms(3) by (auto simp: node_drop split: if_splits)
    then show "is_dir (drop_name s cp) (butlast q)"
      using assms(1) q dir by (simp add: wf_fs_def)
  next
    fix fd f assume "fs_fds (drop_name s cp) fd = Some f"
    then show "of_ino f < fs_next (drop_name s cp)" and "fd < fs_next_fd (drop_name s cp)"
      using assms(1) by (auto simp: wf_fs_def drop_name_def)
  qed
qed

lemma entries_none: "entries s cp = [] \<longleftrightarrow> (\<forall>q. q \<noteq> [] \<and> butlast q = cp \<longrightarrow> node s q = None)"
  unfolding entries_def node_def map_of_eq_None_iff by (force simp: filter_empty_conv)

lemma set_entries: "set (entries s cp) = {w. node s (cp @ [w]) \<noteq> None}"
proof (intro set_eqI iffI)
  fix w assume "w \<in> set (entries s cp)"
  then have "w \<in> last ` {q \<in> fst ` set (fs_names s). q \<noteq> [] \<and> butlast q = cp}"
    by (simp only: entries_def set_map set_filter)
  then obtain q where q: "w = last q" "q \<in> fst ` set (fs_names s)" "q \<noteq> []" "butlast q = cp"
    unfolding image_def[of last] by blast
  have "q = cp @ [w]"
    unfolding q(1) q(4)[symmetric] by (rule append_butlast_last_id[OF q(3), symmetric])
  with q(2) show "w \<in> {w. node s (cp @ [w]) \<noteq> None}"
    by (simp add: node_def map_of_eq_None_iff)
next
  fix w assume "w \<in> {w. node s (cp @ [w]) \<noteq> None}"
  then have "cp @ [w] \<in> fst ` set (fs_names s)"
    by (simp add: node_def map_of_eq_None_iff)
  then have "last (cp @ [w]) \<in> last ` {q \<in> fst ` set (fs_names s). q \<noteq> [] \<and> butlast q = cp}"
    by (intro imageI) simp
  then show "w \<in> set (entries s cp)"
    by (simp only: entries_def set_map set_filter last_snoc)
qed

lemma file_no_children:
  assumes "wf_fs s" "\<not> is_dir s cp" "q \<noteq> []" "butlast q = cp"
  shows "node s q = None"
  using assms unfolding wf_fs_def by blast

lemma sys_unlink_drop:
  assumes "sys_unlink s p = (s', Inr ())"
  obtains cp i where "resolve s p = Inr cp" "node s cp = Some i" "\<not> is_dir s cp" "s' = drop_name s cp"
  using assms by (auto simp: sys_unlink_def drop_name_def is_dir_def split: sum.splits option.splits if_splits)

lemma sys_unlink_error: "sys_unlink s p = (s', Inl e) \<Longrightarrow> s' = s"
  by (auto simp: sys_unlink_def split: sum.splits option.splits if_splits)

lemma wf_unlink [wf_intros]: "wf_fs s \<Longrightarrow> wf_fs (fst (sys_unlink s p))"
proof (cases "sys_unlink s p")
  case (Pair s' r)
  assume wf: "wf_fs s"
  show ?thesis
  proof (cases r)
    case (Inl e)
    then show ?thesis using Pair wf by (auto dest!: sys_unlink_error)
  next
    case (Inr u)
    then obtain cp i where cp: "\<not> is_dir s cp" "s' = drop_name s cp"
      using Pair by (auto elim: sys_unlink_drop)
    moreover have "cp \<noteq> []" using cp(1) wf by (auto simp: wf_fs_def)
    ultimately show ?thesis
      using wf_drop[OF wf] file_no_children[OF wf] Pair by simp
  qed
qed

lemma sys_rmdir_drop:
  assumes "sys_rmdir s p = (s', Inr ())"
  obtains cp where "resolve s p = Inr cp" "is_dir s cp" "cp \<noteq> []" "entries s cp = []" "s' = drop_name s cp"
  using assms by (auto simp: sys_rmdir_def drop_name_def is_dir_def split: sum.splits option.splits if_splits)

lemma sys_rmdir_error: "sys_rmdir s p = (s', Inl e) \<Longrightarrow> s' = s"
  by (auto simp: sys_rmdir_def split: sum.splits option.splits if_splits)

lemma wf_rmdir [wf_intros]: "wf_fs s \<Longrightarrow> wf_fs (fst (sys_rmdir s p))"
proof (cases "sys_rmdir s p")
  case (Pair s' r)
  assume wf: "wf_fs s"
  show ?thesis
  proof (cases r)
    case (Inl e)
    then show ?thesis using Pair wf by (auto dest!: sys_rmdir_error)
  next
    case (Inr u)
    then obtain cp where "cp \<noteq> []" "entries s cp = []" "s' = drop_name s cp"
      using Pair by (auto elim: sys_rmdir_drop)
    then show ?thesis
      using wf_drop[OF wf] Pair by (simp add: entries_none)
  qed
qed

lemma sys_mkdir_create:
  assumes "sys_mkdir s p mode = (s', Inr ())"
  obtains cp where "resolve s p = Inr cp" "node s cp = None" "s' = create_node s cp True mode"
  using assms by (auto simp: sys_mkdir_def split: sum.splits option.splits if_splits)

lemma sys_mkdir_error: "sys_mkdir s p mode = (s', Inl e) \<Longrightarrow> s' = s"
  by (auto simp: sys_mkdir_def split: sum.splits option.splits if_splits)

lemma wf_mkdir [wf_intros]: "wf_fs s \<Longrightarrow> wf_fs (fst (sys_mkdir s p mode))"
proof (cases "sys_mkdir s p mode")
  case (Pair s' r)
  assume wf: "wf_fs s"
  show ?thesis
  proof (cases r)
    case (Inl e)
    then show ?thesis using Pair wf by (auto dest!: sys_mkdir_error)
  next
    case (Inr u)
    then obtain cp where "resolve s p = Inr cp" "node s cp = None" "s' = create_node s cp True mode"
      using Pair by (auto elim: sys_mkdir_create)
    then show ?thesis
      using wf_create[OF wf] resolve_parent[OF wf] Pair by simp
  qed
qed

subsection \<open>Opening\<close>

lemma open_node_cases:
  assumes op: "open_node s p fl mode = (s', Inr i)"
  obtains (created) cp where "resolve s p = Inr cp" "node s cp = None" "o_creat fl"
      "s' = create_node s cp False mode" "i = fs_next s"
    | (emptied) cp where "resolve s p = Inr cp" "node s cp = Some i" "\<not> i_isdir (fs_inodes s i)" "o_trunc fl"
      "s' = set_data s i []"
    | (found) cp where "resolve s p = Inr cp" "node s cp = Some i" "s' = s"
      "\<not> o_trunc fl \<or> i_isdir (fs_inodes s i)"
      "i_isdir (fs_inodes s i) \<longrightarrow> \<not> o_write fl \<and> \<not> o_creat fl"
proof -
  obtain cp where cp: "resolve s p = Inr cp"
    using op by (simp add: open_node_def split: sum.splits)
  show thesis
  proof (cases "node s cp")
    case None
    then show thesis
      using created[OF cp None] op cp by (simp add: open_node_def split: if_splits)
  next
    case (Some j)
    have "j = i" and s': "s' = (if o_trunc fl \<and> \<not> i_isdir (fs_inodes s j) then set_data s j [] else s)"
      and d: "i_isdir (fs_inodes s j) \<longrightarrow> \<not> o_write fl \<and> \<not> o_creat fl"
      using op cp Some by (auto simp: open_node_def split: if_splits)
    then have n: "node s cp = Some i" using Some by simp
    show thesis
    proof (cases "o_trunc fl \<and> \<not> i_isdir (fs_inodes s i)")
      case True
      then show thesis
        using emptied[OF cp n] s' \<open>j = i\<close> by simp
    next
      case False
      then have "s' = s" using s' \<open>j = i\<close> by (auto split: if_splits)
      from found[OF cp n this] show thesis
        using False d \<open>j = i\<close> by blast
    qed
  qed
qed

lemma open_node_error: "open_node s p fl mode = (s', Inl e) \<Longrightarrow> s' = s"
  by (auto simp: open_node_def split: sum.splits option.splits if_splits)

lemma wf_open_node [wf_intros]: "wf_fs s \<Longrightarrow> wf_fs (fst (open_node s p fl mode))"
proof (cases "open_node s p fl mode")
  case (Pair s' r)
  assume wf: "wf_fs s"
  show ?thesis
  proof (cases r)
    case (Inl e)
    then show ?thesis using Pair wf by (auto dest!: open_node_error)
  next
    case (Inr i)
    with Pair have "open_node s p fl mode = (s', Inr i)" by simp
    then show ?thesis
      using Pair wf wf_create[OF wf] resolve_parent[OF wf] by (cases rule: open_node_cases) auto
  qed
qed

text \<open>\<^verbatim>\<open>ofstream\<close>: afterwards the path names an empty file, and nothing else changed.\<close>

lemma ofstream_open_ok:
  assumes wf: "wf_fs s" and op: "ofstream_open s p = (s', Inr i)"
  obtains cp where "resolve s p = Inr cp" "node s' cp = Some i" "\<not> i_isdir (fs_inodes s' i)"
    "view s' = (view s)(cp \<mapsto> File [] (fs_now s))" "wf_fs s'" "\<not> is_dir s cp"
    "i_data (fs_inodes s' i) = []" "fs_now s' = fs_now s"
proof -
  have wf': "wf_fs s'"
    using wf_open_node[OF wf] op unfolding ofstream_open_def by (metis fst_conv)
  from op show ?thesis
    unfolding ofstream_open_def
  proof (cases rule: open_node_cases)
    case (created cp)
    then show ?thesis
      using that[of cp] wf wf' view_create[OF wf, of cp False]
      by (auto simp: node_create is_dir_def) (auto simp: create_node_def new_inode_def)
  next
    case (emptied cp)
    then show ?thesis
      using that[of cp] wf' view_set_data[OF wf, of cp i "[]"]
      by (auto simp: is_dir_def) (auto simp: set_data_def)
  next
    case (found cp)
    then show ?thesis by (auto simp: O_WRONLY_def O_RDONLY_def)
  qed
qed

lemma ofstream_open_error: "ofstream_open s p = (s', Inl e) \<Longrightarrow> s' = s"
  unfolding ofstream_open_def by (rule open_node_error)

subsection \<open>Renaming\<close>

lemma sys_rename_error: "sys_rename s old new = (s', Inl e) \<Longrightarrow> s' = s"
  by (auto simp: sys_rename_def split: sum.splits option.splits if_splits)

lemma sys_rename_ok:
  assumes wf: "wf_fs s" and ren: "sys_rename s old new = (s', Inr ())"
  obtains co cn d t where "resolve s old = Inr co" "resolve s new = Inr cn"
    "view s co = Some (File d t)" "\<not> is_dir s cn" "wf_fs s'" "fs_now s' = fs_now s"
    "view s' = (view s)(co := None, cn \<mapsto> File d t)"
proof -
  obtain co where co: "resolve s old = Inr co"
    using ren by (simp add: sys_rename_def split: sum.splits)
  obtain i where i: "node s co = Some i" "\<not> i_isdir (fs_inodes s i)"
    using ren co by (simp add: sys_rename_def split: option.splits if_splits)
  obtain cn where cn: "resolve s new = Inr cn" "\<not> is_dir s cn"
    using ren co i by (simp add: sys_rename_def split: sum.splits if_splits)
  note r = co cn(1) i cn(2)
  have s': "s' = (if cn = co then s
      else s\<lparr>fs_names := AList.update cn i (AList.delete co (fs_names s)),
             fs_inodes := (fs_inodes s)(i := (fs_inodes s i)
               \<lparr>i_stat := (i_stat (fs_inodes s i))\<lparr>st_ctim := fs_now s\<rparr>\<rparr>)\<rparr>)"
    using ren r by (simp add: sys_rename_def split: if_splits)
  define d t where "d = i_data (fs_inodes s i)" and "t = st_mtim (i_stat (fs_inodes s i))"
  have old: "view s co = Some (File d t)"
    using r by (simp add: view_def entry_of_def d_def t_def)
  show ?thesis
  proof (cases "cn = co")
    case True
    then show ?thesis
      using that[OF r(1,2) old r(5)] wf s' old by (simp add: fun_upd_idem)
  next
    case False
    have node': "node s' = (node s)(co := None, cn \<mapsto> i)"
      using False by (intro ext) (simp add: s' node_def update_conv' delete_conv')
    have inode': "entry_of (fs_inodes s' j) = entry_of (fs_inodes s j)" for j
      using False by (simp add: s' entry_of_def)
    have view': "view s' = (view s)(co := None, cn \<mapsto> File d t)"
      using old r(3) by (auto simp: view_def node' inode' fun_eq_iff)
    have dir': "is_dir s' q = is_dir s q" for q
      using r(5) old by (auto simp: is_dir_view view')
    have snds: "set (map snd (fs_names s')) \<subseteq> set (map snd (fs_names s))"
      and dist: "distinct (map snd (fs_names s'))" and dist1: "distinct (map fst (fs_names s'))"
    proof -
      let ?n = "AList.delete co (fs_names s)"
      have n: "distinct (map fst (fs_names s))" "distinct (map snd (fs_names s))"
        using wf by (auto simp: wf_fs_def)
      have names: "fs_names s' = AList.update cn i ?n"
        using False by (simp add: s')
      have mem: "(co, i) \<in> set (fs_names s)"
        using r(3) unfolding node_def by (rule map_of_SomeD)
      have i: "i \<notin> set (map snd ?n)"
        using n mem by (force simp: AList.delete_eq distinct_map inj_on_def)
      have sub: "set ?n \<subseteq> set (fs_names s)"
        by (auto simp: AList.delete_eq)
      have dn: "distinct (map snd ?n)"
        using n(2) unfolding AList.delete_eq by (simp add: distinct_map_filter)
      have upd: "i \<notin> set (map snd xs) \<Longrightarrow> distinct (map snd xs) \<Longrightarrow>
          distinct (map snd (AList.update cn i xs))
          \<and> set (map snd (AList.update cn i xs)) \<subseteq> insert i (set (map snd xs))" for xs :: "(string list \<times> nat) list"
      proof (induction xs)
        case (Cons x xs)
        then show ?case by (cases x) auto
      qed simp
      show "distinct (map snd (fs_names s'))"
        using upd[OF i dn] names by simp
      show "set (map snd (fs_names s')) \<subseteq> set (map snd (fs_names s))"
        using upd[OF i dn] names sub mem by force
      show "distinct (map fst (fs_names s'))"
        unfolding names by (intro distinct_update distinct_delete n)
    qed
    have "wf_fs s'"
      unfolding wf_fs_def
    proof (intro conjI allI impI ballI dist dist1)
      fix j assume "j \<in> snd ` set (fs_names s')"
      then have "j \<in> snd ` set (fs_names s)"
        using snds by auto
      then have "j < fs_next s"
        using wf unfolding wf_fs_def by blast
      then show "j < fs_next s'"
        using False by (simp add: s')
    next
      show "is_dir s' []" using wf dir' by (simp add: wf_fs_def)
    next
      fix q assume q: "q \<noteq> [] \<and> node s' q \<noteq> None"
      show "is_dir s' (butlast q)"
      proof (cases "q = cn")
        case True
        then show ?thesis using resolve_parent[OF wf r(2)] q dir' by simp
      next
        case False
        then have "node s q \<noteq> None" using q by (auto simp: node' split: if_splits)
        then show ?thesis using q wf dir' by (simp add: wf_fs_def)
      qed
    next
      fix fd f assume "fs_fds s' fd = Some f"
      then show "of_ino f < fs_next s'" and "fd < fs_next_fd s'"
        using wf False by (auto simp: wf_fs_def s')
    qed
    then show ?thesis
      using that[OF r(1,2) old r(5)] view' False s' by simp
  qed
qed

lemma wf_rename [wf_intros]: "wf_fs s \<Longrightarrow> wf_fs (fst (sys_rename s old new))"
proof (cases "sys_rename s old new")
  case (Pair s' r)
  assume wf: "wf_fs s"
  show ?thesis
  proof (cases r)
    case (Inl e)
    then show ?thesis using Pair wf by (auto dest!: sys_rename_error)
  next
    case (Inr u)
    with Pair have "sys_rename s old new = (s', Inr ())" by simp
    then show ?thesis using Pair by (auto elim: sys_rename_ok[OF wf])
  qed
qed

lemma is_dir_rename:
  assumes "wf_fs s"
  shows "is_dir (fst (sys_rename s old new)) q = is_dir s q"
proof (cases "sys_rename s old new")
  case (Pair s' r)
  show ?thesis
  proof (cases r)
    case (Inl e)
    then show ?thesis using Pair by (auto dest!: sys_rename_error)
  next
    case (Inr u)
    with Pair have "sys_rename s old new = (s', Inr ())" by simp
    from sys_rename_ok[OF assms this] obtain co cn d t where
      "view s co = Some (File d t)" "\<not> is_dir s cn" "view s' = (view s)(co := None, cn \<mapsto> File d t)"
      by metis
    then show ?thesis using Pair by (auto simp: is_dir_view)
  qed
qed

text \<open>The clock of the file system is not part of what its names hold.\<close>

lemma fs_now_update [simp]:
  "node (s\<lparr>fs_now := t\<rparr>) = node s" "view (s\<lparr>fs_now := t\<rparr>) = view s" "is_dir (s\<lparr>fs_now := t\<rparr>) = is_dir s"
  "wf_fs (s\<lparr>fs_now := t\<rparr>) = wf_fs s"
proof -
  show n: "node (s\<lparr>fs_now := t\<rparr>) = node s" by (rule ext) (simp add: node_def)
  show "view (s\<lparr>fs_now := t\<rparr>) = view s" by (rule ext) (simp add: view_def n)
  show d: "is_dir (s\<lparr>fs_now := t\<rparr>) = is_dir s" by (rule ext) (simp add: is_dir_def n split: option.split)
  show "wf_fs (s\<lparr>fs_now := t\<rparr>) = wf_fs s" by (simp add: wf_fs_def d n)
qed

lemma wf_stream_write [simp, wf_intros]: "wf_fs (stream_write s i d) = wf_fs s"
  by (simp add: stream_write_def)

subsection \<open>Calls that succeed\<close>

lemma is_dir_inode: "node s cp = Some i \<Longrightarrow> is_dir s cp = i_isdir (fs_inodes s i)"
  by (simp add: is_dir_def)

lemma ofstream_open_succeeds:
  assumes "resolve s p = Inr cp" "\<not> is_dir s cp"
  shows "\<exists>s' i. ofstream_open s p = (s', Inr i)"
  using assms by (cases "node s cp")
    (simp_all add: ofstream_open_def open_node_def O_WRONLY_def O_RDONLY_def is_dir_inode)

lemma ofstream_open_fails:
  assumes "(\<exists>e. resolve s p = Inl e) \<or> (\<exists>cp. resolve s p = Inr cp \<and> is_dir s cp)"
  shows "\<exists>e. ofstream_open s p = (s, Inl e)"
  using assms by (auto simp: ofstream_open_def open_node_def O_WRONLY_def O_RDONLY_def is_dir_inode
      dest: is_dir_node split: option.splits)

lemma sys_stat_file:
  assumes "resolve s p = Inr cp" "view s cp = Some (File d t)"
  shows "\<exists>sb. sys_stat s p = Inr sb \<and> st_mtim sb = t \<and> st_size sb = word_of_nat (length d)"
  using assms by (auto simp: sys_stat_def view_def stat_of_def Let_def entry_of_def split: if_splits)

lemma sys_stat_none:
  assumes "\<And>cp. resolve s p = Inr cp \<Longrightarrow> view s cp = None"
  shows "\<exists>e. sys_stat s p = Inl e"
  using assms by (auto simp: sys_stat_def node_view split: sum.splits option.splits)
    (metis node_view option.distinct(1))

lemma sys_rename_succeeds:
  assumes "resolve s old = Inr co" "view s co = Some (File d t)" "resolve s new = Inr cn" "\<not> is_dir s cn"
  shows "\<exists>s'. sys_rename s old new = (s', Inr ())"
  using assms by (auto simp: sys_rename_def view_def entry_of_def split: if_splits)

lemma sys_rename_fails:
  assumes "(\<exists>e. resolve s new = Inl e) \<or> (\<exists>cn. resolve s new = Inr cn \<and> is_dir s cn)"
  shows "\<exists>e. sys_rename s old new = (s, Inl e)"
  using assms by (auto simp: sys_rename_def split: sum.splits option.splits)

lemma view_stream_write:
  assumes "wf_fs s" "node s cp = Some i" "view s = v(cp \<mapsto> File [] (fs_now s))"
  shows "view (stream_write s i d) = v(cp \<mapsto> File d (fs_now s))"
proof (cases "d = []")
  case True
  then show ?thesis using assms(3) by (simp add: stream_write_def)
next
  case False
  have "view s cp = Some (File [] (fs_now s))"
    using assms(3) by simp
  then have "\<not> i_isdir (fs_inodes s i)"
    using assms(2) by (auto simp: view_def entry_of_def)
  then show ?thesis
    using view_set_data[OF assms(1,2)] False assms(3) by (simp add: stream_write_def)
qed

lemma node_stream_write [simp]: "node (stream_write s i d) = node s"
  by (rule ext) (simp add: stream_write_def)

lemma fs_now_simps [simp]: "fs_now (set_data s i d) = fs_now s" "fs_now (stream_write s i d) = fs_now s"
  by (simp_all add: set_data_def stream_write_def)

text \<open>A whole file written through \<^verbatim>\<open>ofstream\<close>.\<close>

lemma ofstream_write:
  assumes "wf_fs s" "resolve s p = Inr cp" "\<not> is_dir s cp" "ofstream_open s p = (s1, Inr i)"
  shows "wf_fs (stream_write s1 i d)"
    and "view (stream_write s1 i d) = (view s)(cp \<mapsto> File d (fs_now s))"
    and "is_dir (stream_write s1 i d) q = is_dir s q"
    and "fs_now (stream_write s1 i d) = fs_now s"
proof -
  obtain cp' where o: "resolve s p = Inr cp'" "node s1 cp' = Some i"
    "view s1 = (view s)(cp' \<mapsto> File [] (fs_now s))" "wf_fs s1" "fs_now s1 = fs_now s"
    using ofstream_open_ok[OF assms(1,4)] by metis
  have cp': "cp' = cp" using o(1) assms(2) by simp
  show v: "view (stream_write s1 i d) = (view s)(cp \<mapsto> File d (fs_now s))"
    using view_stream_write[of s1 cp i "view s" d] o cp' by simp
  show "wf_fs (stream_write s1 i d)" using o(4) by simp
  show "fs_now (stream_write s1 i d) = fs_now s" using o(5) by simp
  show "is_dir (stream_write s1 i d) q = is_dir s q"
    using assms(3) by (auto simp: is_dir_view v)
qed

text \<open>A whole file read through \<^verbatim>\<open>ifstream\<close>.\<close>

lemma open_rdonly:
  assumes "resolve s p = Inr cp" "node s cp = Some i"
  shows "open_node s p O_RDONLY 0 = (s, Inr i)" "sys_stat s p = Inr (stat_of s i)"
  using assms by (simp_all add: open_node_def sys_stat_def O_RDONLY_def)

lemma open_rdonly_cases:
  obtains e where "open_node s p O_RDONLY 0 = (s, Inl e)"
  | cp i where "resolve s p = Inr cp" "node s cp = Some i" "open_node s p O_RDONLY 0 = (s, Inr i)"
  by (cases "resolve s p"; cases "node s (projr (resolve s p))")
    (auto simp: open_node_def O_RDONLY_def)

lemma ifstream_read_file:
  assumes "resolve s p = Inr cp" "view s cp = Some (File d t)"
  shows "ifstream_read s p = Some (Some d)"
  using assms by (auto simp: ifstream_read_def open_node_def view_def entry_of_def O_RDONLY_def split: if_splits)

lemma ifstream_read_none:
  assumes "\<And>cp. resolve s p = Inr cp \<Longrightarrow> view s cp = None"
  shows "ifstream_read s p = None"
proof (cases "resolve s p")
  case (Inr cp)
  then have "node s cp = None" using assms by (simp add: node_view)
  with Inr show ?thesis by (simp add: ifstream_read_def open_node_def O_RDONLY_def)
qed (simp add: ifstream_read_def open_node_def)

lemma store_more_nil [simp]: "store_more s i [] = s"
  by (simp add: store_more_def)

lemma store_more_twice: "store_more (store_more s i a) i b = store_more s i (a @ b)"
  by (simp add: store_more_def set_data_def)

lemma store_more_first: "i_data (fs_inodes s i) = [] \<Longrightarrow> store_more s i b = stream_write s i b"
  by (simp add: store_more_def stream_write_def)

lemma opened_empty: "ofstream_open s p = (s', Inr i) \<Longrightarrow> i_data (fs_inodes s' i) = []"
  unfolding ofstream_open_def
  by (auto elim!: open_node_cases simp: O_WRONLY_def O_RDONLY_def create_node_def new_inode_def set_data_def)

lemma store_at_end: "pos = length (i_data (fs_inodes s i)) \<Longrightarrow> store_at s i pos b = store_more s i b"
  by (simp add: store_at_def store_more_def put_bytes_def)

lemma store_more_data [simp]: "i_data (fs_inodes (store_more s i b) i) = i_data (fs_inodes s i) @ b"
  by (simp add: store_more_def set_data_def)

end
