(* ===== verification/Posix_Files.thy ===== *)
theory Posix_Files
  imports Posix_Spec
begin

section \<open>Descriptors on the abstract file system\<close>

text \<open>
  The calls on open files as updates of the map from names to entries: a descriptor is \<open>at\<close> a name
  while its inode is the one the name refers to.
\<close>

definition fd_at :: "fs \<Rightarrow> int \<Rightarrow> string list \<Rightarrow> open_flags \<Rightarrow> bool" where
  "fd_at s fd cp fl \<longleftrightarrow>
     (\<exists>i. node s cp = Some i \<and>
        fs_fds s fd = Some \<lparr>of_ino = i, of_read = o_read fl, of_write = o_write fl, of_append = o_append fl\<rparr>)"

definition plain_flags :: "open_flags \<Rightarrow> bool" where
  "plain_flags fl \<longleftrightarrow> \<not> o_trunc fl \<and> \<not> o_creat fl"

lemma plain_O_RDWR [simp]: "plain_flags O_RDWR" "o_read O_RDWR" "o_write O_RDWR" "\<not> o_append O_RDWR"
  by (simp_all add: plain_flags_def O_RDWR_def O_RDONLY_def)

lemma view_file_node:
  assumes "view s cp = Some (File d t)"
  obtains i where "node s cp = Some i" "\<not> i_isdir (fs_inodes s i)" "i_data (fs_inodes s i) = d"
    "st_mtim (i_stat (fs_inodes s i)) = t"
  using assms by (auto simp: view_def entry_of_def split: if_splits)

lemma view_fds_update [simp]:
  "view (s\<lparr>fs_fds := f\<rparr>) = view s" "view (s\<lparr>fs_fds := f, fs_next_fd := n\<rparr>) = view s"
  by (rule ext, simp add: view_def node_def)+

lemma node_fds_update [simp]:
  "node (s\<lparr>fs_fds := f\<rparr>) = node s" "node (s\<lparr>fs_fds := f, fs_next_fd := n\<rparr>) = node s"
  by (rule ext, simp add: node_def)+

lemma is_dir_fds_update [simp]:
  "is_dir (s\<lparr>fs_fds := f\<rparr>) = is_dir s" "is_dir (s\<lparr>fs_fds := f, fs_next_fd := n\<rparr>) = is_dir s"
  by (rule ext, simp add: is_dir_view)+

subsection \<open>open\<close>

lemma sys_open_existing:
  assumes "resolve s p = Inr cp" "view s cp = Some (File d t)" "plain_flags fl"
  shows "\<exists>s'. sys_open s p fl mode = (s', Inr (fs_next_fd s)) \<and> view s' = view s
    \<and> fd_at s' (fs_next_fd s) cp fl \<and> fs_now s' = fs_now s \<and> fs_next_fd s' = fs_next_fd s + 1
    \<and> (wf_fs s \<longrightarrow> wf_fs s')"
proof -
  obtain i where i: "node s cp = Some i" "\<not> i_isdir (fs_inodes s i)"
    using view_file_node[OF assms(2)] .
  let ?f = "\<lparr>of_ino = i, of_read = o_read fl, of_write = o_write fl, of_append = o_append fl\<rparr>"
  let ?s' = "s\<lparr>fs_fds := (fs_fds s)(fs_next_fd s \<mapsto> ?f), fs_next_fd := fs_next_fd s + 1\<rparr>"
  have op: "sys_open s p fl mode = (?s', Inr (fs_next_fd s))"
    using assms i by (simp add: sys_open_def open_node_def plain_flags_def)
  have "wf_fs ?s'" if wf: "wf_fs s"
  proof -
    have "i < fs_next s" by (rule node_less[OF wf i(1)])
    then show ?thesis
      using wf by (fastforce simp: wf_fs_def)
  qed
  then show ?thesis
    using op i by (intro exI[of _ ?s']) (simp add: fd_at_def)
qed

text \<open>Making a new file, with \<^verbatim>\<open>O_EXCL\<close> or without.\<close>

lemma sys_open_create:
  assumes wf: "wf_fs s" and r: "resolve s p = Inr cp" and new: "view s cp = None" and cr: "o_creat fl"
  shows "\<exists>s'. sys_open s p fl mode = (s', Inr (fs_next_fd s)) \<and> fs_fds s' (fs_next_fd s) \<noteq> None
    \<and> view s' = (view s)(cp \<mapsto> File [] (fs_now s)) \<and> wf_fs s' \<and> fs_next_fd s' = fs_next_fd s + 1"
proof -
  let ?c = "create_node s cp False mode"
  let ?f = "\<lparr>of_ino = fs_next s, of_read = o_read fl, of_write = o_write fl, of_append = o_append fl\<rparr>"
  let ?s' = "?c\<lparr>fs_fds := (fs_fds ?c)(fs_next_fd ?c \<mapsto> ?f), fs_next_fd := fs_next_fd ?c + 1\<rparr>"
  have n: "node s cp = None" using new by (simp add: node_view)
  have fd: "fs_next_fd ?c = fs_next_fd s" "fs_next ?c = Suc (fs_next s)" by (simp_all add: create_node_def)
  have op: "sys_open s p fl mode = (?s', Inr (fs_next_fd s))"
    using r n cr fd by (simp add: sys_open_def open_node_def)
  have wc: "wf_fs ?c"
    by (rule wf_create[OF wf n resolve_parent[OF wf r]])
  then have "wf_fs ?s'"
    using fd by (fastforce simp: wf_fs_def)
  then show ?thesis
    using op fd view_create[OF wf n, of False mode] by (intro exI[of _ ?s']) simp
qed

lemma sys_open_excl:
  "resolve s p = Inr cp \<Longrightarrow> view s cp \<noteq> None \<Longrightarrow> o_creat fl \<Longrightarrow> o_excl fl \<Longrightarrow>
    sys_open s p fl mode = (s, Inl EEXIST)"
  by (auto simp: sys_open_def open_node_def node_view split: option.splits)

lemma sys_close_open: "fs_fds s fd \<noteq> None \<Longrightarrow> snd (sys_close s fd) = Inr ()"
  by (simp add: sys_close_def)

lemma view_sys_close [simp]: "view (fst (sys_close s fd)) = view s"
  by (simp add: sys_close_def)

lemma node_sys_close [simp]: "node (fst (sys_close s fd)) = node s"
  by (simp add: sys_close_def)

lemma is_dir_sys_close [simp]: "is_dir (fst (sys_close s fd)) = is_dir s"
  by (rule ext) (simp add: is_dir_view)

lemma fs_sys_close [simp]: "fs_now (fst (sys_close s fd)) = fs_now s" "fs_next_fd (fst (sys_close s fd)) = fs_next_fd s"
  by (simp_all add: sys_close_def)

lemma wf_sys_close [simp, wf_intros]: "wf_fs s \<Longrightarrow> wf_fs (fst (sys_close s fd))"
  by (auto simp: sys_close_def wf_fs_def)

text \<open>A directory tree and its resolution depend on the map only.\<close>

lemma resolve_view: "view s' = view s \<Longrightarrow> resolve s' p = resolve s p"
  using walk_cong[of s' s "[]" "path_comps p"] by (simp add: resolve_def is_dir_view node_view)

lemma resolve_sys_close [simp]: "resolve (fst (sys_close s fd)) p = resolve s p"
  by (rule resolve_view) simp

subsection \<open>pread and pwrite\<close>

lemma sys_pread_at:
  assumes "fd_at s fd cp fl" "view s cp = Some (File d t)" "o_read fl" "0 \<le> off"
  shows "sys_pread s fd n off = Inr (take n (drop (nat off) d))"
proof -
  obtain i where "node s cp = Some i" "\<not> i_isdir (fs_inodes s i)" "i_data (fs_inodes s i) = d"
    using view_file_node[OF assms(2)] .
  then show ?thesis
    using assms(1,3,4) by (auto simp: fd_at_def sys_pread_def)
qed

lemma fd_at_set_data [simp]: "fd_at (set_data s i d) fd cp fl = fd_at s fd cp fl"
  by (simp add: fd_at_def, simp add: set_data_def)

lemma sys_pwrite_at:
  assumes "wf_fs s" "fd_at s fd cp fl" "view s cp = Some (File d t)" "o_write fl" "\<not> o_append fl" "0 \<le> off"
    and "buf \<noteq> []"
  shows "\<exists>s'. sys_pwrite s fd buf off = (s', Inr (length buf))
    \<and> view s' = (view s)(cp \<mapsto> File (put_bytes d (nat off) buf) (fs_now s)) \<and> wf_fs s'
    \<and> (\<forall>fd' cp' fl'. fd_at s' fd' cp' fl' = fd_at s fd' cp' fl') \<and> fs_next_fd s' = fs_next_fd s"
proof -
  obtain i where i: "node s cp = Some i" "\<not> i_isdir (fs_inodes s i)" "i_data (fs_inodes s i) = d"
    using view_file_node[OF assms(3)] .
  let ?s' = "set_data s i (put_bytes d (nat off) buf)"
  have "sys_pwrite s fd buf off = (?s', Inr (length buf))"
    using assms(2,4-7) i by (auto simp: fd_at_def sys_pwrite_def Let_def)
  then show ?thesis
    using view_set_data[OF assms(1) i(1,2)] assms(1)
    by (intro exI[of _ ?s']) (simp, simp add: set_data_def)
qed

text \<open>Bytes written are read back; the others stay.\<close>

lemma put_bytes_nth:
  assumes "buf \<noteq> []" "k < length (put_bytes d off buf)"
  shows "put_bytes d off buf ! k =
    (if off \<le> k \<and> k < off + length buf then buf ! (k - off) else if k < length d then d ! k else CHR 0x00)"
  using assms by (auto simp: put_bytes_def nth_append min_def)

lemma length_put_bytes: "length (put_bytes d off buf) = (if buf = [] then length d else max (length d) (off + length buf))"
  by (auto simp: put_bytes_def)

subsection \<open>truncate\<close>

lemma sys_truncate_file:
  assumes "wf_fs s" "resolve s p = Inr cp" "view s cp = Some (File d t)" "0 \<le> n"
  shows "\<exists>s'. sys_truncate s p n = (s', Inr ()) \<and> wf_fs s'
    \<and> view s' = (view s)(cp \<mapsto> File (resize d (nat n)) (fs_now s)) \<and> fs_next_fd s' = fs_next_fd s"
proof -
  obtain i where i: "node s cp = Some i" "\<not> i_isdir (fs_inodes s i)" "i_data (fs_inodes s i) = d"
    using view_file_node[OF assms(3)] .
  then show ?thesis
    using view_set_data[OF assms(1) i(1,2)] assms
    by (auto simp: sys_truncate_def) (simp add: set_data_def)
qed

lemma sys_ftruncate_at:
  assumes "wf_fs s" "fd_at s fd cp fl" "view s cp = Some (File d t)" "o_write fl" "0 \<le> n"
  shows "\<exists>s'. sys_ftruncate s fd n = (s', Inr ()) \<and> wf_fs s'
    \<and> view s' = (view s)(cp \<mapsto> File (resize d (nat n)) (fs_now s)) \<and> fs_next_fd s' = fs_next_fd s"
proof -
  obtain i where i: "node s cp = Some i" "\<not> i_isdir (fs_inodes s i)" "i_data (fs_inodes s i) = d"
    using view_file_node[OF assms(3)] .
  then show ?thesis
    using view_set_data[OF assms(1) i(1,2)] assms
    by (auto simp: sys_ftruncate_def fd_at_def) (simp add: set_data_def)
qed

end
