(* ===== verification/Client_Cache.thy ===== *)
theory Client_Cache
  imports Client Posix_Files
begin

section \<open>The client's cache and tables\<close>

text \<open>
  How the members of \<^verbatim>\<open>afs_data_t\<close> react to the steps of the callbacks, and the cache directory as a
  map from paths to file contents: what opening, filling, reading, writing and closing a cache file
  does to it.
\<close>

subsection \<open>The tables\<close>

abbreviation key :: "client_env \<Rightarrow> string \<Rightarrow> string" where
  "key e path \<equiv> hashpath (sha256 e) path"

lemma digest_env [simp]: "digest (dirty_env e) = sha256 e" "digest (time_env e) = sha256 e"
  by (simp_all add: dirty_env_def time_env_def)

lemma dirty_frame [simp]:
  "cfs (dirty_set e c p b) = cfs c" "cache_root (dirty_set e c p b) = cache_root c"
  "last_modified (dirty_set e c p b) = last_modified c"
  "last_modified_files (dirty_set e c p b) = last_modified_files c"
  "cfs (dirty_erase e c p) = cfs c" "cache_root (dirty_erase e c p) = cache_root c"
  "last_modified (dirty_erase e c p) = last_modified c"
  "last_modified_files (dirty_erase e c p) = last_modified_files c"
  by (simp_all add: dirty_set_def dirty_erase_def split: prod.splits)

lemma time_frame [simp]:
  "cfs (time_set e c p v) = cfs c" "cache_root (time_set e c p v) = cache_root c"
  "is_dirty (time_set e c p v) = is_dirty c" "is_dirty_files (time_set e c p v) = is_dirty_files c"
  "cfs (time_erase e c p) = cfs c" "cache_root (time_erase e c p) = cache_root c"
  "is_dirty (time_erase e c p) = is_dirty c" "is_dirty_files (time_erase e c p) = is_dirty_files c"
  by (simp_all add: time_set_def time_erase_def split: prod.splits)

lemma dirty_get_after [simp]:
  "dirty_get e (dirty_set e c p b) q = (if key e q = key e p then b else dirty_get e c q)"
  "dirty_get e (dirty_erase e c p) q = (if key e q = key e p then False else dirty_get e c q)"
  using is_dirty_set_table[of "dirty_env e" "is_dirty c" p b]
    is_dirty_erase_table[of "dirty_env e" "is_dirty c" p]
  by (auto simp: dirty_get_def dirty_set_def dirty_erase_def is_dirty_get_def Let_def split: prod.splits)

lemma time_get_after [simp]:
  "time_get e (time_set e c p v) q = (if key e q = key e p then v else time_get e c q)"
  using last_modified_set_table[of "time_env e" "last_modified c" p v]
  by (auto simp: time_get_def time_set_def last_modified_get_def Let_def split: prod.splits)

lemma time_count_after [simp]:
  "time_count e (time_set e c p v) q = (if key e q = key e p then 1 else time_count e c q)"
  "time_count e (time_erase e c p) q = (if key e q = key e p then 0 else time_count e c q)"
  using last_modified_set_table[of "time_env e" "last_modified c" p v]
    last_modified_erase_table[of "time_env e" "last_modified c" p]
  by (auto simp: time_count_def time_set_def time_erase_def last_modified_count_def split: prod.splits)

lemma time_get_erased [simp]:
  "key e q \<noteq> key e p \<Longrightarrow> time_get e (time_erase e c p) q = time_get e c q"
  using last_modified_erase_table[of "time_env e" "last_modified c" p]
  by (auto simp: time_get_def time_erase_def last_modified_get_def Let_def split: prod.splits)

lemma table_gets [simp]:
  "dirty_get e (time_set e c p v) q = dirty_get e c q" "dirty_get e (time_erase e c p) q = dirty_get e c q"
  "dirty_get e (c\<lparr>cfs := s\<rparr>) q = dirty_get e c q"
  "time_get e (dirty_set e c p b) q = time_get e c q" "time_get e (dirty_erase e c p) q = time_get e c q"
  "time_get e (c\<lparr>cfs := s\<rparr>) q = time_get e c q"
  "time_count e (dirty_set e c p b) q = time_count e c q" "time_count e (dirty_erase e c p) q = time_count e c q"
  "time_count e (c\<lparr>cfs := s\<rparr>) q = time_count e c q"
  by (simp_all add: dirty_get_def time_get_def time_count_def)

lemma time_not_local [simp]: "timespec_bytes t \<noteq> LOCAL_CREAT_FILE"
proof
  assume "timespec_bytes t = LOCAL_CREAT_FILE"
  then have "length (timespec_bytes t) = length LOCAL_CREAT_FILE" by (rule arg_cong)
  then show False by simp
qed

subsection \<open>The cache directory\<close>

text \<open>
  The cache directory is a directory whose names of 64 characters are files; descriptors fit an
  \<^verbatim>\<open>int\<close>.
\<close>

definition cache_dir :: "fs \<Rightarrow> string \<Rightarrow> string list \<Rightarrow> bool" where
  "cache_dir s root base \<longleftrightarrow>
     wf_fs s \<and> (\<exists>r. root = r @ ''/'') \<and> resolve s root = Inr base \<and> is_dir s base
     \<and> (\<forall>w. length w = 64 \<longrightarrow> \<not> is_dir s (base @ [w])) \<and> 0 \<le> fs_next_fd s"

definition cache_ok :: "client \<Rightarrow> string list \<Rightarrow> bool" where
  "cache_ok c base \<longleftrightarrow> cache_dir (cfs c) (cache_root c) base"

text \<open>The entry of a path in the cache.\<close>

definition cached :: "client_env \<Rightarrow> client \<Rightarrow> string list \<Rightarrow> string \<Rightarrow> entry option" where
  "cached e c base path = view (cfs c) (base @ [key e path])"

lemma path_comps_key: "path_comps (hashpath sha p) = [hashpath sha p]"
  using path_comps_plain[OF slash_not_in_hashpath[of sha p]] length_hashpath[of sha p]
  by (metis list.size(3) zero_neq_numeral)

lemma key_not_dots: "hashpath sha p \<noteq> ''.''" "hashpath sha p \<noteq> ''..''"
  using length_hashpath[of sha p] by (auto dest!: arg_cong[where f = length])

definition table_paths :: "string \<Rightarrow> string set" where
  "table_paths root = {is_dirty_snapshot_path root, is_dirty_log_path root,
     last_modified_snapshot_path root, last_modified_log_path root}"

text \<open>
  C36: the name of a cache file is 64 hexadecimal digits, so it is one name of the cache directory and
  none of the four table files (which are named with the directory as given, a slash added or not);
  the server names the file the same way, and two paths share a cache file only if their digests
  collide.
\<close>

theorem cache_names_apart:
  assumes "\<And>x. length (sha x) = 32"
  shows "length (hashpath sha p) = 64 \<and> set (hashpath sha p) \<subseteq> set ''0123456789abcdef''
    \<and> path_comps (hashpath sha p) = [hashpath sha p] \<and> hashpath sha p = hashFilepath sha (c_str p)
    \<and> cachepath sha root p \<notin> table_paths root \<and> cachepath sha (root @ ''/'') p \<notin> table_paths root
    \<and> (cachepath sha root p = cachepath sha root q \<longleftrightarrow> sha (c_str p) = sha (c_str q))"
proof -
  have hex: "set (hashpath sha p) \<subseteq> set ''0123456789abcdef''"
    using set_digest_hex unfolding hashpath_def hex_chars_def .
  have "hashpath sha p \<noteq> x" if "length x \<noteq> 64" for x
    using that length_hashpath[of sha p] by blast
  then have "cachepath sha root p \<notin> table_paths root \<and> cachepath sha (root @ ''/'') p \<notin> table_paths root"
    by (simp add: table_paths_def cachepath_def is_dirty_snapshot_path_def is_dirty_log_path_def
        last_modified_snapshot_path_def last_modified_log_path_def)
  moreover have "cachepath sha root p = cachepath sha root q \<longleftrightarrow> sha (c_str p) = sha (c_str q)"
    using digest_hex_inject assms by (simp add: cachepath_def hashpath_def)
  moreover have "hashpath sha p = hashFilepath sha (c_str p)"
    by (simp add: hashpath_def hashFilepath_def)
  ultimately show ?thesis
    using hex path_comps_key[of sha p] length_hashpath[of sha p] by blast
qed

theorem cache_names_witness:
  "cachepath (\<lambda>s. take 32 (s @ replicate 32 (CHR 0x00))) ''/tmp/'' ''/f''
     \<noteq> cachepath (\<lambda>s. take 32 (s @ replicate 32 (CHR 0x00))) ''/tmp/'' ''/g''"
  using cache_names_apart[of "\<lambda>s. take 32 (s @ replicate 32 (CHR 0x00))" "''/f''" "''/tmp/''" "''/g''"]
  by (simp add: c_str_def)

lemma resolve_key:
  assumes "cache_dir s root base"
  shows "resolve s (root @ hashpath sha p) = Inr (base @ [hashpath sha p])"
proof -
  obtain r where r: "root = r @ ''/''"
    using assms by (auto simp: cache_dir_def)
  have "path_comps (root @ hashpath sha p) = path_comps r @ [hashpath sha p]"
    using path_comps_slash[of r "hashpath sha p"] by (simp add: r path_comps_key)
  moreover have "path_comps r = path_comps root"
    using path_comps_slash[of r "[]"] by (simp add: r path_comps_def)
  moreover have "walk s [] (path_comps root) = Inr base" "is_dir s base"
    using assms by (auto simp: cache_dir_def resolve_def split: if_splits)
  ultimately show ?thesis
    by (simp add: resolve_def walk_append r key_not_dots)
qed

lemma resolve_cache_file:
  "cache_ok c base \<Longrightarrow> resolve (cfs c) (cache_file e c p) = Inr (base @ [key e p])"
  by (simp add: cache_ok_def cache_file_def cachepath_def resolve_key)

lemma cache_no_dir:
  "cache_dir s root base \<Longrightarrow> \<not> is_dir s (base @ [hashpath sha p])"
  by (simp add: cache_dir_def)

lemma cached_file:
  "cache_ok c base \<Longrightarrow> cached e c base p = Some x \<Longrightarrow> \<exists>d t. x = File d t"
  using cache_no_dir[of "cfs c" "cache_root c" base "sha256 e" p]
  by (cases x) (auto simp: cached_def cache_ok_def is_dir_view)

text \<open>Steps that touch one file of the directory only.\<close>

lemma cache_dir_slot:
  assumes "cache_dir s root base" "wf_fs s'" "0 \<le> fs_next_fd s'"
    and "view s' = (view s)(base @ [w] := x)" "length w = 64" "x \<noteq> Some Folder"
  shows "cache_dir s' root base"
proof -
  have d: "is_dir s' q = is_dir s q" for q
    using assms(1,4-6) by (auto simp: is_dir_view cache_dir_def)
  then show ?thesis
    using assms(1-3) resolve_dirs[OF d] by (simp add: cache_dir_def)
qed

lemma cache_dir_step:
  assumes "cache_dir s root base" "wf_fs s'" "0 \<le> fs_next_fd s'"
    and "view s' = (view s)(base @ [hashpath sha p] := x)" "x \<noteq> Some Folder"
  shows "cache_dir s' root base"
  using cache_dir_slot[OF assms(1-4) _ assms(5)] by simp

lemma cache_dir_same:
  assumes "cache_dir s root base" "wf_fs s'" "0 \<le> fs_next_fd s'" "view s' = view s"
  shows "cache_dir s' root base"
  using assms resolve_view[OF assms(4)] by (simp add: cache_dir_def is_dir_view)

lemma cache_ok_tables [simp]:
  "cache_ok (dirty_set e c p b) base = cache_ok c base" "cache_ok (dirty_erase e c p) base = cache_ok c base"
  "cache_ok (time_set e c p v) base = cache_ok c base" "cache_ok (time_erase e c p) base = cache_ok c base"
  by (simp_all add: cache_ok_def)

lemma cached_tables [simp]:
  "cached e (dirty_set e c p b) base q = cached e c base q" "cached e (dirty_erase e c p) base q = cached e c base q"
  "cached e (time_set e c p v) base q = cached e c base q" "cached e (time_erase e c p) base q = cached e c base q"
  by (simp_all add: cached_def)

lemma cache_file_simps [simp]:
  "cache_file e (dirty_set e c p b) q = cache_file e c q" "cache_file e (dirty_erase e c p) q = cache_file e c q"
  "cache_file e (time_set e c p v) q = cache_file e c q" "cache_file e (time_erase e c p) q = cache_file e c q"
  "cache_file e (c\<lparr>cfs := s\<rparr>) q = cache_file e c q"
  by (simp_all add: cache_file_def)

subsection \<open>Filling and removing cache files\<close>

lemma ofstream_store_cache:
  assumes "cache_ok c base"
  shows "cache_ok (c\<lparr>cfs := ofstream_store (cfs c) (cache_file e c p) d\<rparr>) base
    \<and> view (ofstream_store (cfs c) (cache_file e c p) d)
        = (view (cfs c))(base @ [key e p] \<mapsto> File d (fs_now (cfs c)))
    \<and> fs_next_fd (ofstream_store (cfs c) (cache_file e c p) d) = fs_next_fd (cfs c)"
proof -
  note r = resolve_cache_file[OF assms, of e p]
  have dir: "cache_dir (cfs c) (cache_root c) base"
    using assms by (simp add: cache_ok_def)
  have nd: "\<not> is_dir (cfs c) (base @ [key e p])"
    by (rule cache_no_dir[OF dir])
  have wf: "wf_fs (cfs c)" "0 \<le> fs_next_fd (cfs c)"
    using dir by (auto simp: cache_dir_def)
  obtain s i where op: "ofstream_open (cfs c) (cache_file e c p) = (s, Inr i)"
    using ofstream_open_succeeds[OF r nd] by blast
  note w = ofstream_write[OF wf(1) r nd op, of d]
  have fd: "fs_next_fd (stream_write s i d) = fs_next_fd (cfs c)"
    using op by (auto simp: ofstream_open_def open_node_def stream_write_def set_data_def create_node_def
        split: sum.splits option.splits if_splits)
  show ?thesis
    using cache_dir_step[OF dir w(1) _ w(2)] w(2) fd wf(2) op
    by (simp add: ofstream_store_def cache_ok_def)
qed

lemma unlink_cache:
  assumes "cache_ok c base"
  shows "cache_ok (c\<lparr>cfs := fst (sys_unlink (cfs c) (cache_file e c p))\<rparr>) base
    \<and> view (fst (sys_unlink (cfs c) (cache_file e c p))) = (view (cfs c))(base @ [key e p] := None)
    \<and> fs_next_fd (fst (sys_unlink (cfs c) (cache_file e c p))) = fs_next_fd (cfs c)"
proof -
  let ?s = "fst (sys_unlink (cfs c) (cache_file e c p))"
  note r = resolve_cache_file[OF assms, of e p]
  have dir: "cache_dir (cfs c) (cache_root c) base"
    using assms by (simp add: cache_ok_def)
  have wf: "wf_fs (cfs c)" "0 \<le> fs_next_fd (cfs c)"
    using dir by (auto simp: cache_dir_def)
  have v: "view ?s = (view (cfs c))(base @ [key e p] := None)"
  proof (cases "node (cfs c) (base @ [key e p])")
    case None
    then have "view (cfs c) (base @ [key e p]) = None"
      by (simp add: node_view)
    with None show ?thesis using r by (simp add: sys_unlink_def fun_upd_idem)
  next
    case (Some i)
    then show ?thesis
      using r cache_no_dir[OF dir, of "sha256 e" p] view_drop[of "cfs c" "base @ [key e p]"]
      by (simp add: sys_unlink_def is_dir_inode drop_name_def)
  qed
  have fd: "fs_next_fd ?s = fs_next_fd (cfs c)"
    by (simp add: sys_unlink_def split: sum.splits option.splits)
  show ?thesis
    using cache_dir_step[OF dir wf_unlink[OF wf(1)] _ v] v fd wf(2) by (simp add: cache_ok_def)
qed

text \<open>Creating an empty cache file where there is none, as \<^verbatim>\<open>creat\<close> and \<^verbatim>\<open>mknod\<close> do.\<close>

lemma create_cache:
  assumes "cache_ok c base" "cached e c base p = None" "o_creat fl"
  shows "\<exists>s. sys_open (cfs c) (cache_file e c p) fl mode = (s, Inr (fs_next_fd (cfs c)))
    \<and> snd (sys_close s (fs_next_fd (cfs c))) = Inr ()
    \<and> cache_ok (c\<lparr>cfs := fst (sys_close s (fs_next_fd (cfs c)))\<rparr>) base
    \<and> view s = (view (cfs c))(base @ [key e p] \<mapsto> File [] (fs_now (cfs c)))
    \<and> fs_next_fd s = fs_next_fd (cfs c) + 1"
proof -
  have dir: "cache_dir (cfs c) (cache_root c) base"
    using assms(1) by (simp add: cache_ok_def)
  have wf: "wf_fs (cfs c)" "0 \<le> fs_next_fd (cfs c)"
    using dir by (auto simp: cache_dir_def)
  obtain s where s: "sys_open (cfs c) (cache_file e c p) fl mode = (s, Inr (fs_next_fd (cfs c)))"
    "fs_fds s (fs_next_fd (cfs c)) \<noteq> None"
    "view s = (view (cfs c))(base @ [key e p] \<mapsto> File [] (fs_now (cfs c)))" "wf_fs s"
    "fs_next_fd s = fs_next_fd (cfs c) + 1"
    using sys_open_create[OF wf(1) resolve_cache_file[OF assms(1)] _ assms(3), of e p mode] assms(2)
    unfolding cached_def by blast
  have "cache_dir (fst (sys_close s (fs_next_fd (cfs c)))) (cache_root c) base"
    by (rule cache_dir_step[OF dir wf_sys_close[OF s(4)], where sha = "sha256 e" and p = p
          and x = "Some (File [] (fs_now (cfs c)))"])
      (use s wf(2) in simp_all)
  then show ?thesis
    using s sys_close_open[OF s(2)] by (simp add: cache_ok_def)
qed

lemma close_creat_cache:
  assumes "cache_ok c base" "cached e c base p = None"
  shows "cache_ok (c\<lparr>cfs := close_creat (cfs c) (cache_file e c p) mode\<rparr>) base
    \<and> view (close_creat (cfs c) (cache_file e c p) mode)
        = (view (cfs c))(base @ [key e p] \<mapsto> File [] (fs_now (cfs c)))
    \<and> fs_next_fd (close_creat (cfs c) (cache_file e c p) mode) = fs_next_fd (cfs c) + 1"
  using create_cache[OF assms, of "O_WRONLY\<lparr>o_creat := True, o_trunc := True\<rparr>" mode]
  by (auto simp: close_creat_def)

subsection \<open>Descriptors of cache files\<close>

lemma fd_of_fh: "0 \<le> fd \<Longrightarrow> fd < 2 ^ 31 \<Longrightarrow> fd_of (fi\<lparr>fh := fh_of (Inr fd)\<rparr>) = fd"
proof -
  assume "0 \<le> fd" "fd < 2 ^ 31"
  then have "take_bit 64 fd = fd"
    by (intro take_bit_int_eq_self) simp_all
  then have "(ucast (word_of_int fd :: 64 word) :: 32 word) = word_of_int fd"
    using \<open>0 \<le> fd\<close> by (simp add: unsigned_of_int of_nat_nat)
  moreover have "sint (word_of_int fd :: 32 word) = fd"
    using \<open>0 \<le> fd\<close> \<open>fd < 2 ^ 31\<close> by (simp add: signed_of_int signed_take_bit_int_eq_self)
  ultimately show ?thesis
    by (simp add: fd_of_def fh_of_def)
qed

text \<open>\<open>fi\<close> holds a descriptor of the path's cache file, opened with these flags.\<close>

definition open_on :: "client_env \<Rightarrow> client \<Rightarrow> string list \<Rightarrow> string \<Rightarrow> fuse_file_info \<Rightarrow> bool" where
  "open_on e c base path fi \<longleftrightarrow> fd_at (cfs c) (fd_of fi) (base @ [key e path]) (flags fi)"

lemma open_cache_file_ok:
  assumes "cache_ok c base" "cached e c base p = Some (File d t)" "plain_flags (flags fi)"
    and "fs_next_fd (cfs c) < 2 ^ 31"
  shows "\<exists>s fi'. open_cache_file e c w p fi = Ret (0, fi') (c\<lparr>cfs := s\<rparr>) w \<and> flags fi' = flags fi
    \<and> cache_ok (c\<lparr>cfs := s\<rparr>) base \<and> view s = view (cfs c) \<and> fs_now s = fs_now (cfs c)
    \<and> open_on e (c\<lparr>cfs := s\<rparr>) base p fi'"
proof -
  have dir: "cache_dir (cfs c) (cache_root c) base"
    using assms(1) by (simp add: cache_ok_def)
  have wf: "wf_fs (cfs c)" "0 \<le> fs_next_fd (cfs c)"
    using dir by (auto simp: cache_dir_def)
  obtain s where s: "sys_open (cfs c) (cache_file e c p) (flags fi) 0 = (s, Inr (fs_next_fd (cfs c)))"
    "view s = view (cfs c)" "fd_at s (fs_next_fd (cfs c)) (base @ [key e p]) (flags fi)"
    "fs_now s = fs_now (cfs c)" "fs_next_fd s = fs_next_fd (cfs c) + 1" "wf_fs s"
    using sys_open_existing[OF resolve_cache_file[OF assms(1)] _ assms(3), of e p d t] assms(2) wf(1)
    unfolding cached_def by blast
  have nonneg: "\<not> uint x < 0" for x :: "64 word"
    by (simp add: not_less)
  show ?thesis
    using s wf(2) fd_of_fh[OF wf(2) assms(4)] cache_dir_same[OF dir s(6) _ s(2)]
    by (intro exI[of _ s] exI[of _ "fi\<lparr>fh := fh_of (Inr (fs_next_fd (cfs c)))\<rparr>"])
      (simp add: open_cache_file_def Let_def nonneg open_on_def cache_ok_def)
qed

lemma afs_read_open:
  assumes "open_on e c base p fi" "cached e c base p = Some (File d t)" "o_read (flags fi)" "0 \<le> off"
  shows "afs_read c w p n off fi
    = Ret (int_of_ssize (length (take n (drop (nat off) d))), take n (drop (nat off) d)) c w"
  using sys_pread_at[of "cfs c" "fd_of fi" "base @ [key e p]" "flags fi" d t off n] assms
  by (simp add: open_on_def cached_def afs_read_def del: take_drop)

lemma int_of_ssize_id: "n < 2 ^ 31 \<Longrightarrow> int_of_ssize n = int n"
  by (simp add: int_of_ssize_def signed_of_nat signed_take_bit_int_eq_self)

end
