(* ===== verification/Client_Tables.thy ===== *)
theory Client_Tables
  imports Client_Cache
begin

section \<open>The client's tables and their files\<close>

text \<open>
  When the files of both tables are in step with the objects in memory, what keeps them so, and what
  the constructor makes of them after a restart.
\<close>

definition tables_synced :: "client \<Rightarrow> bool" where
  "tables_synced c \<longleftrightarrow>
     is_dirty_synced (is_dirty c) (is_dirty_files c) \<and> last_modified_synced (last_modified c) (last_modified_files c)"

text \<open>
  Files of the cache directory can be written, and the loops over the maps visit every entry.  A time
  that can be stored has sixteen bytes and is not the mark of an erasure.
\<close>

definition durable_env :: "client_env \<Rightarrow> bool" where
  "durable_env e \<longleftrightarrow> can_write e \<and> visits_all (dirty_env e) \<and> visits_all (time_env e)"

definition good_stamp :: "string \<Rightarrow> bool" where
  "good_stamp v \<longleftrightarrow> length v = 16 \<and> v \<noteq> erased_mark"

lemma tables_synced_cfs [simp]: "tables_synced (c\<lparr>cfs := s\<rparr>) = tables_synced c"
  by (simp add: tables_synced_def)

lemma durable_writable: "durable_env e \<Longrightarrow> writable (dirty_env e) \<and> writable (time_env e)"
  by (simp add: durable_env_def) (simp add: dirty_env_def time_env_def)

lemma tables_synced_dirty_set:
  assumes "durable_env e" "tables_synced c"
  shows "tables_synced (dirty_set e c p b)"
proof -
  obtain obj ops where "is_dirty_set (dirty_env e) (is_dirty c) p b = (obj, ops)"
    by (cases "is_dirty_set (dirty_env e) (is_dirty c) p b")
  then show ?thesis
    using is_dirty_set_cases[of "is_dirty c" "is_dirty_files c" "dirty_env e" p b obj ops] assms
      durable_writable[OF assms(1)]
    by (simp add: tables_synced_def dirty_set_def durable_env_def)
qed

lemma tables_synced_dirty_erase: "tables_synced c \<Longrightarrow> tables_synced (dirty_erase e c p)"
  using is_dirty_erase_cases[of "is_dirty c" "is_dirty_files c" "dirty_env e" p]
  by (cases "is_dirty_erase (dirty_env e) (is_dirty c) p") (simp add: tables_synced_def dirty_erase_def)

lemma tables_synced_time_erase: "tables_synced c \<Longrightarrow> tables_synced (time_erase e c p)"
  using last_modified_erase_synced[of "last_modified c" "last_modified_files c" "time_env e" p]
  by (cases "last_modified_erase (time_env e) (last_modified c) p") (simp add: tables_synced_def time_erase_def)

lemma tables_synced_time_set:
  assumes "durable_env e" "tables_synced c" "good_stamp v"
  shows "tables_synced (time_set e c p v)"
proof -
  obtain obj ops where "last_modified_set (time_env e) (last_modified c) p v = (obj, ops)"
    by (cases "last_modified_set (time_env e) (last_modified c) p v")
  then show ?thesis
    using last_modified_set_synced[of "last_modified c" "last_modified_files c" v "time_env e" p obj ops]
      durable_writable[OF assms(1)] assms
    by (simp add: tables_synced_def time_set_def durable_env_def good_stamp_def)
qed

subsection \<open>Starting again\<close>

text \<open>The constructor reads back the tables of a client whose files were in step with its objects.\<close>

lemma restart_reads_back:
  assumes "cache_ok c cb" "is_dirty_synced (is_dirty c) (is_dirty_files c)"
    and "last_modified_synced (last_modified c) (last_modified_files c)" "can_write e"
  shows "\<exists>c2. restart e ct cd c = Some c2 \<and> cache_ok c2 cb \<and> cfs c2 = (cfs c)\<lparr>fs_fds := (\<lambda>_. None)\<rparr>
    \<and> (\<forall>q. dirty_get e c2 q = dirty_get e c q \<and> time_get e c2 q = time_get e c q
          \<and> time_count e c2 q = time_count e c q)
    \<and> is_dirty_synced (is_dirty c2) (is_dirty_files c2)
    \<and> last_modified_synced (last_modified c2) (last_modified_files c2)"
proof -
  obtain t1 where "load_files (last_modified_read fresh_ts) (last_modified_files c) = Some t1"
    using mtime_load assms(3) unfolding last_modified_synced_def by blast
  then obtain lm lf where lm: "last_modified_new True ct (last_modified_files c) = Some (lm, lf)"
    by (simp add: last_modified_new_def)
  obtain t2 where "load_files is_dirty_read (is_dirty_files c) = Some t2"
    using dirty.holds_load assms(2) unfolding is_dirty_synced_def by blast
  then obtain di df where di: "is_dirty_new True cd (is_dirty_files c) = Some (di, df)"
    by (simp add: is_dirty_new_def)
  have l: "last_modified_synced lm lf" "map_of (table lm) = map_of (table (last_modified c))"
    using last_modified_new_synced[OF lm assms(3)] by blast+
  have dk: "dirty.holds (is_dirty_files c) (table (is_dirty c))"
    "\<forall>k. map_of (table (is_dirty c)) k \<noteq> None \<longrightarrow> hash_key k"
    using assms(2) unfolding is_dirty_synced_def by blast+
  have d: "is_dirty_synced di df" "map_of (table di) = map_of (table (is_dirty c))"
    using is_dirty_new_synced[OF di dk] by blast+
  have root: "last (cache_root c) = CHR ''/''"
    using assms(1) by (auto simp: cache_ok_def cache_dir_def)
  let ?c2 = "\<lparr>cache_root = cache_root c, last_modified = lm, is_dirty = di, last_modified_files = lf,
    is_dirty_files = df, cfs = (cfs c)\<lparr>fs_fds := (\<lambda>_. None)\<rparr>\<rparr>"
  have "cache_dir ((cfs c)\<lparr>fs_fds := (\<lambda>_. None)\<rparr>) (cache_root c) cb"
    by (rule cache_dir_same[of "cfs c"]) (use assms(1) in \<open>auto simp: cache_ok_def cache_dir_def wf_fs_def\<close>)
  moreover have "restart e ct cd c = Some ?c2"
    using lm di assms(4) root by (simp add: restart_def afs_data_new_def)
  ultimately show ?thesis
    using l d by (intro exI[of _ ?c2])
      (simp add: cache_ok_def dirty_get_def time_get_def time_count_def is_dirty_get_def last_modified_get_def
        last_modified_count_def)
qed

end
