(* ===== verification/Open_Files.thy ===== *)
theory Open_Files
  imports Client_Cache
begin

section \<open>Open descriptors and the cache directory\<close>

text \<open>
  Which names the open descriptors lead to.  The calls of the callbacks never give a descriptor that
  is open a name it did not have: files are made at fresh inodes, and only \<^verbatim>\<open>open\<close> links a new
  descriptor, to the name it was asked for.
\<close>

definition links :: "fs \<Rightarrow> int \<Rightarrow> string list \<Rightarrow> bool" where
  "links s fd q \<longleftrightarrow> (\<exists>f. fs_fds s fd = Some f \<and> node s q = Some (of_ino f))"

definition no_new_links :: "fs \<Rightarrow> fs \<Rightarrow> bool" where
  "no_new_links s s' \<longleftrightarrow> (\<forall>fd q. links s' fd q \<longrightarrow> links s fd q)"

named_theorems link_intros \<open>calls that link no descriptor\<close>

lemma no_new_links_refl [simp, link_intros]: "no_new_links s s"
  by (simp add: no_new_links_def)

lemma no_new_links_trans: "no_new_links s s' \<Longrightarrow> no_new_links s' s'' \<Longrightarrow> no_new_links s s''"
  by (simp add: no_new_links_def)

lemma links_set_data [simp]: "links (set_data s i d) = links s"
  by (intro ext, simp add: links_def, simp add: set_data_def)

lemma no_new_links_close [link_intros]: "no_new_links s (fst (sys_close s fd))"
  by (simp add: no_new_links_def links_def) (simp add: sys_close_def)

lemma no_new_links_drop: "no_new_links s (drop_name s cp)"
proof -
  have "fs_fds (drop_name s cp) = fs_fds s" by (simp add: drop_name_def)
  moreover have "node (drop_name s cp) q = Some i \<Longrightarrow> node s q = Some i" for q i
    by (simp add: node_drop split: if_splits)
  ultimately show ?thesis unfolding no_new_links_def links_def by metis
qed

lemma no_new_links_unlink [link_intros]: "no_new_links s (fst (sys_unlink s p))"
  by (simp add: sys_unlink_def no_new_links_drop drop_name_def[symmetric] split: sum.splits option.splits)

lemma no_new_links_create:
  assumes "wf_fs s" "node s cp = None"
  shows "no_new_links s (create_node s cp d mode)"
proof -
  have "of_ino f \<noteq> fs_next s" if "fs_fds s fd = Some f" for fd f
  proof -
    have "\<forall>fd f. fs_fds s fd = Some f \<longrightarrow> of_ino f < fs_next s \<and> fd < fs_next_fd s"
      using assms(1) unfolding wf_fs_def by (elim conjE)
    then show ?thesis using that by fastforce
  qed
  moreover have "fs_fds (create_node s cp d mode) = fs_fds s"
    by (simp add: create_node_def)
  ultimately show ?thesis
    unfolding no_new_links_def links_def by (metis fun_upd_apply node_create[OF assms(2)] option.inject)
qed

lemma no_new_links_node:
  assumes "wf_fs s" "open_node s p fl mode = (s', Inr i)"
  shows "no_new_links s s'"
  using assms(2)
proof (cases rule: open_node_cases)
  case (created cp)
  then show ?thesis using no_new_links_create[OF assms(1)] by simp
qed (auto simp: no_new_links_def)

lemma no_new_links_store [link_intros]:
  assumes "wf_fs s"
  shows "no_new_links s (ofstream_store s p d)"
proof (cases "ofstream_open s p")
  case (Pair s' r)
  show ?thesis
  proof (cases r)
    case (Inl e)
    then show ?thesis
      using Pair by (auto simp: ofstream_store_def ofstream_open_def dest: open_node_error)
  next
    case (Inr i)
    then have "no_new_links s s'"
      using Pair no_new_links_node[OF assms] by (auto simp: ofstream_open_def)
    then show ?thesis
      using Pair Inr by (auto simp: ofstream_store_def stream_write_def no_new_links_def)
  qed
qed

lemma node_fd_update [simp]: "node (s\<lparr>fs_fds := g, fs_next_fd := n\<rparr>) q = node s q"
  by (simp add: node_def)

lemma sys_open_links:
  assumes "wf_fs s" "sys_open s p fl mode = (s', r)" "links s' fd q" "fd \<noteq> fs_next_fd s"
  shows "links s fd q"
proof (cases "open_node s p fl mode")
  case (Pair s1 x)
  show ?thesis
  proof (cases x)
    case (Inl e)
    then have "s' = s1" using assms(2) Pair by (simp add: sys_open_def)
    then show ?thesis using assms(3) Pair Inl by (auto dest: open_node_error)
  next
    case (Inr i)
    have n: "fs_next_fd s1 = fs_next_fd s"
      using Pair Inr by (auto elim!: open_node_cases simp: create_node_def set_data_def)
    then have "links s1 fd q"
      using assms(2-4) Pair Inr by (auto simp: sys_open_def links_def)
    then show ?thesis
      using no_new_links_node[OF assms(1)] Pair Inr by (auto simp: no_new_links_def)
  qed
qed

text \<open>Making a file and closing it again, as \<^verbatim>\<open>mknod\<close> does.\<close>

lemma no_new_links_made:
  assumes "wf_fs s" "sys_open s p fl mode = (s1, Inr fd)"
  shows "no_new_links s (fst (sys_close s1 fd))"
proof -
  have fd: "fd = fs_next_fd s" "fs_fds s1 fd \<noteq> None"
    using assms(2) by (auto simp: sys_open_def create_node_def set_data_def elim!: open_node_cases
        split: prod.splits sum.splits)
  have "links s fd' q" if l: "links (fst (sys_close s1 fd)) fd' q" for fd' q
  proof -
    have "fd' \<noteq> fd" using l fd(2) by (auto simp: links_def sys_close_def)
    moreover have "links s1 fd' q"
      using l no_new_links_close[of s1 fd] by (simp add: no_new_links_def)
    ultimately show ?thesis
      using sys_open_links[OF assms] fd(1) by simp
  qed
  then show ?thesis by (simp add: no_new_links_def)
qed

subsection \<open>Writing through a descriptor\<close>

lemma view_set_data_unlinked:
  assumes "\<And>q. node s q \<noteq> Some i"
  shows "view (set_data s i d) = view s"
proof (rule ext)
  fix q
  have "node s q \<noteq> Some i" by (rule assms)
  then show "view (set_data s i d) q = view s q"
    by (cases "node s q") (simp_all add: view_def, simp add: set_data_def)
qed

text \<open>
  A write through a descriptor that leads at most to \<open>cp\<close> changes at most the file at \<open>cp\<close>.
\<close>

lemma sys_pwrite_frame:
  assumes wf: "wf_fs s" and only: "\<And>q. links s fd q \<Longrightarrow> q = cp" and nd: "\<not> is_dir s cp"
    and w: "sys_pwrite s fd buf off = (s', r)"
  shows "wf_fs s' \<and> fs_next_fd s' = fs_next_fd s \<and> links s' = links s
    \<and> (view s' = view s \<or> (\<exists>d t d' t'. view s cp = Some (File d t) \<and> view s' = (view s)(cp \<mapsto> File d' t')))"
proof (cases "s' = s")
  case False
  then obtain f d' where f: "fs_fds s fd = Some f" "s' = set_data s (of_ino f) d'"
    using w by (auto simp: sys_pwrite_def Let_def split: option.splits if_splits)
  have l: "links s' = links s" "wf_fs s'" "fs_next_fd s' = fs_next_fd s"
    using f wf by simp_all (simp add: set_data_def)
  show ?thesis
  proof (cases "node s cp = Some (of_ino f)")
    case True
    then have "\<not> i_isdir (fs_inodes s (of_ino f))"
      using nd by (simp add: is_dir_inode)
    from view_set_data[OF wf True this, of d'] l f(2) True this show ?thesis
      by (auto simp: view_def entry_of_def)
  next
    case no: False
    have "node s q \<noteq> Some (of_ino f)" for q
      using only[of q] no f(1) by (auto simp: links_def)
    then show ?thesis
      using view_set_data_unlinked l f(2) by metis
  qed
qed (use wf in simp)

subsection \<open>Opening a cache file\<close>

lemma fd_at_links: "fd_at s fd cp fl \<Longrightarrow> links s fd cp"
  by (auto simp: fd_at_def links_def)

lemma links_unique: "wf_fs s \<Longrightarrow> links s fd q \<Longrightarrow> links s fd q' \<Longrightarrow> q = q'"
  by (auto simp: links_def dest: node_inj)

lemma sys_open_fd: "sys_open s p fl mode = (s', Inr fd) \<Longrightarrow> fd = fs_next_fd s"
  by (auto simp: sys_open_def create_node_def set_data_def elim!: open_node_cases split: prod.splits sum.splits)

lemma sys_open_error: "sys_open s p fl mode = (s', Inl e) \<Longrightarrow> s' = s"
  by (auto simp: sys_open_def dest: open_node_error split: prod.splits sum.splits)

lemma open_cache_file_zero:
  "open_cache_file e c w p fi
    = (case sys_open (cfs c) (cache_file e c p) (flags fi) 0 of (s, r) \<Rightarrow>
         Ret (0, fi\<lparr>fh := fh_of r\<rparr>) (c\<lparr>cfs := s\<rparr>) w)"
  by (simp add: open_cache_file_def Let_def not_less split: prod.splits)

lemma open_cache_file_links:
  assumes ok: "cache_ok c base" and fd: "fs_next_fd (cfs c) < 2 ^ 31"
    and op: "open_cache_file e c w p fi = Ret (rc, fi') (c\<lparr>cfs := s\<rparr>) w"
    and on: "open_on e (c\<lparr>cfs := s\<rparr>) base p fi'" "wf_fs s" and l: "links s fd q"
  shows "if fd = fd_of fi' then q = base @ [key e p] else links (cfs c) fd q"
proof (cases "fd = fd_of fi'")
  case True
  have "links s (fd_of fi') (base @ [key e p])"
    using on(1) fd_at_links by (simp add: open_on_def)
  then show ?thesis
    using links_unique[OF on(2)] l True by auto
next
  case False
  have wf: "wf_fs (cfs c)" "0 \<le> fs_next_fd (cfs c)"
    using ok by (auto simp: cache_ok_def cache_dir_def)
  obtain s' r where so: "sys_open (cfs c) (cache_file e c p) (flags fi) 0 = (s', r)"
    by (cases "sys_open (cfs c) (cache_file e c p) (flags fi) 0")
  have s: "s' = s" "fi' = fi\<lparr>fh := fh_of r\<rparr>"
    using op so by (auto simp: open_cache_file_def Let_def not_less dest: arg_cong[where f = cfs])
  show ?thesis
  proof (cases r)
    case (Inl err)
    then show ?thesis using so s(1) l False by (auto dest: sys_open_error)
  next
    case (Inr x)
    then have "fd_of fi' = fs_next_fd (cfs c)"
      using sys_open_fd[OF so[unfolded Inr]] fd_of_fh[OF wf(2) fd] s(2) by simp
    then show ?thesis
      using sys_open_links[OF wf(1) so] l s(1) False by simp
  qed
qed

end
