(* ===== verification/Service.thy ===== *)
theory Service
  imports Open_Files
begin

section \<open>What the client needs of the service\<close>

text \<open>
  The contract between client and server as a locale: what the calls of the stub return for a file
  the service has, and what an upload does to it.  The client's opening and closing are proved
  correct against it once; \<open>Link\<close> proves the contract for the modelled server.
\<close>

text \<open>What a download makes of the messages it gets, whatever they are.\<close>

lemma download_stores:
  assumes ok: "cache_ok c base" and g: "rpc_GetContent stub w p = Some (msgs, OK, w')"
    "msgs \<noteq> [] \<and> concat (map mc_b msgs) = d \<and> (\<forall>m \<in> set msgs. mc_file_exists m \<and> mc_timestamp m = ts)"
    and fl: "plain_flags (flags fi)" and fd: "fs_next_fd (cfs c) < 2 ^ 31"
  shows "\<exists>c' fi'. download e stub c w p fi = Ret (0, fi') c' w' \<and> flags fi' = flags fi
    \<and> cache_ok c' base \<and> open_on e c' base p fi'
    \<and> cached e c' base p = Some (File d (fs_now (cfs c)))
    \<and> time_count e c' p = 1 \<and> time_get e c' p = ts \<and> \<not> dirty_get e c' p
    \<and> (\<forall>q. key e q \<noteq> key e p \<longrightarrow> cached e c' base q = cached e c base q
          \<and> dirty_get e c' q = dirty_get e c q \<and> time_count e c' q = time_count e c q
          \<and> time_get e c' q = time_get e c q)"
proof -
  obtain m ms where m: "msgs = m # ms" using g(2) by (cases msgs) auto
  have last: "mc_timestamp (last msgs) = ts"
    using g(2) last_in_set by blast
  let ?s = "ofstream_store (cfs c) (cache_file e c p) d"
  let ?c = "dirty_set e (time_set e (c\<lparr>cfs := ?s\<rparr>) p ts) p False"
  note o = ofstream_store_cache[OF ok, of e p d]
  have c: "cache_ok ?c base" "cached e ?c base p = Some (File d (fs_now (cfs c)))"
    "fs_next_fd (cfs ?c) < 2 ^ 31"
    using o fd by (simp_all add: cached_def)
  obtain s fi' where op: "open_cache_file e ?c w' p fi = Ret (0, fi') (?c\<lparr>cfs := s\<rparr>) w'" "flags fi' = flags fi"
    "cache_ok (?c\<lparr>cfs := s\<rparr>) base" "view s = view (cfs ?c)" "open_on e (?c\<lparr>cfs := s\<rparr>) base p fi'"
    using open_cache_file_ok[OF c(1,2) fl c(3), of w'] by blast
  have dl: "download e stub c w p fi = Ret (0, fi') (?c\<lparr>cfs := s\<rparr>) w'"
    using g m last op(1) by (simp add: download_def Let_def)
  show ?thesis
    using dl op(2,3,5) op(4) o by (intro exI conjI) (auto simp: cached_def)
qed

locale afs_service =
  fixes stub :: "'w stub"
    and up :: "'w \<Rightarrow> bool"
    and file_at :: "'w \<Rightarrow> string \<Rightarrow> (byte_string \<times> timespec) option"
    and same :: "'w \<Rightarrow> string \<Rightarrow> string \<Rightarrow> bool"
    and now :: "'w \<Rightarrow> timespec"
    and free_at :: "'w \<Rightarrow> string \<Rightarrow> bool"
  assumes stat_file: "up w \<Longrightarrow> file_at w p = Some (d, t) \<Longrightarrow>
      \<exists>r. rpc_Stat stub w p = Some (r, w) \<and> sc_return_code r = 0 \<and> sc_st_mtim r = timespec_bytes t"
    and get_file: "up w \<Longrightarrow> file_at w p = Some (d, t) \<Longrightarrow>
      \<exists>msgs. rpc_GetContent stub w p = Some (msgs, OK, w) \<and> msgs \<noteq> [] \<and> concat (map mc_b msgs) = d
        \<and> (\<forall>m \<in> set msgs. mc_file_exists m \<and> mc_timestamp m = timespec_bytes t)"
    and stat_free: "up w \<Longrightarrow> free_at w p \<Longrightarrow> \<exists>r. rpc_Stat stub w p = Some (r, w) \<and> sc_return_code r = -1"
    and get_free: "up w \<Longrightarrow> free_at w p \<Longrightarrow>
      \<exists>m. rpc_GetContent stub w p = Some ([m], OK, w) \<and> \<not> mc_file_exists m"
    and accepts: "up w \<Longrightarrow> rpc_accepts stub w = accept_all"
    and write_file: "up w \<Longrightarrow> file_at w p \<noteq> None \<or> free_at w p \<Longrightarrow> msgs \<noteq> [] \<Longrightarrow> \<forall>m \<in> set msgs. fc_filepath m = p \<Longrightarrow>
      \<exists>meta w'. rpc_Write stub w msgs = Some (OK, meta, w') \<and> up w'
        \<and> meta_timestamp meta = timespec_bytes (now w)
        \<and> file_at w' = (\<lambda>q. if same w p q then Some (concat (map fc_b msgs), now w) else file_at w q)"
    and killed: "up w \<Longrightarrow> file_at w p \<noteq> None \<or> free_at w p \<Longrightarrow> \<forall>m \<in> set msgs. fc_filepath m = p \<Longrightarrow> msgs \<noteq> [] \<Longrightarrow>
      up (rpc_Write_killed stub w msgs) \<and> file_at (rpc_Write_killed stub w msgs) = file_at w"
    and same_refl: "file_at w p \<noteq> None \<or> free_at w p \<Longrightarrow> same w p p"
begin

text \<open>A download fills the cache with the server's bytes, records their time and opens the file.\<close>

lemma download_ok:
  assumes ok: "cache_ok c base" and w: "up w" "file_at w p = Some (d, t)"
    and fl: "plain_flags (flags fi)" and fd: "fs_next_fd (cfs c) < 2 ^ 31"
  shows "\<exists>c' fi'. download e stub c w p fi = Ret (0, fi') c' w \<and> flags fi' = flags fi
    \<and> cache_ok c' base \<and> open_on e c' base p fi'
    \<and> cached e c' base p = Some (File d (fs_now (cfs c)))
    \<and> time_count e c' p = 1 \<and> time_get e c' p = timespec_bytes t \<and> \<not> dirty_get e c' p
    \<and> (\<forall>q. key e q \<noteq> key e p \<longrightarrow> cached e c' base q = cached e c base q
          \<and> dirty_get e c' q = dirty_get e c q \<and> time_count e c' q = time_count e c q
          \<and> time_get e c' q = time_get e c q)"
  using get_file[OF w] download_stores[OF ok _ _ fl fd] by metis

lemma open_fetch:
  assumes ok: "cache_ok c base" and w: "up w" "file_at w p = Some (d, t)"
    and fl: "plain_flags (flags fi)" and fd: "fs_next_fd (cfs c) < 2 ^ 31"
    and stale: "time_count e c p = 1 \<longrightarrow> time_get e c p \<notin> {LOCAL_CREAT_FILE, timespec_bytes t}"
  shows "\<exists>c' fi'. afs_open e stub c w p fi = Ret (0, fi') c' w \<and> flags fi' = flags fi
    \<and> cache_ok c' base \<and> open_on e c' base p fi'
    \<and> cached e c' base p = Some (File d (fs_now (cfs c)))
    \<and> time_count e c' p = 1 \<and> time_get e c' p = timespec_bytes t \<and> \<not> dirty_get e c' p
    \<and> (\<forall>q. key e q \<noteq> key e p \<longrightarrow> cached e c' base q = cached e c base q
          \<and> dirty_get e c' q = dirty_get e c q \<and> time_count e c' q = time_count e c q
          \<and> time_get e c' q = time_get e c q)"
proof (cases "time_count e c p = 1")
  case False
  then show ?thesis
    using download_ok[OF ok w fl fd, of e] by (simp add: afs_open_def)
next
  case True
  obtain r where r: "rpc_Stat stub w p = Some (r, w)" "sc_st_mtim r = timespec_bytes t"
    using stat_file[OF w] by blast
  let ?s = "fst (sys_unlink (cfs c) (cache_file e c p))"
  let ?c = "(time_erase e c p)\<lparr>cfs := ?s\<rparr>"
  have ok1: "cache_ok (time_erase e c p) base" using ok by simp
  note u = unlink_cache[OF ok1, of e p, simplified]
  have u': "cache_ok ?c base" "fs_next_fd (cfs ?c) < 2 ^ 31" "fs_now (cfs ?c) = fs_now (cfs c)"
    using u fd by (simp_all add: sys_unlink_def split: sum.splits option.splits)
  have open': "afs_open e stub c w p fi = download e stub ?c w p fi"
    using True stale r by (auto simp: afs_open_def Let_def)
  have frame: "key e q \<noteq> key e p \<Longrightarrow> cached e ?c base q = cached e c base q" for q
    using u by (simp add: cached_def)
  show ?thesis
    unfolding open' using download_ok[OF u'(1) w fl u'(2), of e] frame u'(3) by simp
qed

text \<open>A cache entry with the server's time is opened as it is.\<close>

lemma open_hit:
  assumes ok: "cache_ok c base" and w: "up w" "file_at w p = Some (d, t)"
    and fl: "plain_flags (flags fi)" and fd: "fs_next_fd (cfs c) < 2 ^ 31"
    and fresh: "time_count e c p = 1" "time_get e c p = timespec_bytes t"
    and cached: "cached e c base p = Some (File d' t')"
  shows "\<exists>s fi'. afs_open e stub c w p fi = Ret (0, fi') (c\<lparr>cfs := s\<rparr>) w \<and> flags fi' = flags fi
    \<and> cache_ok (c\<lparr>cfs := s\<rparr>) base \<and> view s = view (cfs c) \<and> open_on e (c\<lparr>cfs := s\<rparr>) base p fi'"
proof -
  obtain r where r: "rpc_Stat stub w p = Some (r, w)" "sc_st_mtim r = timespec_bytes t"
    using stat_file[OF w] by blast
  have nl: "time_get e c p \<noteq> LOCAL_CREAT_FILE"
    using fresh(2) by simp
  have "afs_open e stub c w p fi = open_cache_file e c w p fi"
    using fresh r nl by (simp add: afs_open_def)
  then show ?thesis
    using open_cache_file_ok[OF ok cached fl fd, of w] by fastforce
qed

lemma open_hit_shape:
  assumes "up w" "file_at w p = Some (d, t)" "time_count e c p = 1" "time_get e c p = timespec_bytes t"
  shows "afs_open e stub c w p fi = open_cache_file e c w p fi"
proof -
  obtain r where "rpc_Stat stub w p = Some (r, w)" "sc_st_mtim r = timespec_bytes t"
    using stat_file[OF assms(1,2)] by blast
  then show ?thesis
    using assms(3,4) by (simp add: afs_open_def)
qed

text \<open>How the tables and names change when a file is fetched.\<close>

lemma open_fetch_shape:
  assumes ok: "cache_ok c base" and w: "up w" "file_at w p = Some (d, t)"
    and stale: "time_count e c p = 1 \<longrightarrow> time_get e c p \<notin> {LOCAL_CREAT_FILE, timespec_bytes t}"
  shows "\<exists>s c1. c1 \<in> {c, time_erase e c p} \<and> no_new_links (cfs c) s
    \<and> fs_next_fd s = fs_next_fd (cfs c) \<and> cache_ok (c\<lparr>cfs := s\<rparr>) base
    \<and> (\<exists>tc. view s = (view (cfs c))(base @ [key e p] \<mapsto> File d tc))
    \<and> afs_open e stub c w p fi
        = open_cache_file e (dirty_set e (time_set e (c1\<lparr>cfs := s\<rparr>) p (timespec_bytes t)) p False) w p fi"
proof -
  obtain msgs where g: "rpc_GetContent stub w p = Some (msgs, OK, w)" "msgs \<noteq> []"
    "\<forall>m \<in> set msgs. mc_file_exists m \<and> mc_timestamp m = timespec_bytes t" "concat (map mc_b msgs) = d"
    using get_file[OF w] by blast
  obtain m ms where m: "msgs = m # ms" using g(2) by (cases msgs) auto
  have last: "mc_timestamp (last msgs) = timespec_bytes t"
    using g(2,3) last_in_set by blast
  have dl: "download e stub c0 w p fi = open_cache_file e
      (dirty_set e (time_set e (c0\<lparr>cfs := ofstream_store (cfs c0) (cache_file e c0 p) (concat (map mc_b msgs))\<rparr>) p
        (timespec_bytes t)) p False) w p fi" for c0
    using g m last by (simp add: download_def Let_def)
  have wf: "wf_fs (cfs c)" using ok by (simp add: cache_ok_def cache_dir_def)
  show ?thesis
  proof (cases "time_count e c p = 1")
    case False
    let ?s = "ofstream_store (cfs c) (cache_file e c p) (concat (map mc_b msgs))"
    have "afs_open e stub c w p fi = download e stub c w p fi"
      using False by (simp add: afs_open_def)
    then show ?thesis
      using no_new_links_store[OF wf] ofstream_store_cache[OF ok, of e p "concat (map mc_b msgs)"] g(4)
      by (intro exI[of _ ?s] exI[of _ c]) (auto simp: dl)
  next
    case True
    obtain r where r: "rpc_Stat stub w p = Some (r, w)" "sc_st_mtim r = timespec_bytes t"
      using stat_file[OF w] by blast
    let ?u = "fst (sys_unlink (cfs c) (cache_file e c p))"
    let ?c0 = "(time_erase e c p)\<lparr>cfs := ?u\<rparr>"
    let ?s = "ofstream_store ?u (cache_file e c p) (concat (map mc_b msgs))"
    have "afs_open e stub c w p fi = download e stub ?c0 w p fi"
      using True stale r by (auto simp: afs_open_def Let_def)
    moreover have ok1: "cache_ok (c\<lparr>cfs := ?u\<rparr>) base" "wf_fs ?u" "fs_next_fd ?u = fs_next_fd (cfs c)"
      using unlink_cache[OF ok, of e p] by (auto simp: cache_ok_def cache_dir_def)
    moreover have "no_new_links (cfs c) ?s"
      using no_new_links_trans[OF no_new_links_unlink no_new_links_store[OF ok1(2)]] .
    moreover have "view ?u = (view (cfs c))(base @ [key e p] := None)"
      using unlink_cache[OF ok, of e p] by blast
    ultimately show ?thesis
      using ofstream_store_cache[OF ok1(1), of e p "concat (map mc_b msgs)"] g(4)
      by (intro exI[of _ ?s] exI[of _ "time_erase e c p"]) (auto simp: dl)
  qed
qed

text \<open>Closing a dirty file makes its bytes the server's.\<close>

lemma upload_messages_ok:
  assumes "up w"
  shows "upload_messages stub w p (Some s) \<noteq> []"
    "\<forall>m \<in> set (upload_messages stub w p (Some s)). fc_filepath m = p"
    "concat (map fc_b (upload_messages stub w p (Some s))) = s"
  using accepts[OF assms] by (auto simp: upload_messages_def comp_def)

lemma release_file:
  assumes "cache_ok c base" "cached e c base p = Some (File d t)"
  shows "ifstream_read (fst (sys_close (cfs c) fd)) (cache_file e c p) = Some (Some d)"
proof -
  have "resolve (fst (sys_close (cfs c) fd)) (cache_file e c p) = Inr (base @ [key e p])"
    using resolve_cache_file[OF assms(1)] by simp
  then show ?thesis
    by (rule ifstream_read_file) (use assms(2) in \<open>simp add: cached_def\<close>)
qed

lemma release_closed:
  assumes "cache_ok c base"
  shows "cache_ok (c\<lparr>cfs := fst (sys_close (cfs c) fd)\<rparr>) base"
  using cache_dir_same[of "cfs c" "cache_root c" base "fst (sys_close (cfs c) fd)"] assms
  by (simp add: cache_ok_def) (auto simp: cache_dir_def)

lemma release_dirty:
  assumes ok: "cache_ok c base" and w: "up w" "file_at w p \<noteq> None \<or> free_at w p"
    and dirty: "dirty_get e c p" "cached e c base p = Some (File d t)" and fp: "failure_point e = 3"
  shows "\<exists>c' w'. afs_release e stub c w p fi = Ret 0 c' w' \<and> up w' \<and> cache_ok c' base
    \<and> file_at w' = (\<lambda>q. if same w p q then Some (d, now w) else file_at w q)
    \<and> (\<forall>q. cached e c' base q = cached e c base q) \<and> cfs c' = fst (sys_close (cfs c) (fd_of fi))
    \<and> \<not> dirty_get e c' p \<and> time_count e c' p = 1 \<and> time_get e c' p = timespec_bytes (now w)
    \<and> c' = time_set e (dirty_set e (c\<lparr>cfs := fst (sys_close (cfs c) (fd_of fi))\<rparr>) p False) p (timespec_bytes (now w))"
proof -
  note u = upload_messages_ok[OF w(1), of p d]
  obtain meta w' where wr: "rpc_Write stub w (upload_messages stub w p (Some d)) = Some (OK, meta, w')" "up w'"
    "meta_timestamp meta = timespec_bytes (now w)"
    "file_at w' = (\<lambda>q. if same w p q then Some (d, now w) else file_at w q)"
    using write_file[OF w u(1,2), unfolded u(3)] by blast
  let ?c1 = "c\<lparr>cfs := fst (sys_close (cfs c) (fd_of fi))\<rparr>"
  let ?c2 = "time_set e (dirty_set e ?c1 p False) p (timespec_bytes (now w))"
  have rel: "afs_release e stub c w p fi = Ret 0 ?c2 w'"
    using dirty release_file[OF ok dirty(2), of "fd_of fi"] wr(1,3) fp by (simp add: afs_release_def Let_def)
  show ?thesis
    using rel wr(2,4) release_closed[OF ok, of "fd_of fi"]
    by (intro exI[of _ ?c2] exI[of _ w']) (auto simp: cached_def)
qed

text \<open>
  Making a file: the server gets an empty file, the cache too.  Opening a name the server does not
  have makes a local file only, marked as such.
\<close>

lemma mknod_free:
  assumes ok: "cache_ok c base" and w: "up w" "free_at w p" and none: "cached e c base p = None"
  shows "\<exists>c' w'. afs_mknod e stub c w p mode = Ret 0 c' w' \<and> up w' \<and> cache_ok c' base
    \<and> file_at w' = (\<lambda>q. if same w p q then Some ([], now w) else file_at w q)
    \<and> cached e c' base p = Some (File [] (fs_now (cfs c)))
    \<and> time_count e c' p = 1 \<and> time_get e c' p = timespec_bytes (now w)
    \<and> fs_next_fd (cfs c') = fs_next_fd (cfs c) + 1
    \<and> (\<exists>s2. c' = time_set e (c\<lparr>cfs := s2\<rparr>) p (timespec_bytes (now w)) \<and> no_new_links (cfs c) s2
        \<and> view s2 = (view (cfs c))(base @ [key e p] \<mapsto> File [] (fs_now (cfs c))))"
proof -
  obtain r where r: "rpc_Stat stub w p = Some (r, w)" "sc_return_code r = -1"
    using stat_free[OF w] by blast
  let ?fl = "O_WRONLY\<lparr>o_creat := True, o_excl := True\<rparr>"
  obtain s where s: "sys_open (cfs c) (cache_file e c p) ?fl mode = (s, Inr (fs_next_fd (cfs c)))"
    "snd (sys_close s (fs_next_fd (cfs c))) = Inr ()"
    "cache_ok (c\<lparr>cfs := fst (sys_close s (fs_next_fd (cfs c)))\<rparr>) base"
    "view s = (view (cfs c))(base @ [key e p] \<mapsto> File [] (fs_now (cfs c)))"
    "fs_next_fd s = fs_next_fd (cfs c) + 1"
    using create_cache[OF ok none, of ?fl mode] by auto
  let ?m = "\<lparr>fc_filepath = p, fc_b = []\<rparr>"
  have m: "concat (map fc_b [?m]) = []" "[?m] \<noteq> []" "\<forall>m \<in> set [?m]. fc_filepath m = p" by simp_all
  obtain meta w' where wr: "rpc_Write stub w [?m] = Some (OK, meta, w')" "up w'"
    "meta_timestamp meta = timespec_bytes (now w)"
    "file_at w' = (\<lambda>q. if same w p q then Some ([], now w) else file_at w q)"
    using write_file[OF w(1) disjI2[OF w(2)] m(2,3), unfolded m(1)] by blast
  obtain s2 where cl: "sys_close s (fs_next_fd (cfs c)) = (s2, Inr ())"
    using s(2) by (metis prod.collapse)
  let ?c' = "time_set e (c\<lparr>cfs := s2\<rparr>) p (timespec_bytes (now w))"
  have "view s2 = view s" "fs_next_fd s2 = fs_next_fd s"
    using view_sys_close[of s "fs_next_fd (cfs c)"] fs_sys_close(2)[of s "fs_next_fd (cfs c)"] by (simp_all add: cl)
  moreover have "cache_ok (c\<lparr>cfs := s2\<rparr>) base"
    using s(3) by (simp add: cl)
  moreover have "afs_mknod e stub c w p mode = Ret 0 ?c' w'"
    using r s(1) cl wr(1,3) accepts[OF w(1)] by (simp add: afs_mknod_def)
  moreover have "no_new_links (cfs c) s2"
    using no_new_links_made[OF _ s(1)] ok by (simp add: cl cache_ok_def cache_dir_def)
  ultimately show ?thesis
    using s(4,5) wr(2,4) by (intro exI[of _ ?c'] exI[of _ w']) (auto simp: cached_def)
qed

lemma open_free:
  assumes ok: "cache_ok c base" and w: "up w" "free_at w p" and none: "cached e c base p = None"
    and fl: "plain_flags (flags fi)" and fd: "fs_next_fd (cfs c) + 1 < 2 ^ 31"
    and new: "time_count e c p \<noteq> 1"
  shows "\<exists>c' fi'. afs_open e stub c w p fi = Ret (0, fi') c' w \<and> flags fi' = flags fi
    \<and> cache_ok c' base \<and> open_on e c' base p fi'
    \<and> cached e c' base p = Some (File [] (fs_now (cfs c)))
    \<and> time_count e c' p = 1 \<and> time_get e c' p = LOCAL_CREAT_FILE \<and> \<not> dirty_get e c' p"
proof -
  obtain m where m: "rpc_GetContent stub w p = Some ([m], OK, w)" "\<not> mc_file_exists m"
    using get_free[OF w] by blast
  let ?s = "close_creat (cfs c) (cache_file e c p) 0x1FF"
  let ?c = "dirty_set e ((time_set e c p LOCAL_CREAT_FILE)\<lparr>cfs := ?s\<rparr>) p False"
  note o = close_creat_cache[OF ok none, of "0x1FF"]
  have c: "cache_ok ?c base" "cached e ?c base p = Some (File [] (fs_now (cfs c)))" "fs_next_fd (cfs ?c) < 2 ^ 31"
    using o fd by (simp_all add: cached_def cache_ok_def)
  obtain s fi' where op: "open_cache_file e ?c w p fi = Ret (0, fi') (?c\<lparr>cfs := s\<rparr>) w" "flags fi' = flags fi"
    "cache_ok (?c\<lparr>cfs := s\<rparr>) base" "view s = view (cfs ?c)" "open_on e (?c\<lparr>cfs := s\<rparr>) base p fi'"
    using open_cache_file_ok[OF c(1,2) fl c(3), of w] by blast
  have "afs_open e stub c w p fi = Ret (0, fi') (?c\<lparr>cfs := s\<rparr>) w"
    using new m op(1) by (simp add: afs_open_def download_def Let_def)
  then show ?thesis
    using op(2,3,5) op(4) o by (intro exI conjI) (auto simp: cached_def)
qed

text \<open>A death in the middle of an upload changes nothing at the server.\<close>

lemma release_killed:
  assumes ok: "cache_ok c base" and w: "up w" "file_at w p \<noteq> None \<or> free_at w p"
    and dirty: "dirty_get e c p" "cached e c base p = Some (File d t)"
    and fp: "failure_point e = 1" and big: "10 * BUFSIZE \<le> length d"
  shows "\<exists>w'. afs_release e stub c w p fi = Died (c\<lparr>cfs := fst (sys_close (cfs c) (fd_of fi))\<rparr>) w'
    \<and> up w' \<and> file_at w' = file_at w"
proof -
  let ?msgs = "upload_messages stub w p (Some d)"
  let ?whole = "filter (\<lambda>m. length (fc_b m) = BUFSIZE) ?msgs"
  have pieces: "10 \<le> length (filter (\<lambda>b. length b = BUFSIZE) (send_chunks BUFSIZE accept_all i d))"
    if "10 * BUFSIZE \<le> length d" for i d
  proof -
    have "k * BUFSIZE \<le> length d \<Longrightarrow>
        k \<le> length (filter (\<lambda>b. length b = BUFSIZE) (send_chunks BUFSIZE accept_all i d))" for k i d
    proof (induction k arbitrary: i d)
      case (Suc k)
      have pos: "0 < BUFSIZE" by (simp add: BUFSIZE_def)
      have le: "BUFSIZE \<le> length d" "k * BUFSIZE \<le> length (drop BUFSIZE d)"
        using Suc.prems by auto
      show ?case
        using Suc.IH[OF le(2), of "Suc i"] le(1) pos by (subst send_chunks.simps) auto
    qed simp
    then show ?thesis using that by blast
  qed
  have len: "10 \<le> length ?whole"
    using pieces[OF big, of 0] accepts[OF w(1)] by (simp add: upload_messages_def filter_map comp_def)
  have "\<forall>m \<in> set (take 10 ?whole). fc_filepath m = p" "take 10 ?whole \<noteq> []"
    using upload_messages_ok(2)[OF w(1), of p d] len by (auto dest: in_set_takeD)
  from killed[OF w this]
  have "up (rpc_Write_killed stub w (take 10 ?whole)) \<and> file_at (rpc_Write_killed stub w (take 10 ?whole)) = file_at w" .
  moreover have "afs_release e stub c w p fi
      = Died (c\<lparr>cfs := fst (sys_close (cfs c) (fd_of fi))\<rparr>) (rpc_Write_killed stub w (take 10 ?whole))"
    using dirty release_file[OF ok dirty(2), of "fd_of fi"] fp len by (simp add: afs_release_def Let_def)
  ultimately show ?thesis by blast
qed

end

end
