(* ===== verification/Server.thy ===== *)
theory Server
  imports Proto Posix_Spec Hash_Path
begin

section \<open>The file server\<close>

text \<open>
  \<^verbatim>\<open>AFSServiceImpl\<close> of \<^verbatim>\<open>afs_server.cc\<close>: its state is the file system below \<^verbatim>\<open>AFS_ROOT_DIR\<close> and the
  mutex \<^verbatim>\<open>lock\<close>; one definition per handler, run to its end.  (Handlers of concurrent \<^verbatim>\<open>Write\<close>s, step
  by step, are in \<open>Write_Race\<close>.)  A handler's result is what the client gets and the new state, or
  that the thread waits for the mutex forever, or that the process dies.
\<close>

definition FS_ROOT :: string where "FS_ROOT = ''fs_root''"
definition CACHE :: string where "CACHE = ''cache''"

record server =
  sfs :: fs
  AFS_ROOT_DIR :: string
  lock_held :: bool

datatype 'a run = Done 'a | Blocked | Crashed

definition getServerFilepath :: "(byte_string \<Rightarrow> byte_string) \<Rightarrow> server \<Rightarrow> string \<Rightarrow> bool \<Rightarrow> string" where
  "getServerFilepath sha srv filepath is_cache_filepath =
     (if is_cache_filepath then AFS_ROOT_DIR srv @ CACHE @ ''/'' @ hashFilepath sha filepath
      else AFS_ROOT_DIR srv @ FS_ROOT @ ''/'' @ filepath)"

definition srv_GetMeta :: "server \<Rightarrow> string \<Rightarrow> (status \<times> Meta \<times> server) run" where
  "srv_GetMeta srv request = Done (OK, default_Meta\<lparr>meta_file_exists := False\<rparr>, srv)"

text \<open>The messages the writer accepted, and the status.\<close>

definition srv_GetContent ::
    "(byte_string \<Rightarrow> byte_string) \<Rightarrow> (nat \<Rightarrow> bool) \<Rightarrow> server \<Rightarrow> string \<Rightarrow> (status \<times> MetaContent list \<times> server) run" where
  "srv_GetContent sha acc srv request =
     (let filepath = getServerFilepath sha srv request False in
      case ifstream_read (sfs srv) filepath of
        None \<Rightarrow>
          Done (OK, if acc 0 then [default_MetaContent\<lparr>mc_file_exists := False\<rparr>] else [], srv)
      | Some content \<Rightarrow>
          let ts = (case sys_stat (sfs srv) filepath of Inl e \<Rightarrow> [] | Inr sb \<Rightarrow> timespec_bytes (st_mtim sb));
              msg = default_MetaContent\<lparr>mc_file_exists := True, mc_timestamp := ts\<rparr>
          in Done (OK,
               case content of
                 None \<Rightarrow> []
               | Some s \<Rightarrow> map (\<lambda>b. msg\<lparr>mc_b := b\<rparr>) (send_chunks BUFSIZE acc 0 s),
               srv))"

text \<open>A failed \<^verbatim>\<open>opendir\<close> gives NULL, which \<^verbatim>\<open>readdir\<close> dereferences.\<close>

definition srv_Ls :: "(byte_string \<Rightarrow> byte_string) \<Rightarrow> server \<Rightarrow> string \<Rightarrow> (status \<times> LsResult \<times> server) run" where
  "srv_Ls sha srv request =
     (case read_dir (sfs srv) (getServerFilepath sha srv request False) of
        None \<Rightarrow> Crashed
      | Some names \<Rightarrow> Done (OK, names, srv))"

text \<open>
  \<open>msgs\<close> are the messages \<^verbatim>\<open>reader->Read\<close> delivered, \<open>cancelled\<close> is \<^verbatim>\<open>context->IsCancelled()\<close>, \<open>junk\<close>
  what the uninitialised \<^verbatim>\<open>sb\<close> holds should \<^verbatim>\<open>stat\<close> fail.  The failing \<^verbatim>\<open>Read\<close> that ends the loop
  leaves \<^verbatim>\<open>msg\<close> at the last message.  The mutex is released after the loop, not where the file could
  not be opened.
\<close>

definition srv_Write ::
    "(byte_string \<Rightarrow> byte_string) \<Rightarrow> timespec \<Rightarrow> server \<Rightarrow> FilepathContent list \<Rightarrow> bool
      \<Rightarrow> (status \<times> Meta \<times> server) run" where
  "srv_Write sha junk srv msgs cancelled =
     (let msg0 = (case msgs of [] \<Rightarrow> default_FilepathContent | m # _ \<Rightarrow> m);
          filepath = getServerFilepath sha srv (fc_filepath msg0) True
      in if lock_held srv then Blocked
         else case ofstream_open (sfs srv) filepath of
           (s1, Inl e) \<Rightarrow> Done (NOT_FOUND, default_Meta, srv\<lparr>sfs := s1, lock_held := True\<rparr>)
         | (s1, Inr i) \<Rightarrow>
             let data = fc_b msg0 @ concat (map fc_b (tl msgs));
                 msg = (if msgs = [] then msg0 else last msgs);
                 s2 = stream_write s1 i data
             in if cancelled then Done (CANCELLED, default_Meta, srv\<lparr>sfs := s2\<rparr>)
                else
                  let sb_mtim = (case sys_stat s2 filepath of Inl e \<Rightarrow> junk | Inr sb \<Rightarrow> st_mtim sb);
                      s3 = fst (sys_rename s2 (getServerFilepath sha srv (fc_filepath msg) True)
                                              (getServerFilepath sha srv (fc_filepath msg) False))
                  in Done (OK, default_Meta\<lparr>meta_timestamp := timespec_bytes sb_mtim\<rparr>, srv\<lparr>sfs := s3\<rparr>))"

definition srv_Stat ::
    "(byte_string \<Rightarrow> byte_string) \<Rightarrow> server \<Rightarrow> string \<Rightarrow> (status \<times> StatContent \<times> server) run" where
  "srv_Stat sha srv request =
     Done (OK,
       case sys_stat (sfs srv) (getServerFilepath sha srv request False) of
         Inl e \<Rightarrow> default_StatContent\<lparr>sc_return_code := -1, sc_error_number := word_of_int e\<rparr>
       | Inr sb \<Rightarrow>
           \<lparr>sc_return_code = 0, sc_error_number = 0,
            sc_st_dev = st_dev sb, sc_st_ino = st_ino sb, sc_st_mode = ucast (st_mode sb),
            sc_st_nlink = st_nlink sb, sc_st_uid = ucast (st_uid sb), sc_st_gid = ucast (st_gid sb),
            sc_st_rdev = st_rdev sb, sc_st_size = st_size sb, sc_st_blksize = st_blksize sb,
            sc_st_blocks = st_blocks sb, sc_st_atim = timespec_bytes (st_atim sb),
            sc_st_mtim = timespec_bytes (st_mtim sb), sc_st_ctim = timespec_bytes (st_ctim sb)\<rparr>,
       srv)"

definition sys_response :: "fs \<times> unit sysres \<Rightarrow> server \<Rightarrow> (status \<times> Response \<times> server) run" where
  "sys_response r srv =
     (case r of
        (s, Inl e) \<Rightarrow> Done (OK, \<lparr>resp_return_code = -1, resp_error_number = word_of_int e\<rparr>, srv\<lparr>sfs := s\<rparr>)
      | (s, Inr _) \<Rightarrow> Done (OK, default_Response\<lparr>resp_return_code := 0\<rparr>, srv\<lparr>sfs := s\<rparr>))"

definition srv_Unlink ::
    "(byte_string \<Rightarrow> byte_string) \<Rightarrow> server \<Rightarrow> string \<Rightarrow> (status \<times> Response \<times> server) run" where
  "srv_Unlink sha srv request =
     sys_response (sys_unlink (sfs srv) (getServerFilepath sha srv request False)) srv"

definition srv_Rmdir ::
    "(byte_string \<Rightarrow> byte_string) \<Rightarrow> server \<Rightarrow> string \<Rightarrow> (status \<times> Response \<times> server) run" where
  "srv_Rmdir sha srv request =
     sys_response (sys_rmdir (sfs srv) (getServerFilepath sha srv request False)) srv"

definition srv_Mkdir ::
    "(byte_string \<Rightarrow> byte_string) \<Rightarrow> server \<Rightarrow> string \<Rightarrow> (status \<times> Response \<times> server) run" where
  "srv_Mkdir sha srv request =
     sys_response (sys_mkdir (sfs srv) (getServerFilepath sha srv request False) 0x1FF) srv"

subsection \<open>Starting the server\<close>

text \<open>
  \<^verbatim>\<open>main\<close>: the usage error, a root that is no directory, and the two directories, of which \<^verbatim>\<open>mkdir\<close>'s
  error 17 (\<^verbatim>\<open>EEXIST\<close>) is accepted.  \<open>Inl\<close> is the exit status, \<open>Inr\<close> the running server and its port.
\<close>

definition is_folder :: "fs \<Rightarrow> string \<Rightarrow> bool" where
  "is_folder s p = (case resolve s p of Inl e \<Rightarrow> False | Inr cp \<Rightarrow> is_dir s cp)"

definition ensure_slash :: "string \<Rightarrow> string" where
  "ensure_slash r = (if r \<noteq> [] \<and> last r = CHR ''/'' then r else r @ ''/'')"

definition mkdir_or_17 :: "fs \<Rightarrow> string \<Rightarrow> fs option" where
  "mkdir_or_17 s p =
     (case sys_mkdir s p 0x1FF of (s', Inr _) \<Rightarrow> Some s' | (s', Inl e) \<Rightarrow> if e \<noteq> 17 then None else Some s')"

definition server_main :: "fs \<Rightarrow> string list \<Rightarrow> int + (server \<times> string)" where
  "server_main s argv =
     (if length argv < 2 then Inl 1
      else if \<not> is_folder s (argv ! 1) then Inl 1
      else
        let root = ensure_slash (argv ! 1) in
        case mkdir_or_17 s (root @ CACHE) of
          None \<Rightarrow> Inl 1
        | Some s1 \<Rightarrow>
            (case mkdir_or_17 s1 (root @ FS_ROOT) of
               None \<Rightarrow> Inl 1
             | Some s2 \<Rightarrow>
                 Inr (\<lparr>sfs = s2, AFS_ROOT_DIR = root, lock_held = False\<rparr>,
                      if length argv > 2 then argv ! 2 else ''53706'')))"

text \<open>
  \<^verbatim>\<open>RunServer\<close> builds the service and waits.  \<open>binds\<close> says whether gRPC can listen at an address; where
  it cannot, \<^verbatim>\<open>BuildAndStart\<close> returns a null pointer, through which \<^verbatim>\<open>Wait\<close> is called.
\<close>

definition server_address :: "string \<Rightarrow> string" where
  "server_address port = ''0.0.0.0:'' @ port"

definition RunServer :: "(string \<Rightarrow> bool) \<Rightarrow> server \<Rightarrow> string \<Rightarrow> server run" where
  "RunServer binds srv port = (if binds (server_address port) then Done srv else Crashed)"

definition server_process :: "(string \<Rightarrow> bool) \<Rightarrow> fs \<Rightarrow> string list \<Rightarrow> int + server run" where
  "server_process binds s argv =
     (case server_main s argv of Inl code \<Rightarrow> Inl code | Inr (srv, port) \<Rightarrow> Inr (RunServer binds srv port))"

end
