(* ===== verification/Server_Spec.thy ===== *)
theory Server_Spec
  imports Server
begin

section \<open>What the server promises\<close>

text \<open>
  The server against the abstract file system \<open>view\<close>: what each handler returns and which names it
  changes.  \<open>server_ok\<close> is the state \<^verbatim>\<open>main\<close> sets up; the shared tree is what lies below
  \<^verbatim>\<open>fs_root\<close>.  Also here: the mutex a failing \<^verbatim>\<open>Write\<close> keeps, and the paths that leave the tree.
\<close>

subsection \<open>Requests\<close>

text \<open>The service as gRPC drives it: a request, handled to its end.\<close>

datatype request =
    RGetMeta string
  | RGetContent string "nat \<Rightarrow> bool"
  | RLs string
  | RWrite "FilepathContent list" bool
  | RStat string
  | RUnlink string
  | RRmdir string
  | RMkdir string

fun new_state :: "(status \<times> 'r \<times> server) run \<Rightarrow> server run" where
  "new_state (Done (st, r, srv)) = Done srv"
| "new_state Blocked = Blocked"
| "new_state Crashed = Crashed"

fun serve :: "(byte_string \<Rightarrow> byte_string) \<Rightarrow> timespec \<Rightarrow> server \<Rightarrow> request \<Rightarrow> server run" where
  "serve sha junk srv (RGetMeta p) = new_state (srv_GetMeta srv p)"
| "serve sha junk srv (RGetContent p acc) = new_state (srv_GetContent sha acc srv p)"
| "serve sha junk srv (RLs p) = new_state (srv_Ls sha srv p)"
| "serve sha junk srv (RWrite msgs cancelled) = new_state (srv_Write sha junk srv msgs cancelled)"
| "serve sha junk srv (RStat p) = new_state (srv_Stat sha srv p)"
| "serve sha junk srv (RUnlink p) = new_state (srv_Unlink sha srv p)"
| "serve sha junk srv (RRmdir p) = new_state (srv_Rmdir sha srv p)"
| "serve sha junk srv (RMkdir p) = new_state (srv_Mkdir sha srv p)"

lemma new_state_response: "new_state (sys_response r srv) = Done (srv\<lparr>sfs := fst r\<rparr>)"
  by (cases r) (auto simp: sys_response_def split: sum.splits)

text \<open>The handlers that only read leave the state alone.\<close>

lemma serve_reads:
  "serve sha junk srv (RGetMeta p) = Done srv"
  "serve sha junk srv (RGetContent p acc) = Done srv"
  "serve sha junk srv (RStat p) = Done srv"
  "serve sha junk srv (RLs p) = Done srv \<or> serve sha junk srv (RLs p) = Crashed"
  by (auto simp: serve.simps srv_GetMeta_def srv_GetContent_def srv_Stat_def srv_Ls_def Let_def split: option.splits)

lemma serve_calls:
  "serve sha junk srv (RUnlink p) = Done (srv\<lparr>sfs := fst (sys_unlink (sfs srv) (getServerFilepath sha srv p False))\<rparr>)"
  "serve sha junk srv (RRmdir p) = Done (srv\<lparr>sfs := fst (sys_rmdir (sfs srv) (getServerFilepath sha srv p False))\<rparr>)"
  "serve sha junk srv (RMkdir p) = Done (srv\<lparr>sfs := fst (sys_mkdir (sfs srv) (getServerFilepath sha srv p False) 0x1FF)\<rparr>)"
  by (simp_all add: serve.simps srv_Unlink_def srv_Rmdir_def srv_Mkdir_def new_state_response)

declare serve.simps [simp del]

subsection \<open>Where the paths lead\<close>

definition server_ok :: "server \<Rightarrow> string list \<Rightarrow> bool" where
  "server_ok srv base \<longleftrightarrow>
     wf_fs (sfs srv) \<and> (\<exists>r. AFS_ROOT_DIR srv = r @ ''/'') \<and> resolve (sfs srv) (AFS_ROOT_DIR srv) = Inr base
     \<and> is_dir (sfs srv) base \<and> is_dir (sfs srv) (base @ [FS_ROOT]) \<and> is_dir (sfs srv) (base @ [CACHE])"

lemma comps_below:
  assumes "AFS_ROOT_DIR srv = r @ ''/''" "CHR ''/'' \<notin> set w" "w \<noteq> []"
  shows "path_comps (AFS_ROOT_DIR srv @ w @ ''/'' @ p) = path_comps (AFS_ROOT_DIR srv) @ [w] @ path_comps p"
proof -
  have "path_comps (AFS_ROOT_DIR srv @ w @ ''/'' @ p) = path_comps r @ path_comps (w @ ''/'' @ p)"
    using assms(1) path_comps_slash[of r "w @ ''/'' @ p"] by simp
  also have "path_comps (w @ ''/'' @ p) = [w] @ path_comps p"
    using path_comps_slash[of w p] assms(2,3) by (simp add: path_comps_plain)
  also have "path_comps r = path_comps (AFS_ROOT_DIR srv)"
    using path_comps_slash[of r "[]"] assms(1) by (simp add: path_comps_def)
  finally show ?thesis .
qed

lemma resolve_below:
  assumes "server_ok srv base" "CHR ''/'' \<notin> set w" "w \<notin> {[], ''.'', ''..''}"
  shows "resolve (sfs srv) (AFS_ROOT_DIR srv @ w @ ''/'' @ p) = walk (sfs srv) (base @ [w]) (path_comps p)"
proof -
  obtain r where r: "AFS_ROOT_DIR srv = r @ ''/''"
    using assms(1) by (auto simp: server_ok_def)
  have "walk (sfs srv) [] (path_comps (AFS_ROOT_DIR srv)) = Inr base" "is_dir (sfs srv) base"
    using assms(1) by (auto simp: server_ok_def resolve_def split: if_splits)
  then show ?thesis
    using comps_below[OF r assms(2)] assms(3) by (simp add: resolve_def walk_append)
qed

lemma names_plain [simp]:
  "CHR ''/'' \<notin> set FS_ROOT" "FS_ROOT \<notin> {[], ''.'', ''..''}"
  "CHR ''/'' \<notin> set CACHE" "CACHE \<notin> {[], ''.'', ''..''}"
  by (simp_all add: FS_ROOT_def CACHE_def)

lemma length_hashFilepath [simp]: "length (hashFilepath sha p) = 64"
  by (simp add: hashFilepath_def)

lemma resolve_shared:
  "server_ok srv base \<Longrightarrow>
     resolve (sfs srv) (getServerFilepath sha srv p False) = walk (sfs srv) (base @ [FS_ROOT]) (path_comps p)"
  using resolve_below[of srv base FS_ROOT p] names_plain by (simp only: getServerFilepath_def if_False simp_thms)

lemma path_comps_hash: "path_comps (hashFilepath sha p) = [hashFilepath sha p]"
proof (rule path_comps_plain)
  show "CHR ''/'' \<notin> set (hashFilepath sha p)"
    using set_digest_hex slash_not_hex unfolding hashFilepath_def by blast
  show "hashFilepath sha p \<noteq> []"
    by (metis length_hashFilepath list.size(3) zero_neq_numeral)
qed

lemma resolve_cached:
  assumes "server_ok srv base"
  shows "resolve (sfs srv) (getServerFilepath sha srv p True) = Inr (base @ [CACHE, hashFilepath sha p])"
proof -
  let ?h = "hashFilepath sha p"
  have "?h \<noteq> x" if "length x \<noteq> 64" for x
    using that length_hashFilepath[of sha p] by auto
  then have "?h \<noteq> ''.''" "?h \<noteq> ''..''"
    by simp_all
  then show ?thesis
    using assms resolve_below[OF assms, of CACHE ?h] names_plain
    by (simp add: getServerFilepath_def server_ok_def path_comps_hash)
qed

subsection \<open>Well-formedness of the file system\<close>

lemma srv_Write_state:
  assumes "serve sha junk srv (RWrite msgs cancelled) = Done srv'"
  shows "AFS_ROOT_DIR srv' = AFS_ROOT_DIR srv \<and> (wf_fs (sfs srv) \<longrightarrow> wf_fs (sfs srv'))"
proof -
  let ?p = "getServerFilepath sha srv (fc_filepath (case msgs of [] \<Rightarrow> default_FilepathContent | m # _ \<Rightarrow> m)) True"
  obtain s1 r where op: "ofstream_open (sfs srv) ?p = (s1, r)"
    by (cases "ofstream_open (sfs srv) ?p")
  have wf1: "wf_fs (sfs srv) \<Longrightarrow> wf_fs s1"
    using op wf_open_node unfolding ofstream_open_def by (metis fst_conv)
  show ?thesis
  proof (cases r)
    case (Inl e)
    then show ?thesis
      using assms op wf1 by (auto simp: serve.simps srv_Write_def Let_def split: if_splits)
  next
    case (Inr i)
    then show ?thesis
      using assms op wf1 by (auto simp: serve.simps srv_Write_def Let_def wf_rename split: if_splits)
  qed
qed

text \<open>
  Whatever the request, a handler that returns leaves a well-formed file system: distinct names,
  one name per inode, every parent a directory, the root a directory.
\<close>

lemma serve_wf:
  assumes "wf_fs (sfs srv)" "serve sha junk srv req = Done srv'"
  shows "wf_fs (sfs srv') \<and> AFS_ROOT_DIR srv' = AFS_ROOT_DIR srv"
proof (cases req)
  case (RWrite msgs cancelled)
  then show ?thesis using srv_Write_state assms by blast
next
  case (RLs p)
  then have "srv' = srv"
    using serve_reads(4)[of sha junk srv p] assms(2) by auto
  then show ?thesis using assms(1) by simp
next
  case (RUnlink p)
  then show ?thesis using assms wf_unlink by (auto simp: serve_calls)
next
  case (RRmdir p)
  then show ?thesis using assms wf_rmdir by (auto simp: serve_calls)
next
  case (RMkdir p)
  then show ?thesis using assms wf_mkdir by (auto simp: serve_calls)
qed (use assms in \<open>simp_all add: serve_reads\<close>)

subsection \<open>Writing a file\<close>

lemma server_ok_same_dirs:
  assumes "server_ok srv base" "wf_fs s" "\<And>q. is_dir s q = is_dir (sfs srv) q"
  shows "server_ok (srv\<lparr>sfs := s\<rparr>) base"
  using assms resolve_dirs[OF assms(3)] by (simp add: server_ok_def)

text \<open>
  A \<^verbatim>\<open>Write\<close> up to the cancellation check: the bytes of all messages are in the cache file, and
  nothing else changed.
\<close>

lemma srv_Write_cases:
  assumes ok: "server_ok srv base" and free: "\<not> lock_held srv"
    and msgs: "msgs \<noteq> []" "\<forall>m \<in> set msgs. fc_filepath m = p"
    and cache: "\<not> is_dir (sfs srv) (base @ [CACHE, hashFilepath sha p])"
  defines "d \<equiv> concat (map fc_b msgs)"
    and "cc \<equiv> base @ [CACHE, hashFilepath sha p]"
  obtains s2 where "wf_fs s2" "view s2 = (view (sfs srv))(cc \<mapsto> File d (fs_now (sfs srv)))"
    "\<And>q. is_dir s2 q = is_dir (sfs srv) q" "fs_now s2 = fs_now (sfs srv)"
    "srv_Write sha junk srv msgs True = Done (CANCELLED, default_Meta, srv\<lparr>sfs := s2\<rparr>)"
    "srv_Write sha junk srv msgs False =
      Done (OK, default_Meta\<lparr>meta_timestamp := timespec_bytes (fs_now (sfs srv))\<rparr>,
        srv\<lparr>sfs := fst (sys_rename s2 (getServerFilepath sha srv p True) (getServerFilepath sha srv p False))\<rparr>)"
proof -
  obtain m ms where m: "msgs = m # ms" using msgs(1) by (cases msgs) auto
  have p: "fc_filepath m = p" "fc_filepath (last msgs) = p"
    using msgs by (auto simp: m)
  have wf: "wf_fs (sfs srv)" using ok by (simp add: server_ok_def)
  note rc = resolve_cached[OF ok, of sha p]
  obtain s1 i where op: "ofstream_open (sfs srv) (getServerFilepath sha srv p True) = (s1, Inr i)"
    using ofstream_open_succeeds[OF rc] cache by blast
  let ?s2 = "stream_write s1 i d"
  note w = ofstream_write[OF wf rc cache op, of d]
  have "resolve ?s2 (getServerFilepath sha srv p True) = Inr cc"
    using resolve_dirs[OF w(3)] rc by (simp add: cc_def)
  then obtain sb where sb: "sys_stat ?s2 (getServerFilepath sha srv p True) = Inr sb"
    "st_mtim sb = fs_now (sfs srv)"
    using sys_stat_file w(2) by (metis cc_def fun_upd_same)
  have d: "d = fc_b m @ concat (map fc_b (tl msgs))"
    by (simp add: d_def m)
  show ?thesis
  proof (rule that[OF w(1) _ w(3,4)])
    show "view ?s2 = (view (sfs srv))(cc \<mapsto> File d (fs_now (sfs srv)))"
      using w(2) by (simp add: cc_def)
    show "srv_Write sha junk srv msgs True = Done (CANCELLED, default_Meta, srv\<lparr>sfs := ?s2\<rparr>)"
      using free p op by (simp add: srv_Write_def m Let_def d)
    show "srv_Write sha junk srv msgs False =
      Done (OK, default_Meta\<lparr>meta_timestamp := timespec_bytes (fs_now (sfs srv))\<rparr>,
        srv\<lparr>sfs := fst (sys_rename ?s2 (getServerFilepath sha srv p True) (getServerFilepath sha srv p False))\<rparr>)"
      using free p op sb by (simp add: srv_Write_def m Let_def d)
  qed
qed

lemma srv_Write_published:
  assumes "server_ok srv base" "\<not> lock_held srv" "msgs \<noteq> []" "\<forall>m \<in> set msgs. fc_filepath m = p"
    and "\<not> is_dir (sfs srv) (base @ [CACHE, hashFilepath sha p])"
    and dst: "resolve (sfs srv) (getServerFilepath sha srv p False) = Inr cp" "\<not> is_dir (sfs srv) cp"
  shows "\<exists>srv'. srv_Write sha junk srv msgs False =
        Done (OK, default_Meta\<lparr>meta_timestamp := timespec_bytes (fs_now (sfs srv))\<rparr>, srv')
      \<and> view (sfs srv') = (view (sfs srv))
          (base @ [CACHE, hashFilepath sha p] := None, cp \<mapsto> File (concat (map fc_b msgs)) (fs_now (sfs srv)))
      \<and> \<not> lock_held srv' \<and> server_ok srv' base"
proof -
  let ?cc = "base @ [CACHE, hashFilepath sha p]"
  let ?f = "File (concat (map fc_b msgs)) (fs_now (sfs srv))"
  obtain s2 where s2: "wf_fs s2" "view s2 = (view (sfs srv))(?cc \<mapsto> ?f)"
    "\<And>q. is_dir s2 q = is_dir (sfs srv) q"
    "srv_Write sha junk srv msgs False =
      Done (OK, default_Meta\<lparr>meta_timestamp := timespec_bytes (fs_now (sfs srv))\<rparr>,
        srv\<lparr>sfs := fst (sys_rename s2 (getServerFilepath sha srv p True) (getServerFilepath sha srv p False))\<rparr>)"
    using srv_Write_cases[OF assms(1-5)] by metis
  have r: "resolve s2 (getServerFilepath sha srv p True) = Inr ?cc"
    "resolve s2 (getServerFilepath sha srv p False) = Inr cp"
    using resolve_dirs[OF s2(3)] resolve_cached[OF assms(1)] dst(1) by simp_all
  obtain s3 where s3: "sys_rename s2 (getServerFilepath sha srv p True) (getServerFilepath sha srv p False) = (s3, Inr ())"
    using sys_rename_succeeds[OF r(1) _ r(2)] s2(2,3) dst(2) by fastforce
  obtain co cn d t where ren: "resolve s2 (getServerFilepath sha srv p True) = Inr co"
    "resolve s2 (getServerFilepath sha srv p False) = Inr cn" "view s2 co = Some (File d t)"
    "wf_fs s3" "view s3 = (view s2)(co := None, cn \<mapsto> File d t)"
    using sys_rename_ok[OF s2(1) s3] by metis
  have v3: "view s3 = (view (sfs srv))(?cc := None, cp \<mapsto> ?f)"
    using ren r s2(2) by auto
  have "is_dir s3 q = is_dir (sfs srv) q" for q
    using assms(5) dst(2) by (auto simp: is_dir_view v3)
  then have "server_ok (srv\<lparr>sfs := s3\<rparr>) base"
    by (rule server_ok_same_dirs[OF assms(1) ren(4)])
  then show ?thesis
    using s2(4) s3 v3 assms(2) by simp
qed

text \<open>
  C6: a completed \<^verbatim>\<open>Write\<close> publishes exactly the bytes of its messages, in order, under the requested
  name, in one step: the abstract file system changes at that name (and loses the cache file), the
  reply carries the modification time the file now has, the mutex is free again.
\<close>

theorem write_publishes:
  assumes "server_ok srv base" "\<not> lock_held srv" "msgs \<noteq> []" "\<forall>m \<in> set msgs. fc_filepath m = p"
    and "\<not> is_dir (sfs srv) (base @ [CACHE, hashFilepath sha p])"
    and dst: "resolve (sfs srv) (getServerFilepath sha srv p False) = Inr cp" "\<not> is_dir (sfs srv) cp"
  shows "\<exists>srv'. srv_Write sha junk srv msgs False =
        Done (OK, default_Meta\<lparr>meta_timestamp := timespec_bytes (fs_now (sfs srv))\<rparr>, srv')
      \<and> view (sfs srv') = (view (sfs srv))
          (base @ [CACHE, hashFilepath sha p] := None, cp \<mapsto> File (concat (map fc_b msgs)) (fs_now (sfs srv)))
      \<and> \<not> lock_held srv' \<and> server_ok srv' base"
  by (rule srv_Write_published[OF assms])

lemma srv_Write_cancelled:
  assumes "server_ok srv base" "\<not> lock_held srv" "msgs \<noteq> []" "\<forall>m \<in> set msgs. fc_filepath m = p"
    and "\<not> is_dir (sfs srv) (base @ [CACHE, hashFilepath sha p])"
  shows "\<exists>srv'. srv_Write sha junk srv msgs True = Done (CANCELLED, default_Meta, srv')
      \<and> (\<forall>q. q \<noteq> base @ [CACHE, hashFilepath sha p] \<longrightarrow> view (sfs srv') q = view (sfs srv) q)
      \<and> \<not> lock_held srv' \<and> server_ok srv' base"
proof -
  obtain s2 where s2: "wf_fs s2"
    "view s2 = (view (sfs srv))(base @ [CACHE, hashFilepath sha p] \<mapsto> File (concat (map fc_b msgs)) (fs_now (sfs srv)))"
    "\<And>q. is_dir s2 q = is_dir (sfs srv) q"
    "srv_Write sha junk srv msgs True = Done (CANCELLED, default_Meta, srv\<lparr>sfs := s2\<rparr>)"
    using srv_Write_cases[OF assms] by metis
  then show ?thesis
    using server_ok_same_dirs[OF assms(1) s2(1,3)] assms(2) by simp
qed

text \<open>
  C7: a \<^verbatim>\<open>Write\<close> whose client cancelled (or died) leaves every name but the cache file's as it was:
  a partial upload is never visible.
\<close>

theorem write_cancelled_invisible:
  assumes "server_ok srv base" "\<not> lock_held srv" "msgs \<noteq> []" "\<forall>m \<in> set msgs. fc_filepath m = p"
    and "\<not> is_dir (sfs srv) (base @ [CACHE, hashFilepath sha p])"
  shows "\<exists>srv'. srv_Write sha junk srv msgs True = Done (CANCELLED, default_Meta, srv')
      \<and> (\<forall>q. q \<noteq> base @ [CACHE, hashFilepath sha p] \<longrightarrow> view (sfs srv') q = view (sfs srv) q)
      \<and> \<not> lock_held srv' \<and> server_ok srv' base"
  by (rule srv_Write_cancelled[OF assms])

text \<open>
  The result of \<^verbatim>\<open>rename\<close> is not looked at.  Where the requested name cannot be written (its
  directory is gone, or it is a directory), \<^verbatim>\<open>Write\<close> still answers OK with a modification time, and the
  shared tree is unchanged: the client's bytes are lost, and the client believes them saved.
\<close>

lemma write_lost_but_ok:
  assumes "server_ok srv base" "\<not> lock_held srv" "msgs \<noteq> []" "\<forall>m \<in> set msgs. fc_filepath m = p"
    and "\<not> is_dir (sfs srv) (base @ [CACHE, hashFilepath sha p])"
    and bad: "\<And>cp. resolve (sfs srv) (getServerFilepath sha srv p False) = Inr cp \<Longrightarrow> is_dir (sfs srv) cp"
  shows "\<exists>srv'. srv_Write sha junk srv msgs False =
        Done (OK, default_Meta\<lparr>meta_timestamp := timespec_bytes (fs_now (sfs srv))\<rparr>, srv')
      \<and> (\<forall>q. view (sfs srv') (base @ FS_ROOT # q) = view (sfs srv) (base @ FS_ROOT # q))"
proof -
  obtain s2 where s2: "view s2 = (view (sfs srv))
      (base @ [CACHE, hashFilepath sha p] \<mapsto> File (concat (map fc_b msgs)) (fs_now (sfs srv)))"
    "\<And>q. is_dir s2 q = is_dir (sfs srv) q"
    "srv_Write sha junk srv msgs False =
      Done (OK, default_Meta\<lparr>meta_timestamp := timespec_bytes (fs_now (sfs srv))\<rparr>,
        srv\<lparr>sfs := fst (sys_rename s2 (getServerFilepath sha srv p True) (getServerFilepath sha srv p False))\<rparr>)"
    using srv_Write_cases[OF assms(1-5)] by metis
  have "(\<exists>e. resolve s2 (getServerFilepath sha srv p False) = Inl e)
      \<or> (\<exists>cn. resolve s2 (getServerFilepath sha srv p False) = Inr cn \<and> is_dir s2 cn)"
    using bad resolve_dirs[OF s2(2)] s2(2) by (cases "resolve s2 (getServerFilepath sha srv p False)") auto
  then have "fst (sys_rename s2 (getServerFilepath sha srv p True) (getServerFilepath sha srv p False)) = s2"
    using sys_rename_fails[of s2 "getServerFilepath sha srv p False" "getServerFilepath sha srv p True"] by auto
  then show ?thesis
    using s2(1,3) by (simp add: FS_ROOT_def CACHE_def)
qed

end
