(* ===== verification/Server_Start.thy ===== *)
theory Server_Start
  imports Server_Spec
begin

section \<open>Starting the server\<close>

text \<open>
  What \<^verbatim>\<open>main\<close> of \<^verbatim>\<open>afs_server.cc\<close> sets up, from an empty disk and over the files of an earlier run,
  and a small server the witnesses of the other theories run on.
\<close>

lemma view_mkdir:
  assumes "wf_fs s" "sys_mkdir s p mode = (s', Inr ())" "resolve s p = Inr cp"
  shows "view s' = (view s)(cp \<mapsto> Folder) \<and> view s cp = None"
  using sys_mkdir_create[OF assms(2)] assms(1,3) view_create[OF assms(1), of cp True mode]
  by (metis (no_types, lifting) node_view sum.inject(2))

lemma mkdir_or_17_view:
  assumes "wf_fs s" "mkdir_or_17 s p = Some s'" "resolve s p = Inr cp"
  shows "wf_fs s' \<and> view s' = (case view s cp of None \<Rightarrow> (view s)(cp \<mapsto> Folder) | Some _ \<Rightarrow> view s)"
proof -
  obtain s1 r where m: "sys_mkdir s p 0x1FF = (s1, r)"
    by (cases "sys_mkdir s p 0x1FF")
  have wf: "wf_fs s1"
    using wf_mkdir[OF assms(1), of p "0x1FF"] m by simp
  show ?thesis
  proof (cases r)
    case (Inl e)
    then have "s1 = s" "s' = s" "view s cp \<noteq> None"
      using m assms(2,3) sys_mkdir_error[of s p _ s1 e]
      by (auto simp: mkdir_or_17_def sys_mkdir_def node_view[symmetric] split: option.splits if_splits)
    then show ?thesis using assms(1) by auto
  next
    case (Inr u)
    then have "s' = s1" using m assms(2) by (simp add: mkdir_or_17_def)
    then show ?thesis
      using view_mkdir[OF assms(1) _ assms(3), of "0x1FF" s1] m Inr wf by simp
  qed
qed

lemma is_folder_stat: "is_folder s p \<longleftrightarrow> (\<exists>cp. resolve s p = Inr cp \<and> is_dir s cp)"
  by (auto simp: is_folder_def split: sum.splits)

lemma ensure_slash_ends: "\<exists>r. ensure_slash p = r @ ''/''"
proof (cases "p \<noteq> [] \<and> last p = CHR ''/''")
  case True
  then have "p = butlast p @ [CHR ''/'']"
    using append_butlast_last_id[of p] by simp
  with True show ?thesis by (auto simp: ensure_slash_def)
qed (auto simp: ensure_slash_def)

lemma path_comps_ensure_slash [simp]: "path_comps (ensure_slash p) = path_comps p"
  using path_comps_slash[of p "[]"] by (auto simp: ensure_slash_def path_comps_def)

lemma resolve_ensure_slash: "resolve s p = Inr cp \<Longrightarrow> resolve s (ensure_slash p) = Inr cp"
  by (auto simp: resolve_def split: if_splits) (auto simp: ensure_slash_def split: if_splits)

text \<open>A name in the root directory resolves to itself.\<close>

lemma resolve_in_root:
  assumes "resolve s p = Inr base" "is_dir s base" "CHR ''/'' \<notin> set w" "w \<notin> {[], ''.'', ''..''}"
  shows "resolve s (ensure_slash p @ w) = Inr (base @ [w])"
proof -
  obtain r where r: "ensure_slash p = r @ ''/''"
    using ensure_slash_ends by blast
  have "path_comps (ensure_slash p @ w) = path_comps r @ path_comps w"
    using path_comps_slash[of r w] by (simp add: r)
  moreover have "path_comps r = path_comps p"
    using path_comps_slash[of r "[]"] r path_comps_ensure_slash[of p] by (simp add: path_comps_def)
  moreover have "walk s [] (path_comps p) = Inr base"
    using assms(1) by (simp add: resolve_def split: if_splits)
  ultimately show ?thesis
    using assms(2-4) by (simp add: resolve_def path_comps_plain walk_append r)
qed

text \<open>The two directories are made where they are missing, and nothing else changes.\<close>

definition with_folder :: "string list \<Rightarrow> (string list \<Rightarrow> entry option) \<Rightarrow> (string list \<Rightarrow> entry option)" where
  "with_folder cp v = (case v cp of None \<Rightarrow> v(cp \<mapsto> Folder) | Some _ \<Rightarrow> v)"

lemma with_folder_dir: "with_folder cp v q = Some Folder \<longleftrightarrow> v q = Some Folder \<or> q = cp \<and> v cp = None"
  by (auto simp: with_folder_def split: option.splits)

lemma server_main_steps:
  assumes wf: "wf_fs s" and run: "server_main s argv = Inr (srv, port)"
  obtains base where "resolve s (argv ! 1) = Inr base" "is_dir s base"
    "wf_fs (sfs srv)" "AFS_ROOT_DIR srv = ensure_slash (argv ! 1)" "\<not> lock_held srv"
    "view (sfs srv) = with_folder (base @ [FS_ROOT]) (with_folder (base @ [CACHE]) (view s))"
proof -
  obtain s1 s2 where m: "is_folder s (argv ! 1)" "mkdir_or_17 s (ensure_slash (argv ! 1) @ CACHE) = Some s1"
    "mkdir_or_17 s1 (ensure_slash (argv ! 1) @ FS_ROOT) = Some s2"
    "srv = \<lparr>sfs = s2, AFS_ROOT_DIR = ensure_slash (argv ! 1), lock_held = False\<rparr>"
    using run by (auto simp: server_main_def Let_def split: if_splits option.splits)
  obtain base where b: "resolve s (argv ! 1) = Inr base" "is_dir s base"
    using m(1) by (auto simp: is_folder_stat)
  have c: "resolve s (ensure_slash (argv ! 1) @ CACHE) = Inr (base @ [CACHE])"
    using resolve_in_root[OF b names_plain(3,4)] .
  have v1: "wf_fs s1" "view s1 = with_folder (base @ [CACHE]) (view s)"
    using mkdir_or_17_view[OF wf m(2) c] by (auto simp: with_folder_def)
  have dirs: "is_dir s1 q" if "is_dir s q" for q
    using that v1(2) by (simp add: is_dir_view with_folder_dir)
  have b1: "resolve s1 (argv ! 1) = Inr base"
  proof -
    have "walk s1 cur cs = Inr q" if "walk s cur cs = Inr q" for cur cs q
      using that by (induction cs arbitrary: cur) (auto simp: dirs split: if_splits)
    then show ?thesis using b(1) by (auto simp: resolve_def split: if_splits)
  qed
  have f: "resolve s1 (ensure_slash (argv ! 1) @ FS_ROOT) = Inr (base @ [FS_ROOT])"
    using resolve_in_root[OF b1 dirs[OF b(2)] names_plain(1,2)] .
  have v2: "wf_fs s2" "view s2 = with_folder (base @ [FS_ROOT]) (view s1)"
    using mkdir_or_17_view[OF v1(1) m(3) f] by (auto simp: with_folder_def)
  show thesis
    using that[OF b] v1(2) v2 m(4) by simp
qed

lemma server_main_ok:
  assumes wf: "wf_fs s" and run: "server_main s argv = Inr (srv, port)"
    and base: "resolve s (argv ! 1) = Inr base"
    and free: "view s (base @ [FS_ROOT]) \<in> {None, Some Folder}" "view s (base @ [CACHE]) \<in> {None, Some Folder}"
  shows "server_ok srv base"
proof -
  from server_main_steps[OF wf run] obtain base' where
    "resolve s (argv ! 1) = Inr base'" "is_dir s base'" "wf_fs (sfs srv)"
    "AFS_ROOT_DIR srv = ensure_slash (argv ! 1)"
    "view (sfs srv) = with_folder (base' @ [FS_ROOT]) (with_folder (base' @ [CACHE]) (view s))" by metis
  then have st: "is_dir s base" "wf_fs (sfs srv)" "AFS_ROOT_DIR srv = ensure_slash (argv ! 1)"
    "view (sfs srv) = with_folder (base @ [FS_ROOT]) (with_folder (base @ [CACHE]) (view s))"
    using base by simp_all
  have dirs: "is_dir (sfs srv) q" if "is_dir s q" for q
    using that by (auto simp: is_dir_view st(4) with_folder_dir)
  have "walk (sfs srv) cur cs = Inr q" if "walk s cur cs = Inr q" for cur cs q
    using that by (induction cs arbitrary: cur) (auto simp: dirs split: if_splits)
  then have "resolve (sfs srv) (argv ! 1) = Inr base"
    using base by (auto simp: resolve_def split: if_splits)
  moreover have "with_folder (base @ [CACHE]) (view s) (base @ [FS_ROOT]) = view s (base @ [FS_ROOT])"
    by (auto simp: with_folder_def FS_ROOT_def CACHE_def split: option.splits)
  ultimately show ?thesis
    using st free dirs[OF st(1)] ensure_slash_ends[of "argv ! 1"] resolve_ensure_slash
    by (auto simp: server_ok_def is_dir_view with_folder_dir)
qed


text \<open>
  A process whose checks pass serves, unless gRPC cannot listen at the port: a second server on a
  machine, say.  Then it dies in \<^verbatim>\<open>Wait\<close>, after it has announced that it listens.
\<close>

lemma server_process_outcome:
  assumes "server_main s argv = Inr (srv, port)"
  shows "server_process binds s argv = Inr (if binds (server_address port) then Done srv else Crashed)"
  using assms by (simp add: server_process_def RunServer_def)

lemma server_process_exits: "server_process binds s argv = Inl code \<longleftrightarrow> server_main s argv = Inl code"
  by (auto simp: server_process_def split: sum.splits)

subsection \<open>A disk with nothing on it, and the server started there\<close>

definition sample_clock :: "timespec" where
  "sample_clock = \<lparr>tv_sec = 1700000000, tv_nsec = 5\<rparr>"

definition sample_stat :: stat_buf where
  "sample_stat = \<lparr>st_dev = 1, st_ino = 0, st_mode = 0x41ED, st_nlink = 1, st_uid = 0, st_gid = 0, st_rdev = 0,
     st_size = 0, st_blksize = 4096, st_blocks = 0, st_atim = sample_clock, st_mtim = sample_clock,
     st_ctim = sample_clock\<rparr>"

definition sample_fs :: fs where
  "sample_fs = \<lparr>fs_names = [([], 0)], fs_inodes = (\<lambda>_. \<lparr>i_isdir = True, i_data = [], i_stat = sample_stat\<rparr>),
     fs_next = 1, fs_now = sample_clock, fs_template = sample_stat, fs_fds = (\<lambda>_. None), fs_next_fd = 3\<rparr>"

definition sample_server :: server where
  "sample_server = \<lparr>sfs = create_node (create_node sample_fs [CACHE] True 0x1FF) [FS_ROOT] True 0x1FF,
     AFS_ROOT_DIR = ''/'', lock_held = False\<rparr>"

lemma wf_sample_fs: "wf_fs sample_fs"
  by (simp add: wf_fs_def sample_fs_def is_dir_def node_def)

lemma view_sample_fs: "view sample_fs = [[] \<mapsto> Folder]"
  by (rule ext) (simp add: view_def node_def sample_fs_def entry_of_def)

lemma sample_server_main: "server_main sample_fs [''afs_server'', ''/''] = Inr (sample_server, ''53706'')"
  by (simp add: server_main_def is_folder_def resolve_def path_comps_def is_dir_def node_def Let_def
      ensure_slash_def mkdir_or_17_def sys_mkdir_def sample_server_def create_node_def new_inode_def
      sample_fs_def FS_ROOT_def CACHE_def)

lemma sample_root: "resolve sample_fs ''/'' = Inr []"
  by (simp add: resolve_def path_comps_def)

lemma server_ok_sample: "server_ok sample_server []"
  by (rule server_main_ok[OF wf_sample_fs sample_server_main])
    (simp_all add: sample_root view_sample_fs)

lemma lock_sample: "\<not> lock_held sample_server"
  by (simp add: sample_server_def)


end
