(* ===== verification/Server_Files.thy ===== *)
theory Server_Files
  imports Server_Start
begin

section \<open>Files, attributes and names, as the client sees them\<close>

text \<open>
  The handlers other than \<^verbatim>\<open>Write\<close>, against the abstract file system: what \<^verbatim>\<open>GetContent\<close> streams and
  \<^verbatim>\<open>Stat\<close> reports for the file at a path, and \<^verbatim>\<open>Unlink\<close>, \<^verbatim>\<open>Mkdir\<close> and \<^verbatim>\<open>Rmdir\<close> as a refinement of
  updates of the map from names to entries.  Then the confinement of all handlers to the two
  directories, as long as no path has a \<^verbatim>\<open>..\<close> in it.
\<close>

subsection \<open>The entry at a requested path\<close>

definition shared_entry :: "server \<Rightarrow> string list \<Rightarrow> string \<Rightarrow> entry option" where
  "shared_entry srv base p =
     (case walk (sfs srv) (base @ [FS_ROOT]) (path_comps p) of Inl e \<Rightarrow> None | Inr cp \<Rightarrow> view (sfs srv) cp)"

lemma shared_entryE:
  assumes "server_ok srv base" "shared_entry srv base p = Some x"
  obtains cp where "resolve (sfs srv) (getServerFilepath sha srv p False) = Inr cp" "view (sfs srv) cp = Some x"
  using assms(2) resolve_shared[OF assms(1), of sha p]
  by (auto simp: shared_entry_def split: sum.splits)

lemma shared_entry_none:
  assumes "server_ok srv base" "shared_entry srv base p = None"
    and "resolve (sfs srv) (getServerFilepath sha srv p False) = Inr cp"
  shows "view (sfs srv) cp = None"
proof -
  have "walk (sfs srv) (base @ [FS_ROOT]) (path_comps p) = Inr cp"
    using assms(3) resolve_shared[OF assms(1), of sha p] by simp
  then show ?thesis
    using assms(2) by (simp add: shared_entry_def)
qed

subsection \<open>Downloads\<close>

lemma srv_GetContent_file:
  assumes "server_ok srv base" "shared_entry srv base p = Some (File d t)"
  shows "srv_GetContent sha acc srv p =
    Done (OK, map (\<lambda>b. \<lparr>mc_file_exists = True, mc_timestamp = timespec_bytes t, mc_b = b\<rparr>)
      (send_chunks BUFSIZE acc 0 d), srv)"
proof -
  obtain cp where cp: "resolve (sfs srv) (getServerFilepath sha srv p False) = Inr cp"
    "view (sfs srv) cp = Some (File d t)"
    using shared_entryE[OF assms] .
  obtain sb where "sys_stat (sfs srv) (getServerFilepath sha srv p False) = Inr sb" "st_mtim sb = t"
    using sys_stat_file[OF cp] by blast
  then show ?thesis
    using ifstream_read_file[OF cp] by (simp add: srv_GetContent_def Let_def default_MetaContent_def)
qed

lemma srv_GetContent_none:
  assumes "server_ok srv base" "shared_entry srv base p = None"
  shows "srv_GetContent sha acc srv p = Done (OK, if acc 0 then [default_MetaContent] else [], srv)"
proof -
  have "ifstream_read (sfs srv) (getServerFilepath sha srv p False) = None"
    by (rule ifstream_read_none[OF shared_entry_none[OF assms]])
  then show ?thesis
    by (simp add: srv_GetContent_def Let_def default_MetaContent_def)
qed

text \<open>
  A download that is not cut off delivers the file: the pieces put together are its bytes, each
  piece fits the buffer and carries the file's modification time, and there is a piece even for an
  empty file.  Cut off at any piece, what was delivered is a beginning of the file.
\<close>

lemma getcontent_streams_file:
  assumes "server_ok srv base" "shared_entry srv base p = Some (File d t)"
  shows "\<exists>msgs. srv_GetContent sha acc srv p = Done (OK, msgs, srv)
    \<and> (\<exists>k. concat (map mc_b msgs) = take k d)
    \<and> (acc = accept_all \<longrightarrow> msgs \<noteq> [] \<and> concat (map mc_b msgs) = d)
    \<and> (\<forall>m \<in> set msgs. mc_file_exists m \<and> mc_timestamp m = timespec_bytes t \<and> length (mc_b m) \<le> 65500)"
proof -
  have size: "length c \<le> 65500" if "c \<in> set (send_chunks BUFSIZE acc 0 d)" for c
    using send_chunks_size[OF _ that] by (simp add: BUFSIZE_def)
  show ?thesis
    unfolding srv_GetContent_file[OF assms]
    using send_chunks_prefix[of BUFSIZE acc 0 d] size by (auto simp: comp_def)
qed

text \<open>A download of a name that does not exist is one message that says so.\<close>

lemma getcontent_missing:
  assumes "server_ok srv base" "shared_entry srv base p = None"
  shows "\<exists>m. srv_GetContent sha accept_all srv p = Done (OK, [m], srv) \<and> \<not> mc_file_exists m"
  unfolding srv_GetContent_none[OF assms] by (simp add: default_MetaContent_def)

subsection \<open>Attributes\<close>

lemma srv_Stat_file:
  assumes "server_ok srv base" "shared_entry srv base p = Some (File d t)"
  shows "\<exists>r. srv_Stat sha srv p = Done (OK, r, srv) \<and> sc_return_code r = 0
    \<and> sc_st_mtim r = timespec_bytes t \<and> sc_st_size r = word_of_nat (length d)
    \<and> length (sc_st_atim r) = 16 \<and> length (sc_st_ctim r) = 16"
proof -
  obtain cp where cp: "resolve (sfs srv) (getServerFilepath sha srv p False) = Inr cp"
    "view (sfs srv) cp = Some (File d t)"
    using shared_entryE[OF assms] .
  obtain sb where "sys_stat (sfs srv) (getServerFilepath sha srv p False) = Inr sb" "st_mtim sb = t"
    "st_size sb = word_of_nat (length d)"
    using sys_stat_file[OF cp] by blast
  then show ?thesis by (simp add: srv_Stat_def timespec_bytes_def)
qed

lemma srv_Stat_none:
  assumes "server_ok srv base" "shared_entry srv base p = None"
  shows "\<exists>e. srv_Stat sha srv p =
    Done (OK, default_StatContent\<lparr>sc_return_code := -1, sc_error_number := word_of_int e\<rparr>, srv)"
proof -
  have "\<exists>e. sys_stat (sfs srv) (getServerFilepath sha srv p False) = Inl e"
    by (rule sys_stat_none[OF shared_entry_none[OF assms]])
  then show ?thesis by (auto simp: srv_Stat_def)
qed

text \<open>
  \<^verbatim>\<open>Stat\<close> reports the size and, as the sixteen bytes clients compare, the modification time of
  the file at the path, and return code \<open>-1\<close> exactly where nothing is there.
\<close>

lemma stat_reports_entry:
  assumes "server_ok srv base"
  shows "\<exists>r. srv_Stat sha srv p = Done (OK, r, srv)
    \<and> (sc_return_code r = (case shared_entry srv base p of None \<Rightarrow> -1 | Some _ \<Rightarrow> 0))
    \<and> (\<forall>d t. shared_entry srv base p = Some (File d t) \<longrightarrow>
          sc_st_mtim r = timespec_bytes t \<and> sc_st_size r = word_of_nat (length d))"
proof (cases "shared_entry srv base p")
  case None
  then show ?thesis using srv_Stat_none[OF assms None, of sha] by auto
next
  case (Some x)
  obtain cp where cp: "resolve (sfs srv) (getServerFilepath sha srv p False) = Inr cp"
    "view (sfs srv) cp = Some x"
    using shared_entryE[OF assms Some] .
  show ?thesis
  proof (cases x)
    case Folder
    with cp obtain i where "node (sfs srv) cp = Some i"
      by (auto simp: view_def)
    then show ?thesis using cp Some Folder by (simp add: srv_Stat_def sys_stat_def)
  next
    case (File d t)
    then show ?thesis using srv_Stat_file[OF assms, of p d t sha] Some by auto
  qed
qed

subsection \<open>Names\<close>

text \<open>The three calls on the map from resolved names to entries.\<close>

definition spec_unlink :: "(string list \<Rightarrow> entry option) \<Rightarrow> string list \<Rightarrow> (string list \<Rightarrow> entry option) \<times> int" where
  "spec_unlink v cp =
     (case v cp of None \<Rightarrow> (v, ENOENT) | Some Folder \<Rightarrow> (v, EISDIR) | Some (File d t) \<Rightarrow> (v(cp := None), 0))"

definition spec_mkdir :: "(string list \<Rightarrow> entry option) \<Rightarrow> string list \<Rightarrow> (string list \<Rightarrow> entry option) \<times> int" where
  "spec_mkdir v cp = (case v cp of None \<Rightarrow> (v(cp \<mapsto> Folder), 0) | Some _ \<Rightarrow> (v, EEXIST))"

definition spec_rmdir :: "(string list \<Rightarrow> entry option) \<Rightarrow> string list \<Rightarrow> (string list \<Rightarrow> entry option) \<times> int" where
  "spec_rmdir v cp =
     (case v cp of
        None \<Rightarrow> (v, ENOENT)
      | Some (File d t) \<Rightarrow> (v, ENOTDIR)
      | Some Folder \<Rightarrow>
          if cp = [] \<or> (\<exists>q. q \<noteq> [] \<and> butlast q = cp \<and> v q \<noteq> None) then (v, ENOTEMPTY) else (v(cp := None), 0))"

text \<open>What a reply says: the new map and the error number, 0 for success.\<close>

fun answer :: "(status \<times> Response \<times> server) run \<Rightarrow> ((string list \<Rightarrow> entry option) \<times> int) option" where
  "answer (Done (st, r, srv)) =
     Some (view (sfs srv),
       if resp_return_code r = 0 then 0 else if resp_return_code r = -1 then sint (resp_error_number r) else -1)"
| "answer _ = None"

definition spec_at ::
    "server \<Rightarrow> string list \<Rightarrow> string
     \<Rightarrow> ((string list \<Rightarrow> entry option) \<Rightarrow> string list \<Rightarrow> (string list \<Rightarrow> entry option) \<times> int)
     \<Rightarrow> (string list \<Rightarrow> entry option) \<times> int" where
  "spec_at srv base p f =
     (case walk (sfs srv) (base @ [FS_ROOT]) (path_comps p) of
        Inl e \<Rightarrow> (view (sfs srv), e)
      | Inr cp \<Rightarrow> f (view (sfs srv)) cp)"

lemma walk_error: "walk s cur cs = Inl e \<Longrightarrow> e \<in> {ENOENT, ENOTDIR}"
  by (induction cs arbitrary: cur) (auto split: if_splits)

lemma answer_response:
  "answer (sys_response (s, Inr u) srv) = Some (view s, 0)"
  "e \<in> {ENOENT, ENOTDIR, EISDIR, EEXIST, ENOTEMPTY} \<Longrightarrow> answer (sys_response (s, Inl e) srv) = Some (view s, e)"
  by (auto simp: sys_response_def default_Response_def)

lemma view_cases:
  obtains "view s cp = None" "node s cp = None"
  | i where "view s cp = Some Folder" "node s cp = Some i" "i_isdir (fs_inodes s i)"
  | i where "view s cp = Some (File (i_data (fs_inodes s i)) (st_mtim (i_stat (fs_inodes s i))))"
      "node s cp = Some i" "\<not> i_isdir (fs_inodes s i)"
  by (cases "node s cp") (auto simp: view_def entry_of_def)

lemma unlink_answer:
  assumes "resolve s p = Inr cp"
  shows "answer (sys_response (sys_unlink s p) srv) = Some (spec_unlink (view s) cp)"
proof (cases rule: view_cases[of s cp])
  case (3 i)
  then show ?thesis
    using assms view_drop[of s cp] by (simp add: sys_unlink_def spec_unlink_def answer_response drop_name_def)
qed (use assms in \<open>simp_all add: sys_unlink_def spec_unlink_def answer_response\<close>)

lemma mkdir_answer:
  assumes "wf_fs s" "resolve s p = Inr cp"
  shows "answer (sys_response (sys_mkdir s p mode) srv) = Some (spec_mkdir (view s) cp)"
proof (cases rule: view_cases[of s cp])
  case 1
  then show ?thesis
    using assms view_create[OF assms(1), of cp True mode]
    by (simp add: sys_mkdir_def spec_mkdir_def answer_response)
qed (use assms in \<open>simp_all add: sys_mkdir_def spec_mkdir_def answer_response\<close>)

lemma rmdir_answer:
  assumes "resolve s p = Inr cp"
  shows "answer (sys_response (sys_rmdir s p) srv) = Some (spec_rmdir (view s) cp)"
proof (cases rule: view_cases[of s cp])
  case (2 i)
  have "entries s cp = [] \<longleftrightarrow> (\<nexists>q. q \<noteq> [] \<and> butlast q = cp \<and> view s q \<noteq> None)"
    by (auto simp: entries_none node_view)
  then show ?thesis
    using assms view_drop[of s cp] 2
    by (auto simp: sys_rmdir_def spec_rmdir_def answer_response drop_name_def)
qed (use assms in \<open>simp_all add: sys_rmdir_def spec_rmdir_def answer_response\<close>)

text \<open>
  C28: \<^verbatim>\<open>Unlink\<close>, \<^verbatim>\<open>Mkdir\<close> and \<^verbatim>\<open>Rmdir\<close> refine the map: each resolves the path below \<^verbatim>\<open>fs_root\<close>, changes
  the one name it is about or none, and answers with the \<^verbatim>\<open>errno\<close> of the abstract operation.
\<close>

theorem names_refine:
  assumes "server_ok srv base"
  shows "answer (srv_Unlink sha srv p) = Some (spec_at srv base p spec_unlink)
    \<and> answer (srv_Mkdir sha srv p) = Some (spec_at srv base p spec_mkdir)
    \<and> answer (srv_Rmdir sha srv p) = Some (spec_at srv base p spec_rmdir)"
proof (cases "walk (sfs srv) (base @ [FS_ROOT]) (path_comps p)")
  case (Inl e)
  then have r: "resolve (sfs srv) (getServerFilepath sha srv p False) = Inl e"
    using resolve_shared[OF assms] by simp
  have "e \<in> {ENOENT, ENOTDIR, EISDIR, EEXIST, ENOTEMPTY}"
    using walk_error[OF Inl] by blast
  then show ?thesis
    using r Inl by (simp add: srv_Unlink_def srv_Mkdir_def srv_Rmdir_def spec_at_def sys_unlink_def
        sys_mkdir_def sys_rmdir_def answer_response)
next
  case (Inr cp)
  then have r: "resolve (sfs srv) (getServerFilepath sha srv p False) = Inr cp"
    using resolve_shared[OF assms] by simp
  have "wf_fs (sfs srv)" using assms by (simp add: server_ok_def)
  then show ?thesis
    using unlink_answer[OF r] mkdir_answer[OF _ r] rmdir_answer[OF r] Inr
    by (simp add: srv_Unlink_def srv_Mkdir_def srv_Rmdir_def spec_at_def)
qed

end
