(* ===== verification/Server_Faults.thy ===== *)
theory Server_Faults
  imports Server_Files
begin

section \<open>Which files a request can reach, and the requests that break the server\<close>

text \<open>
  First the good news: without \<^verbatim>\<open>..\<close> in its path no request touches a name outside \<^verbatim>\<open>fs_root\<close> and
  \<^verbatim>\<open>cache\<close>.  Then what goes wrong: a path with \<^verbatim>\<open>..\<close> leaves the tree, the error return of \<^verbatim>\<open>Write\<close>
  keeps the mutex, and \<^verbatim>\<open>Ls\<close> of a missing directory ends the process.
\<close>

subsection \<open>Frames of the calls\<close>

lemma frame_unlink: "resolve s p \<noteq> Inr q \<Longrightarrow> view (fst (sys_unlink s p)) q = view s q"
  by (auto simp: sys_unlink_def drop_name_def[symmetric] view_drop split: sum.splits option.splits if_splits)

lemma frame_rmdir: "resolve s p \<noteq> Inr q \<Longrightarrow> view (fst (sys_rmdir s p)) q = view s q"
  by (auto simp: sys_rmdir_def drop_name_def[symmetric] view_drop split: sum.splits option.splits if_splits)

lemma frame_mkdir: "wf_fs s \<Longrightarrow> resolve s p \<noteq> Inr q \<Longrightarrow> view (fst (sys_mkdir s p mode)) q = view s q"
  by (auto simp: sys_mkdir_def view_create split: sum.splits option.splits if_splits)

lemma frame_rename:
  assumes "wf_fs s" "view (fst (sys_rename s old new)) q \<noteq> view s q"
  shows "resolve s old = Inr q \<or> resolve s new = Inr q"
proof (cases "sys_rename s old new")
  case (Pair s' r)
  show ?thesis
  proof (cases r)
    case (Inl e)
    then show ?thesis using Pair assms(2) by (auto dest!: sys_rename_error)
  next
    case (Inr u)
    with Pair have "sys_rename s old new = (s', Inr ())" by simp
    from sys_rename_ok[OF assms(1) this] obtain co cn d t where
      "resolve s old = Inr co" "resolve s new = Inr cn" "view s' = (view s)(co := None, cn \<mapsto> File d t)"
      by metis
    then show ?thesis using Pair assms(2) by (auto split: if_splits)
  qed
qed

subsection \<open>Confinement\<close>

definition confined :: "string list \<Rightarrow> string list \<Rightarrow> bool" where
  "confined base q \<longleftrightarrow> (\<exists>zs. q = base @ FS_ROOT # zs \<or> q = base @ CACHE # zs)"

definition no_dotdot :: "string \<Rightarrow> bool" where
  "no_dotdot p \<longleftrightarrow> ''..'' \<notin> set (path_comps p)"

fun paths_of :: "request \<Rightarrow> string list" where
  "paths_of (RGetMeta p) = [p]"
| "paths_of (RGetContent p acc) = [p]"
| "paths_of (RLs p) = [p]"
| "paths_of (RWrite msgs cancelled) = map fc_filepath msgs"
| "paths_of (RStat p) = [p]"
| "paths_of (RUnlink p) = [p]"
| "paths_of (RRmdir p) = [p]"
| "paths_of (RMkdir p) = [p]"

lemma shared_confined:
  assumes "server_ok srv base" "no_dotdot p" "resolve (sfs srv) (getServerFilepath sha srv p False) = Inr q"
  shows "confined base q"
  using walk_below[of "path_comps p" "sfs srv" "base @ [FS_ROOT]" q] assms resolve_shared[OF assms(1), of sha p]
  by (auto simp: no_dotdot_def confined_def)

lemma cached_confined:
  assumes "server_ok srv base" "resolve (sfs srv) (getServerFilepath sha srv p True) = Inr q"
  shows "confined base q"
  using resolve_cached[OF assms(1), of sha p] assms(2) by (auto simp: confined_def)

lemma getServerFilepath_sfs [simp]: "getServerFilepath sha (srv\<lparr>sfs := s\<rparr>) p c = getServerFilepath sha srv p c"
  by (simp add: getServerFilepath_def)

lemma write_confined:
  assumes ok: "server_ok srv base" and np: "\<forall>m \<in> set msgs. no_dotdot (fc_filepath m)"
    and run: "serve sha junk srv (RWrite msgs cancelled) = Done srv'"
    and q: "view (sfs srv') q \<noteq> view (sfs srv) q"
  shows "confined base q"
proof -
  define m0 where "m0 = (case msgs of [] \<Rightarrow> default_FilepathContent | m # _ \<Rightarrow> m)"
  define m1 where "m1 = (if msgs = [] then m0 else last msgs)"
  define p0 where "p0 = getServerFilepath sha srv (fc_filepath m0) True"
  have np1: "no_dotdot (fc_filepath m1)"
    using np by (auto simp: m1_def m0_def no_dotdot_def default_FilepathContent_def path_comps_def)
  have wf: "wf_fs (sfs srv)" using ok by (simp add: server_ok_def)
  obtain s1 r where op: "ofstream_open (sfs srv) p0 = (s1, r)"
    by (cases "ofstream_open (sfs srv) p0")
  have free: "\<not> lock_held srv"
    using run by (auto simp: serve.simps srv_Write_def Let_def)
  show ?thesis
  proof (cases r)
    case (Inl e)
    then have "srv' = srv\<lparr>sfs := s1, lock_held := True\<rparr>" "s1 = sfs srv"
      using run op free ofstream_open_error[of "sfs srv" p0 s1 e]
      by (auto simp: serve.simps srv_Write_def Let_def p0_def m0_def)
    then show ?thesis using q by simp
  next
    case (Inr i)
    define s2 where "s2 = stream_write s1 i (fc_b m0 @ concat (map fc_b (tl msgs)))"
    have op': "ofstream_open (sfs srv) p0 = (s1, Inr i)" using op Inr by simp
    obtain cc where cc: "resolve (sfs srv) p0 = Inr cc" "\<not> is_dir (sfs srv) cc"
      using ofstream_open_ok[OF wf op'] by metis
    note w = ofstream_write[OF wf cc op', of "fc_b m0 @ concat (map fc_b (tl msgs))", folded s2_def]
    have ok2: "server_ok (srv\<lparr>sfs := s2\<rparr>) base"
      by (rule server_ok_same_dirs[OF ok w(1,3)])
    have cases: "sfs srv' = s2 \<or> sfs srv' = fst (sys_rename s2
        (getServerFilepath sha srv (fc_filepath m1) True) (getServerFilepath sha srv (fc_filepath m1) False))"
      using run op' free by (auto simp: serve.simps srv_Write_def Let_def p0_def m0_def m1_def s2_def split: if_splits)
    have "confined base q" if "view s2 q \<noteq> view (sfs srv) q"
      using that cached_confined[OF ok, of sha "fc_filepath m0" cc] cc(1) w(2)
      by (cases "q = cc") (auto simp: p0_def)
    moreover have "confined base q" if "view (fst (sys_rename s2 (getServerFilepath sha srv (fc_filepath m1) True)
        (getServerFilepath sha srv (fc_filepath m1) False))) q \<noteq> view s2 q"
      using frame_rename[OF w(1) that] cached_confined[OF ok2, of sha "fc_filepath m1" q]
        shared_confined[OF ok2 np1, of sha q] by auto
    ultimately show ?thesis using cases q by metis
  qed
qed

text \<open>
  C29: whatever the request, if no path in it has a \<^verbatim>\<open>..\<close> component, every name outside \<^verbatim>\<open>fs_root\<close> and
  \<^verbatim>\<open>cache\<close> stays what it was.
\<close>

theorem requests_confined:
  assumes "server_ok srv base" "\<forall>p \<in> set (paths_of req). no_dotdot p"
    and "serve sha junk srv req = Done srv'" "\<not> confined base q"
  shows "view (sfs srv') q = view (sfs srv) q"
proof (cases req)
  case (RWrite msgs cancelled)
  then show ?thesis using write_confined[of srv base msgs sha junk cancelled srv' q] assms by auto
next
  case (RLs p)
  then show ?thesis using serve_reads(4)[of sha junk srv p] assms(3) by auto
next
  case (RUnlink p)
  then show ?thesis
    using assms shared_confined[OF assms(1), of p sha q, unfolded atomize_imp] by (auto simp: serve_calls frame_unlink)
next
  case (RRmdir p)
  then show ?thesis
    using assms shared_confined[OF assms(1), of p sha q, unfolded atomize_imp] by (auto simp: serve_calls frame_rmdir)
next
  case (RMkdir p)
  then show ?thesis
    using assms shared_confined[OF assms(1), of p sha q, unfolded atomize_imp]
    by (auto simp: serve_calls server_ok_def frame_mkdir)
qed (use assms in \<open>simp_all add: serve_reads\<close>)

text \<open>
  With \<^verbatim>\<open>..\<close> a client reaches any file the server process can: \<^verbatim>\<open>../name\<close> removes a file that
  lies beside \<^verbatim>\<open>fs_root\<close>, and the reply is success.
\<close>

lemma dotdot_escapes:
  assumes "server_ok srv base" "view (sfs srv) (base @ [v]) = Some (File d t)"
    and "CHR ''/'' \<notin> set v" "v \<notin> {[], ''.'', ''..''}"
  shows "answer (srv_Unlink sha srv (''../'' @ v)) = Some ((view (sfs srv))(base @ [v] := None), 0)"
proof -
  have "path_comps (''../'' @ v) = [''..'', v]"
    using path_comps_slash[of "''..''" v] assms(3,4) by (simp add: path_comps_plain)
  moreover have "is_dir (sfs srv) base" "is_dir (sfs srv) (base @ [FS_ROOT])"
    using assms(1) by (simp_all add: server_ok_def)
  ultimately have "resolve (sfs srv) (getServerFilepath sha srv (''../'' @ v) False) = Inr (base @ [v])"
    using resolve_shared[OF assms(1), of sha "''../'' @ v"] assms(4) by simp
  from unlink_answer[OF this, of srv] show ?thesis
    using assms(2) by (simp add: srv_Unlink_def spec_unlink_def)
qed

subsection \<open>The mutex a failing upload keeps\<close>

fun serve_all :: "(byte_string \<Rightarrow> byte_string) \<Rightarrow> timespec \<Rightarrow> server \<Rightarrow> request list \<Rightarrow> server run" where
  "serve_all sha junk srv [] = Done srv"
| "serve_all sha junk srv (r # rs) =
     (case serve sha junk srv r of Done srv' \<Rightarrow> serve_all sha junk srv' rs | Blocked \<Rightarrow> Blocked | Crashed \<Rightarrow> Crashed)"

lemma serve_locked:
  assumes "lock_held srv" "serve sha junk srv r = Done srv'"
  shows "lock_held srv'"
proof (cases r)
  case (RWrite msgs cancelled)
  then show ?thesis using assms by (simp add: serve.simps srv_Write_def Let_def)
next
  case (RLs p)
  then show ?thesis using serve_reads(4)[of sha junk srv p] assms by auto
qed (use assms in \<open>auto simp: serve_reads serve_calls\<close>)

lemma serve_all_locked:
  "lock_held srv \<Longrightarrow> serve_all sha junk srv rs = Done srv' \<Longrightarrow> lock_held srv'"
proof (induction rs arbitrary: srv)
  case (Cons r rs)
  then show ?case
    using serve_locked[OF Cons.prems(1), of sha junk r] by (auto split: run.splits)
qed simp

text \<open>
  C37: the return on a cache file that cannot be opened skips \<^verbatim>\<open>pthread_mutex_unlock\<close>.  The client of
  that \<^verbatim>\<open>Write\<close> is told so, but from then on, whatever requests are served, every \<^verbatim>\<open>Write\<close> of every
  client waits for the mutex forever.
\<close>

theorem failed_write_blocks_all_writes:
  assumes "\<not> lock_held srv" "ofstream_open (sfs srv) (getServerFilepath sha srv (fc_filepath m) True) = (s, Inl e)"
  shows "\<exists>srv'. srv_Write sha junk srv (m # msgs) c = Done (NOT_FOUND, default_Meta, srv')
    \<and> (\<forall>rs srv'' msgs' c'. serve_all sha junk srv' rs = Done srv''
          \<longrightarrow> srv_Write sha junk srv'' msgs' c' = Blocked)"
proof (intro exI conjI allI impI)
  show "srv_Write sha junk srv (m # msgs) c = Done (NOT_FOUND, default_Meta, srv\<lparr>sfs := s, lock_held := True\<rparr>)"
    using assms by (simp add: srv_Write_def Let_def)
  fix rs srv'' msgs' c'
  assume "serve_all sha junk (srv\<lparr>sfs := s, lock_held := True\<rparr>) rs = Done srv''"
  then have "lock_held srv''"
    by (rule serve_all_locked[rotated]) simp
  then show "srv_Write sha junk srv'' msgs' c' = Blocked"
    by (simp add: srv_Write_def Let_def)
qed

subsection \<open>Listing a directory that is not there\<close>

text \<open>
  \<^verbatim>\<open>opendir\<close>'s result is not tested: listing a path that is not a directory hands NULL to
  \<^verbatim>\<open>readdir\<close> and ends the server; listing a directory returns the names in it, each once, with \<^verbatim>\<open>.\<close>
  and \<^verbatim>\<open>..\<close>.
\<close>

lemma ls_lists_or_crashes:
  assumes "server_ok srv base"
  shows "case shared_entry srv base p of
      Some Folder \<Rightarrow> \<exists>cp names. walk (sfs srv) (base @ [FS_ROOT]) (path_comps p) = Inr cp
        \<and> srv_Ls sha srv p = Done (OK, ''.'' # ''..'' # names, srv)
        \<and> set names = {w. view (sfs srv) (cp @ [w]) \<noteq> None} \<and> distinct names
    | _ \<Rightarrow> srv_Ls sha srv p = Crashed"
proof -
  let ?w = "walk (sfs srv) (base @ [FS_ROOT]) (path_comps p)"
  have r: "resolve (sfs srv) (getServerFilepath sha srv p False) = ?w"
    by (rule resolve_shared[OF assms])
  have dist: "distinct (entries (sfs srv) cp)" for cp
  proof -
    have "distinct (filter (\<lambda>q. q \<noteq> [] \<and> butlast q = cp) (map fst (fs_names (sfs srv))))"
      using assms by (simp add: server_ok_def wf_fs_def)
    moreover have "inj_on last {q \<in> fst ` set (fs_names (sfs srv)). q \<noteq> [] \<and> butlast q = cp}"
      by (rule inj_onI) (metis (mono_tags, lifting) append_butlast_last_id mem_Collect_eq)
    ultimately show ?thesis
      unfolding entries_def by (simp add: distinct_map)
  qed
  show ?thesis
  proof (cases ?w)
    case (Inl e)
    then show ?thesis using r by (simp add: shared_entry_def srv_Ls_def read_dir_def)
  next
    case (Inr cp)
    then show ?thesis
      using r dist[of cp] set_entries[of "sfs srv" cp]
      by (auto simp: shared_entry_def srv_Ls_def read_dir_def is_dir_view node_view split: option.splits entry.splits)
  qed
qed

end
