(* ===== verification/Server_Samples.thy ===== *)
theory Server_Samples
  imports Server_Faults
begin

section \<open>The server's properties at concrete states\<close>

text \<open>
  A freshly started server, one with a shared file and one with a file beside the shared tree; on
  them the hypotheses of the server's properties are discharged.
\<close>

definition sample_sha :: "byte_string \<Rightarrow> byte_string" where
  "sample_sha s = replicate 32 (CHR ''a'')"

lemma view_sample_server: "view (sfs sample_server) = [[] \<mapsto> Folder, [CACHE] \<mapsto> Folder, [FS_ROOT] \<mapsto> Folder]"
proof -
  let ?s = "create_node sample_fs [CACHE] True 0x1FF"
  have wf: "wf_fs ?s"
    using wf_create[OF wf_sample_fs, of "[CACHE]" True "0x1FF"]
    by (simp add: node_view view_sample_fs is_dir_view)
  have v: "view ?s = [[] \<mapsto> Folder, [CACHE] \<mapsto> Folder]"
    using view_create[OF wf_sample_fs, of "[CACHE]" True "0x1FF"] by (simp add: node_view view_sample_fs)
  have "node ?s [FS_ROOT] = None"
    by (simp add: node_view v, simp add: FS_ROOT_def CACHE_def)
  from view_create[OF wf this, of True "0x1FF"] show ?thesis
    by (simp add: sample_server_def v)
qed

lemma root_sample_server: "AFS_ROOT_DIR sample_server = ''/''"
  by (simp add: sample_server_def)

text \<open>A file with the bytes \<^verbatim>\<open>hello\<close> at a path of the disk.\<close>

definition with_file :: "server \<Rightarrow> string \<Rightarrow> server" where
  "with_file srv p = srv\<lparr>sfs := (case ofstream_open (sfs srv) p of
     (s, Inl e) \<Rightarrow> s | (s, Inr i) \<Rightarrow> stream_write s i ''hello'')\<rparr>"

lemma with_file_facts:
  assumes "server_ok srv base" "resolve (sfs srv) p = Inr cp" "\<not> is_dir (sfs srv) cp"
  shows "server_ok (with_file srv p) base"
    "view (sfs (with_file srv p)) = (view (sfs srv))(cp \<mapsto> File ''hello'' (fs_now (sfs srv)))"
    "lock_held (with_file srv p) = lock_held srv" "AFS_ROOT_DIR (with_file srv p) = AFS_ROOT_DIR srv"
    "fs_now (sfs (with_file srv p)) = fs_now (sfs srv)"
proof -
  obtain s i where op: "ofstream_open (sfs srv) p = (s, Inr i)"
    using ofstream_open_succeeds[OF assms(2,3)] by blast
  have wf: "wf_fs (sfs srv)" using assms(1) by (simp add: server_ok_def)
  note w = ofstream_write[OF wf assms(2,3) op, of "''hello''"]
  show "server_ok (with_file srv p) base"
    using server_ok_same_dirs[OF assms(1) w(1,3)] op by (simp add: with_file_def)
  show "view (sfs (with_file srv p)) = (view (sfs srv))(cp \<mapsto> File ''hello'' (fs_now (sfs srv)))"
    using w(2) op by (simp add: with_file_def)
  show "fs_now (sfs (with_file srv p)) = fs_now (sfs srv)"
    using w(4) op by (simp add: with_file_def)
qed (simp_all add: with_file_def)

definition sample_file_server :: server where
  "sample_file_server = with_file sample_server ''/fs_root/f''"

lemma is_dir_sample: "is_dir (sfs sample_server) q \<longleftrightarrow> q \<in> {[], [CACHE], [FS_ROOT]}"
  by (auto simp: is_dir_view view_sample_server)

lemma resolve_sample:
  "resolve (sfs sample_server) ''/fs_root/f'' = Inr [FS_ROOT, ''f'']"
  "resolve (sfs sample_server) ''/v'' = Inr [''v'']"
  by (simp_all add: resolve_def path_comps_def is_dir_sample, simp_all add: FS_ROOT_def)

lemma sample_file_server:
  "server_ok sample_file_server []" "\<not> lock_held sample_file_server"
  "view (sfs sample_file_server)
     = (view (sfs sample_server))([FS_ROOT, ''f''] \<mapsto> File ''hello'' (fs_now (sfs sample_server)))"
  using with_file_facts[OF server_ok_sample resolve_sample(1)] lock_sample
  by (auto simp: sample_file_server_def is_dir_sample FS_ROOT_def CACHE_def)

lemma walk_sample:
  assumes "server_ok srv []"
  shows "walk (sfs srv) [FS_ROOT] (path_comps ''/f'') = Inr [FS_ROOT, ''f'']"
    "walk (sfs srv) [FS_ROOT] (path_comps ''/'') = Inr [FS_ROOT]"
  using assms by (simp_all add: path_comps_def server_ok_def)

lemma shared_sample:
  "shared_entry sample_server [] ''/f'' = None"
  "shared_entry sample_server [] ''/'' = Some Folder"
  "shared_entry sample_file_server [] ''/f'' = Some (File ''hello'' (fs_now (sfs sample_server)))"
  by (simp_all add: shared_entry_def walk_sample server_ok_sample sample_file_server(1,3) view_sample_server)

lemma sample_cache_free:
  "\<not> is_dir (sfs sample_server) [CACHE, hashFilepath sha p]"
  "\<not> is_dir (sfs sample_server) [FS_ROOT, ''f'']"
  by (simp_all add: is_dir_sample)

definition sample_msgs :: "FilepathContent list" where
  "sample_msgs = [\<lparr>fc_filepath = ''/f'', fc_b = ''ab''\<rparr>, \<lparr>fc_filepath = ''/f'', fc_b = ''c''\<rparr>]"

lemma sample_msgs: "sample_msgs \<noteq> []" "\<forall>m \<in> set sample_msgs. fc_filepath m = ''/f''"
  "concat (map fc_b sample_msgs) = ''abc''"
  by (simp_all add: sample_msgs_def)

lemma sample_dst: "resolve (sfs sample_server) (getServerFilepath sha sample_server ''/f'' False) = Inr [FS_ROOT, ''f'']"
  using resolve_shared[OF server_ok_sample, of sha "''/f''"] walk_sample(1)[OF server_ok_sample] by simp

subsection \<open>Witnesses\<close>

theorem write_publishes_witness:
  "\<exists>srv'. srv_Write sample_sha sample_clock sample_server sample_msgs False =
        Done (OK, default_Meta\<lparr>meta_timestamp := timespec_bytes (fs_now (sfs sample_server))\<rparr>, srv')
      \<and> view (sfs srv') [FS_ROOT, ''f''] = Some (File ''abc'' (fs_now (sfs sample_server)))"
  using write_publishes[OF server_ok_sample lock_sample sample_msgs(1,2) _ sample_dst, of sample_sha sample_clock]
  by (auto simp: sample_cache_free sample_msgs(3))

theorem write_cancelled_witness:
  "\<exists>srv'. srv_Write sample_sha sample_clock sample_server sample_msgs True = Done (CANCELLED, default_Meta, srv')
      \<and> view (sfs srv') [FS_ROOT, ''f''] = None"
proof -
  from write_cancelled_invisible[OF server_ok_sample lock_sample sample_msgs(1,2), of sample_sha sample_clock]
  obtain srv' where "srv_Write sample_sha sample_clock sample_server sample_msgs True = Done (CANCELLED, default_Meta, srv')"
    "\<And>q. q \<noteq> [CACHE, hashFilepath sample_sha ''/f''] \<Longrightarrow> view (sfs srv') q = view (sfs sample_server) q"
    using sample_cache_free by auto
  then show ?thesis
    using view_sample_server by (simp add: FS_ROOT_def CACHE_def)
qed

theorem names_witness:
  "answer (srv_Unlink sample_sha sample_file_server ''/f'')
     = Some ((view (sfs sample_file_server))([FS_ROOT, ''f''] := None), 0)"
  using names_refine[OF sample_file_server(1), of sample_sha "''/f''"]
  by (simp add: spec_at_def walk_sample sample_file_server spec_unlink_def)

theorem requests_confined_witness:
  "view (sfs (sample_server\<lparr>sfs := fst (sys_mkdir (sfs sample_server)
     (getServerFilepath sample_sha sample_server ''/d'' False) 0x1FF)\<rparr>)) [''etc''] = None"
  using requests_confined[OF server_ok_sample _ serve_calls(3)[of sample_sha sample_clock sample_server "''/d''"],
      of "[''etc'']"]
  by (simp add: no_dotdot_def path_comps_def confined_def view_sample_server FS_ROOT_def CACHE_def)

text \<open>A server whose \<^verbatim>\<open>cache\<close> directory was removed while it ran.\<close>

definition sample_broken_server :: server where
  "sample_broken_server = sample_server\<lparr>sfs := sample_fs\<rparr>"

theorem failed_write_witness:
  "\<exists>srv'. srv_Write sample_sha sample_clock sample_broken_server sample_msgs False = Done (NOT_FOUND, default_Meta, srv')
    \<and> srv_Write sample_sha sample_clock srv' sample_msgs False = Blocked"
proof -
  let ?h = "hashFilepath sample_sha ''/f''"
  have "path_comps (''/cache/'' @ ?h) = [''cache'', ?h]"
    using path_comps_slash[of "''/cache''" ?h] by (simp add: path_comps_def[of "''/cache''"] path_comps_hash)
  then have "resolve sample_fs (''/cache/'' @ ?h) = Inl ENOENT"
    by (simp add: resolve_def is_dir_view node_view view_sample_fs)
  then have "ofstream_open (sfs sample_broken_server)
      (getServerFilepath sample_sha sample_broken_server (fc_filepath \<lparr>fc_filepath = ''/f'', fc_b = ''ab''\<rparr>) True)
    = (sample_fs, Inl ENOENT)"
    by (simp add: ofstream_open_def open_node_def getServerFilepath_def sample_broken_server_def CACHE_def
        root_sample_server)
  from failed_write_blocks_all_writes[OF _ this, of sample_clock "tl sample_msgs" False]
  obtain srv' where w: "srv_Write sample_sha sample_clock sample_broken_server sample_msgs False = Done (NOT_FOUND, default_Meta, srv')"
    "\<And>rs srv'' msgs' c'. serve_all sample_sha sample_clock srv' rs = Done srv''
          \<Longrightarrow> srv_Write sample_sha sample_clock srv'' msgs' c' = Blocked"
    using lock_sample by (auto simp: sample_msgs_def sample_broken_server_def)
  then show ?thesis using w(2)[of "[]" srv'] by auto
qed

end
