(* ===== verification/Link.thy ===== *)
theory Link
  imports Service Server_Samples
begin

section \<open>Client and server joined\<close>

text \<open>
  The stub of a client whose server is the one of \<open>Server\<close>, over a connection that neither loses
  nor reorders calls.  The world is the server, or \<open>None\<close> when its process is gone; a call to a
  missing server leaves the reply at its default with status \<^verbatim>\<open>UNAVAILABLE\<close>, which is what gRPC
  does, and a call that waits for the mutex does not return.  The contract \<open>afs_service\<close> is proved
  for this stub.
\<close>

definition call ::
    "'r \<Rightarrow> (server \<Rightarrow> (status \<times> 'r \<times> server) run) \<Rightarrow> server option \<Rightarrow> (status \<times> 'r \<times> server option) option" where
  "call dflt f w =
     (case w of
        None \<Rightarrow> Some (UNAVAILABLE, dflt, None)
      | Some srv \<Rightarrow>
          (case f srv of
             Done (st, r, srv') \<Rightarrow> Some (st, r, Some srv')
           | Blocked \<Rightarrow> None
           | Crashed \<Rightarrow> Some (UNAVAILABLE, dflt, None)))"

definition server_stub :: "(byte_string \<Rightarrow> byte_string) \<Rightarrow> timespec \<Rightarrow> server option stub" where
  "server_stub digest' junk =
     \<lparr>rpc_Stat = (\<lambda>w p. map_option snd (call default_StatContent (\<lambda>srv. srv_Stat digest' srv p) w)),
      rpc_GetContent = (\<lambda>w p. map_option (\<lambda>(st, msgs, w'). (msgs, st, w'))
        (call [] (\<lambda>srv. srv_GetContent digest' accept_all srv p) w)),
      rpc_Ls = (\<lambda>w p. map_option snd (call [] (\<lambda>srv. srv_Ls digest' srv p) w)),
      rpc_accepts = (\<lambda>w i. w \<noteq> None),
      rpc_Write = (\<lambda>w msgs. call default_Meta (\<lambda>srv. srv_Write digest' junk srv msgs False) w),
      rpc_Write_killed = (\<lambda>w msgs.
        case call default_Meta (\<lambda>srv. srv_Write digest' junk srv msgs True) w of
          None \<Rightarrow> w | Some (st, r, w') \<Rightarrow> w'),
      rpc_Unlink = (\<lambda>w p. map_option snd (call default_Response (\<lambda>srv. srv_Unlink digest' srv p) w)),
      rpc_Mkdir = (\<lambda>w p. map_option snd (call default_Response (\<lambda>srv. srv_Mkdir digest' srv p) w)),
      rpc_Rmdir = (\<lambda>w p. map_option snd (call default_Response (\<lambda>srv. srv_Rmdir digest' srv p) w))\<rparr>"

subsection \<open>The shared files\<close>

definition world_up :: "string list \<Rightarrow> server option \<Rightarrow> bool" where
  "world_up base w \<longleftrightarrow>
     (\<exists>srv. w = Some srv \<and> server_ok srv base \<and> \<not> lock_held srv
        \<and> (\<forall>h. length h = 64 \<longrightarrow> \<not> is_dir (sfs srv) (base @ [CACHE, h])))"

fun entry_file :: "entry option \<Rightarrow> (byte_string \<times> timespec) option" where
  "entry_file (Some (File d t)) = Some (d, t)"
| "entry_file _ = None"

fun world_file :: "string list \<Rightarrow> server option \<Rightarrow> string \<Rightarrow> (byte_string \<times> timespec) option" where
  "world_file base None p = None"
| "world_file base (Some srv) p = (if no_dotdot p then entry_file (shared_entry srv base p) else None)"

definition shared_path :: "server \<Rightarrow> string list \<Rightarrow> string \<Rightarrow> string list sysres" where
  "shared_path srv base p = walk (sfs srv) (base @ [FS_ROOT]) (path_comps p)"

fun world_same :: "string list \<Rightarrow> server option \<Rightarrow> string \<Rightarrow> string \<Rightarrow> bool" where
  "world_same base None p q = False"
| "world_same base (Some srv) p q =
     (no_dotdot p \<and> no_dotdot q \<and> (\<exists>cp. shared_path srv base p = Inr cp \<and> shared_path srv base q = Inr cp))"

fun world_free :: "string list \<Rightarrow> server option \<Rightarrow> string \<Rightarrow> bool" where
  "world_free base None p = False"
| "world_free base (Some srv) p =
     (no_dotdot p \<and> (\<exists>cp. shared_path srv base p = Inr cp \<and> view (sfs srv) cp = None))"

fun world_now :: "server option \<Rightarrow> timespec" where
  "world_now None = \<lparr>tv_sec = 0, tv_nsec = 0\<rparr>"
| "world_now (Some srv) = fs_now (sfs srv)"

lemma entry_file_Some: "entry_file x = Some (d, t) \<longleftrightarrow> x = Some (File d t)"
  by (cases x rule: entry_file.cases) auto

lemma world_file_Some:
  "world_file base (Some srv) p = Some (d, t) \<longleftrightarrow> no_dotdot p \<and> shared_entry srv base p = Some (File d t)"
  by (simp add: entry_file_Some)

lemma shared_entry_path:
  "shared_entry srv base p = (case shared_path srv base p of Inl e \<Rightarrow> None | Inr cp \<Rightarrow> view (sfs srv) cp)"
  by (simp add: shared_entry_def shared_path_def)

lemma writable_path:
  assumes "world_file base (Some srv) p \<noteq> None \<or> world_free base (Some srv) p"
  shows "no_dotdot p \<and> (\<exists>cp. shared_path srv base p = Inr cp \<and> \<not> is_dir (sfs srv) cp)"
  using assms
proof
  assume "world_file base (Some srv) p \<noteq> None"
  then obtain d t where "no_dotdot p" "shared_entry srv base p = Some (File d t)"
    using world_file_Some[of base srv p] by (cases "world_file base (Some srv) p") auto
  then show ?thesis
    by (cases "shared_path srv base p") (auto simp: shared_entry_path is_dir_view)
qed (auto simp: is_dir_view)

lemma shared_path_below:
  "no_dotdot p \<Longrightarrow> shared_path srv base p = Inr cp \<Longrightarrow> \<exists>zs. cp = base @ FS_ROOT # zs"
  using walk_below[of "path_comps p" "sfs srv" "base @ [FS_ROOT]" cp] by (auto simp: shared_path_def no_dotdot_def)

text \<open>A change of files keeps where paths lead.\<close>

lemma shared_path_dirs:
  assumes "\<And>q. is_dir (sfs srv') q = is_dir (sfs srv) q"
  shows "shared_path srv' base p = Inr cp \<longleftrightarrow> shared_path srv base p = Inr cp"
  using walk_dirs[OF assms] by (simp add: shared_path_def)

lemma shared_entry_dirs:
  assumes "\<And>q. is_dir (sfs srv') q = is_dir (sfs srv) q"
  shows "shared_entry srv' base p
    = (case shared_path srv base p of Inl e \<Rightarrow> None | Inr cp \<Rightarrow> view (sfs srv') cp)"
proof (cases "shared_path srv base p")
  case (Inl e)
  then have "\<nexists>cp. shared_path srv' base p = Inr cp"
    using shared_path_dirs[OF assms] by simp
  then show ?thesis
    using Inl by (cases "shared_path srv' base p") (auto simp: shared_entry_path)
next
  case (Inr cp)
  then have "shared_path srv' base p = Inr cp"
    using shared_path_dirs[OF assms] by simp
  with Inr show ?thesis by (simp add: shared_entry_path)
qed

subsection \<open>The contract holds\<close>

lemma link_stat:
  assumes "world_up base w" "world_file base w p = Some (d, t)"
  shows "\<exists>r. rpc_Stat (server_stub dg junk) w p = Some (r, w) \<and> sc_return_code r = 0
    \<and> sc_st_mtim r = timespec_bytes t"
proof -
  obtain srv where srv: "w = Some srv" "server_ok srv base"
    using assms(1) by (auto simp: world_up_def)
  then have "shared_entry srv base p = Some (File d t)"
    using assms(2) world_file_Some by blast
  from srv_Stat_file[OF srv(2) this, of dg] show ?thesis
    using srv(1) by (auto simp: server_stub_def call_def)
qed

lemma link_get:
  assumes "world_up base w" "world_file base w p = Some (d, t)"
  shows "\<exists>msgs. rpc_GetContent (server_stub dg junk) w p = Some (msgs, OK, w) \<and> msgs \<noteq> []
    \<and> concat (map mc_b msgs) = d \<and> (\<forall>m \<in> set msgs. mc_file_exists m \<and> mc_timestamp m = timespec_bytes t)"
proof -
  obtain srv where srv: "w = Some srv" "server_ok srv base"
    using assms(1) by (auto simp: world_up_def)
  then have "shared_entry srv base p = Some (File d t)"
    using assms(2) world_file_Some by blast
  from srv_GetContent_file[OF srv(2) this, of dg accept_all] show ?thesis
    using srv(1) by (auto simp: server_stub_def call_def comp_def)
qed

lemma link_write:
  assumes up: "world_up base w" and old_file: "world_file base w p \<noteq> None \<or> world_free base w p"
    and msgs: "msgs \<noteq> []" "\<forall>m \<in> set msgs. fc_filepath m = p"
  shows "\<exists>meta w'. rpc_Write (server_stub dg junk) w msgs = Some (OK, meta, w') \<and> world_up base w'
    \<and> meta_timestamp meta = timespec_bytes (world_now w)
    \<and> world_file base w' = (\<lambda>q. if world_same base w p q then Some (concat (map fc_b msgs), world_now w)
        else world_file base w q)"
proof -
  obtain srv where srv: "w = Some srv" "server_ok srv base" "\<not> lock_held srv"
    "\<forall>h. length h = 64 \<longrightarrow> \<not> is_dir (sfs srv) (base @ [CACHE, h])"
    using up by (auto simp: world_up_def)
  obtain cp where cp: "no_dotdot p" "shared_path srv base p = Inr cp" "\<not> is_dir (sfs srv) cp"
    using writable_path[OF old_file[unfolded srv(1)]] by blast
  let ?cc = "base @ [CACHE, hashFilepath dg p]"
  let ?new = "File (concat (map fc_b msgs)) (fs_now (sfs srv))"
  have cc: "\<not> is_dir (sfs srv) ?cc" using srv(4) by simp
  have dst: "resolve (sfs srv) (getServerFilepath dg srv p False) = Inr cp" "\<not> is_dir (sfs srv) cp"
    using cp resolve_shared[OF srv(2), of dg p] by (simp_all add: shared_path_def)
  obtain srv' where w: "srv_Write dg junk srv msgs False =
        Done (OK, default_Meta\<lparr>meta_timestamp := timespec_bytes (fs_now (sfs srv))\<rparr>, srv')"
    "view (sfs srv') = (view (sfs srv))(?cc := None, cp \<mapsto> ?new)" "\<not> lock_held srv'" "server_ok srv' base"
    using srv_Write_published[OF srv(2,3) msgs cc dst] by blast
  have dirs: "is_dir (sfs srv') q = is_dir (sfs srv) q" for q
    using cc dst(2) by (auto simp: is_dir_view w(2))
  have entry: "shared_entry srv' base q = (if shared_path srv base q = Inr cp then Some ?new else shared_entry srv base q)"
    if q: "no_dotdot q" for q
  proof (cases "shared_path srv base q")
    case (Inr cq)
    then obtain zs where "cq = base @ FS_ROOT # zs"
      using shared_path_below[OF q] by blast
    then have "cq \<noteq> ?cc" by (simp add: FS_ROOT_def CACHE_def)
    then show ?thesis
      using shared_entry_dirs[OF dirs, of base q] Inr by (simp add: w(2) shared_entry_path)
  qed (subst shared_entry_dirs[OF dirs], simp add: shared_entry_path)
  have files: "world_file base (Some srv') q = (if world_same base w p q then Some (concat (map fc_b msgs), world_now w)
        else world_file base w q)" for q
    using entry[of q] srv(1) cp(1,2) by auto
  show ?thesis
    using w(1,3,4) srv(1,4) dirs files
    by (intro exI[of _ "default_Meta\<lparr>meta_timestamp := timespec_bytes (fs_now (sfs srv))\<rparr>"] exI[of _ "Some srv'"])
      (auto simp: server_stub_def call_def world_up_def)
qed

lemma link_killed:
  assumes up: "world_up base w" and old_file: "world_file base w p \<noteq> None \<or> world_free base w p"
    and msgs: "\<forall>m \<in> set msgs. fc_filepath m = p" "msgs \<noteq> []"
  shows "world_up base (rpc_Write_killed (server_stub dg junk) w msgs)
    \<and> world_file base (rpc_Write_killed (server_stub dg junk) w msgs) = world_file base w"
proof -
  obtain srv where srv: "w = Some srv" "server_ok srv base" "\<not> lock_held srv"
    "\<forall>h. length h = 64 \<longrightarrow> \<not> is_dir (sfs srv) (base @ [CACHE, h])"
    using up by (auto simp: world_up_def)
  let ?cc = "base @ [CACHE, hashFilepath dg p]"
  have cc: "\<not> is_dir (sfs srv) ?cc" using srv(4) by simp
  obtain s2 where s2: "view s2 = (view (sfs srv))(?cc \<mapsto> File (concat (map fc_b msgs)) (fs_now (sfs srv)))"
    "wf_fs s2" "\<And>q. is_dir s2 q = is_dir (sfs srv) q"
    "srv_Write dg junk srv msgs True = Done (CANCELLED, default_Meta, srv\<lparr>sfs := s2\<rparr>)"
    using srv_Write_cases[OF srv(2,3) msgs(2,1) cc] by metis
  let ?srv' = "srv\<lparr>sfs := s2\<rparr>"
  have dirs: "is_dir (sfs ?srv') q = is_dir (sfs srv) q" for q
    using s2(3) by simp
  have entry: "shared_entry ?srv' base q = shared_entry srv base q" if q: "no_dotdot q" for q
  proof (cases "shared_path srv base q")
    case (Inr cq)
    then obtain zs where "cq = base @ FS_ROOT # zs"
      using shared_path_below[OF q] by blast
    then have "cq \<noteq> ?cc" by (simp add: FS_ROOT_def CACHE_def)
    then show ?thesis
      using shared_entry_dirs[OF dirs, of base q] Inr s2(1) by (simp add: shared_entry_path)
  qed (subst shared_entry_dirs[OF dirs], simp add: shared_entry_path)
  have "rpc_Write_killed (server_stub dg junk) w msgs = Some ?srv'"
    using s2(4) srv(1) by (simp add: server_stub_def call_def)
  moreover have "world_file base (Some ?srv') q = world_file base w q" for q
    using entry[of q] srv(1) by simp
  ultimately show ?thesis
    using server_ok_same_dirs[OF srv(2) s2(2,3)] srv(3,4) s2(3) by (auto simp: world_up_def)
qed

lemma link_accepts: "world_up base w \<Longrightarrow> rpc_accepts (server_stub dg junk) w = accept_all"
  by (auto simp: server_stub_def world_up_def)

lemma link_same_refl: "world_file base w p \<noteq> None \<or> world_free base w p \<Longrightarrow> world_same base w p p"
proof (cases w)
  case (Some srv)
  assume "world_file base w p \<noteq> None \<or> world_free base w p"
  from writable_path[OF this[unfolded Some]] show "world_same base w p p"
    using Some by auto
qed simp

lemma world_free_entry: "world_free base (Some srv) p \<Longrightarrow> shared_entry srv base p = None"
  by (auto simp: shared_entry_path)

lemma link_stat_free:
  assumes "world_up base w" "world_free base w p"
  shows "\<exists>r. rpc_Stat (server_stub dg junk) w p = Some (r, w) \<and> sc_return_code r = -1"
proof -
  obtain srv where srv: "w = Some srv" "server_ok srv base"
    using assms(1) by (auto simp: world_up_def)
  then show ?thesis
    using srv_Stat_none[OF srv(2) world_free_entry, of p dg] assms(2) by (auto simp: server_stub_def call_def)
qed

lemma link_get_free:
  assumes "world_up base w" "world_free base w p"
  shows "\<exists>m. rpc_GetContent (server_stub dg junk) w p = Some ([m], OK, w) \<and> \<not> mc_file_exists m"
proof -
  obtain srv where srv: "w = Some srv" "server_ok srv base"
    using assms(1) by (auto simp: world_up_def)
  then show ?thesis
    using srv_GetContent_none[OF srv(2) world_free_entry, of p dg] assms(2)
    by (auto simp: server_stub_def call_def default_MetaContent_def)
qed

interpretation link: afs_service "server_stub dg junk" "world_up base" "world_file base" "world_same base" world_now "world_free base"
  for dg :: "byte_string \<Rightarrow> byte_string" and junk :: timespec and base :: "string list"
  by unfold_locales
    (assumption | rule link_stat link_get link_stat_free link_get_free link_accepts link_write link_killed link_same_refl)+

end
