(* ===== verification/Sessions.thy ===== *)
theory Sessions
  imports Link
begin

section \<open>Opening, writing and closing shared files\<close>

text \<open>
  The properties that span client and server: what a program on one machine reads after another
  has closed the file, what happens to writes, and what the crash of a client during an upload
  leaves.  All are stated on the joined model of \<open>Link\<close> and rest on the contract \<open>afs_service\<close>.
\<close>

text \<open>What a reader of an open descriptor gets.\<close>

definition reads_as ::
    "client \<Rightarrow> server option \<Rightarrow> string \<Rightarrow> fuse_file_info \<Rightarrow> byte_string \<Rightarrow> bool" where
  "reads_as c w p fi d \<longleftrightarrow>
     (\<forall>n off. 0 \<le> off \<longrightarrow> afs_read c w p n off fi
        = Ret (int_of_ssize (length (take n (drop (nat off) d))), take n (drop (nat off) d)) c w)"

lemma open_reads:
  assumes "open_on e c base p fi" "cached e c base p = Some (File d t)" "o_read (flags fi)"
  shows "reads_as c w p fi d"
  using afs_read_open[OF assms, of _ w] by (simp add: reads_as_def)

subsection \<open>Opening\<close>

text \<open>
  C18: opening a file of which the client has no copy, or a copy with another modification time,
  downloads it: the open succeeds, reads through the descriptor give the server's bytes, the copy is
  recorded with the server's time and as clean, and the copies of other paths are untouched.
\<close>

theorem open_downloads:
  assumes "cache_ok c cb" "world_up base w" "world_file base w p = Some (d, t)"
    and "plain_flags (flags fi)" "o_read (flags fi)" "fs_next_fd (cfs c) < 2 ^ 31"
    and "time_count e c p = 1 \<longrightarrow> time_get e c p \<notin> {LOCAL_CREAT_FILE, timespec_bytes t}"
  shows "\<exists>c' fi'. afs_open e (server_stub dg junk) c w p fi = Ret (0, fi') c' w
    \<and> reads_as c' w p fi' d \<and> time_get e c' p = timespec_bytes t \<and> \<not> dirty_get e c' p
    \<and> cache_ok c' cb \<and> (\<forall>q. key e q \<noteq> key e p \<longrightarrow> cached e c' cb q = cached e c cb q)"
  using link.open_fetch[OF assms(1-4,6,7), of dg junk] open_reads assms(5) by metis

text \<open>
  Opening a file whose copy has the server's modification time costs one \<^verbatim>\<open>Stat\<close>: nothing is
  downloaded, tables and copies stay, and reads give the copy's bytes.
\<close>

lemma open_uses_cache:
  assumes "cache_ok c cb" "world_up base w" "world_file base w p = Some (d, t)"
    and "plain_flags (flags fi)" "o_read (flags fi)" "fs_next_fd (cfs c) < 2 ^ 31"
    and "time_count e c p = 1" "time_get e c p = timespec_bytes t" "cached e c cb p = Some (File d' t')"
  shows "\<exists>s fi'. afs_open e (server_stub dg junk) c w p fi = Ret (0, fi') (c\<lparr>cfs := s\<rparr>) w
    \<and> view s = view (cfs c) \<and> reads_as (c\<lparr>cfs := s\<rparr>) w p fi' d'"
proof -
  from link.open_hit[OF assms(1-4,6-9), of dg junk]
  obtain s fi' where o: "afs_open e (server_stub dg junk) c w p fi = Ret (0, fi') (c\<lparr>cfs := s\<rparr>) w"
    "flags fi' = flags fi" "view s = view (cfs c)" "open_on e (c\<lparr>cfs := s\<rparr>) cb p fi'" by blast
  have "cached e (c\<lparr>cfs := s\<rparr>) cb p = Some (File d' t')"
    using o(3) assms(9) by (simp add: cached_def)
  then show ?thesis
    using o open_reads[OF o(4), of d' t' w] assms(5) by auto
qed

text \<open>
  An open that finds the server's time changed throws the copy away even when it holds writes
  not yet uploaded: the dirty mark is cleared and the unsaved bytes are gone.
\<close>

lemma open_discards_unsaved:
  assumes "cache_ok c cb" "world_up base w" "world_file base w p = Some (d, t)"
    and "plain_flags (flags fi)" "fs_next_fd (cfs c) < 2 ^ 31"
    and "time_count e c p = 1" "time_get e c p \<notin> {LOCAL_CREAT_FILE, timespec_bytes t}"
    and "dirty_get e c p" "cached e c cb p = Some (File unsaved t')"
  shows "\<exists>c' fi'. afs_open e (server_stub dg junk) c w p fi = Ret (0, fi') c' w
    \<and> \<not> dirty_get e c' p \<and> cached e c' cb p = Some (File d (fs_now (cfs c)))"
  using link.open_fetch[OF assms(1-5), of e dg junk] assms(7) by blast

lemma open_cache_file_result: "open_cache_file e c w p fi = Ret (rc, fi') c' w' \<Longrightarrow> rc = 0"
  by (auto simp: open_cache_file_zero split: prod.splits)

lemma download_result: "download e stub c w p fi = Ret (rc, fi') c' w' \<Longrightarrow> rc \<in> {0, - EIO}"
  by (auto simp: download_def Let_def dest!: open_cache_file_result
      split: option.splits prod.splits list.splits if_splits)

text \<open>
  \<^verbatim>\<open>fi->fh < 0\<close> compares an unsigned number, so a cache file that cannot be opened is not
  reported: whatever the stub does, \<^verbatim>\<open>afs_open\<close> returns 0 or \<^verbatim>\<open>-EIO\<close> only, and where opening a locally
  created file fails it returns 0 with the descriptor \<open>-1\<close>.
\<close>

lemma open_hides_failures:
  assumes "afs_open e stub c w p fi = Ret (rc, fi') c' w'"
  shows "rc \<in> {0, - EIO}
    \<and> (time_count e c p = 1 \<and> time_get e c p = LOCAL_CREAT_FILE
        \<and> (\<exists>s err. sys_open (cfs c) (cache_file e c p) (flags fi) 0 = (s, Inl err))
       \<longrightarrow> rc = 0 \<and> fd_of fi' = -1)"
proof
  show "rc \<in> {0, - EIO}"
    using assms unfolding afs_open_def Let_def
    by (auto split: if_splits option.splits prod.splits dest: open_cache_file_result download_result)
next
  have "fd_of (fi\<lparr>fh := -1\<rparr>) = -1"
    by (simp add: fd_of_def unsigned_minus_1_eq_mask mask_eq_exp_minus_1)
  then show "time_count e c p = 1 \<and> time_get e c p = LOCAL_CREAT_FILE
        \<and> (\<exists>s err. sys_open (cfs c) (cache_file e c p) (flags fi) 0 = (s, Inl err))
       \<longrightarrow> rc = 0 \<and> fd_of fi' = -1"
    using assms by (auto simp: afs_open_def open_cache_file_zero fh_of_def)
qed

subsection \<open>Writing\<close>

text \<open>Writing through a descriptor of the copy.\<close>

lemma afs_write_copy:
  assumes "cache_ok c cb" "open_on e c cb p fi" "cached e c cb p = Some (File d t)"
    and "o_write (flags fi)" "\<not> o_append (flags fi)"
    and "0 \<le> off" "buf \<noteq> []" "length buf < 2 ^ 31"
  obtains s where "afs_write e c w p buf off fi = Ret (int (length buf)) ((dirty_set e c p True)\<lparr>cfs := s\<rparr>) w"
    "cache_ok ((dirty_set e c p True)\<lparr>cfs := s\<rparr>) cb" "open_on e ((dirty_set e c p True)\<lparr>cfs := s\<rparr>) cb p fi"
    "cached e ((dirty_set e c p True)\<lparr>cfs := s\<rparr>) cb p = Some (File (put_bytes d (nat off) buf) (fs_now (cfs c)))"
proof -
  have dir: "cache_dir (cfs c) (cache_root c) cb"
    using assms(1) by (simp add: cache_ok_def)
  have wf: "wf_fs (cfs c)" "0 \<le> fs_next_fd (cfs c)"
    using dir by (auto simp: cache_dir_def)
  obtain s where s: "sys_pwrite (cfs c) (fd_of fi) buf off = (s, Inr (length buf))"
    "view s = (view (cfs c))(cb @ [key e p] \<mapsto> File (put_bytes d (nat off) buf) (fs_now (cfs c)))" "wf_fs s"
    "fd_at s (fd_of fi) (cb @ [key e p]) (flags fi)" "fs_next_fd s = fs_next_fd (cfs c)"
    using sys_pwrite_at[OF wf(1), of "fd_of fi" "cb @ [key e p]" "flags fi" d t off buf] assms
    unfolding open_on_def cached_def by blast
  show thesis
    by (rule that[of s])
      (use s assms(8) wf(2) cache_dir_step[OF dir s(3) _ s(2)] in
        \<open>simp_all add: afs_write_def Let_def int_of_ssize_id cache_ok_def open_on_def cached_def\<close>)
qed

lemma afs_write_open:
  assumes "cache_ok c cb" "open_on e c cb p fi" "cached e c cb p = Some (File d t)"
    and "o_write (flags fi)" "o_read (flags fi)" "\<not> o_append (flags fi)"
    and "0 \<le> off" "buf \<noteq> []" "length buf < 2 ^ 31"
    and "is_dirty_synced (is_dirty c) (is_dirty_files c)" "can_write e" "visits_all (dirty_env e)"
  shows "\<exists>c'. afs_write e c w p buf off fi = Ret (int (length buf)) c' w
    \<and> dirty_get e c' p \<and> reads_as c' w p fi (put_bytes d (nat off) buf)
    \<and> is_dirty_synced (is_dirty c') (is_dirty_files c') \<and> cache_ok c' cb
    \<and> last_modified c' = last_modified c \<and> (\<exists>t'. cached e c' cb p = Some (File (put_bytes d (nat off) buf) t'))"
proof -
  obtain s where w: "afs_write e c w p buf off fi = Ret (int (length buf)) ((dirty_set e c p True)\<lparr>cfs := s\<rparr>) w"
    and k: "cache_ok ((dirty_set e c p True)\<lparr>cfs := s\<rparr>) cb" "open_on e ((dirty_set e c p True)\<lparr>cfs := s\<rparr>) cb p fi"
      "cached e ((dirty_set e c p True)\<lparr>cfs := s\<rparr>) cb p
        = Some (File (put_bytes d (nat off) buf) (fs_now (cfs c)))"
    using afs_write_copy[OF assms(1-4,6-9), of w] by metis
  let ?c' = "(dirty_set e c p True)\<lparr>cfs := s\<rparr>"
  have r: "reads_as ?c' w p fi (put_bytes d (nat off) buf)"
    by (rule open_reads[OF k(2,3) assms(5)])
  obtain obj ops where "is_dirty_set (dirty_env e) (is_dirty c) p True = (obj, ops)"
    by (cases "is_dirty_set (dirty_env e) (is_dirty c) p True")
  moreover have "writable (dirty_env e)"
    using assms(11) by (simp add: dirty_env_def)
  ultimately have "is_dirty_synced (is_dirty ?c') (is_dirty_files ?c')"
    using is_dirty_set_cases[OF assms(10) _ assms(12)] by (simp add: dirty_set_def)
  then show ?thesis
    using w r k by (intro exI[of _ ?c']) simp
qed

text \<open>
  C22: a write marks the file dirty, in memory and in the log on disk, before the bytes reach the
  cache, and then changes exactly the written range: a read through the same descriptor gives the
  old bytes with the written ones spliced in, and nothing goes to the server.
\<close>

theorem write_is_local:
  assumes "cache_ok c cb" "open_on e c cb p fi" "cached e c cb p = Some (File d t)"
    and "o_write (flags fi)" "o_read (flags fi)" "\<not> o_append (flags fi)"
    and "0 \<le> off" "buf \<noteq> []" "length buf < 2 ^ 31"
    and "is_dirty_synced (is_dirty c) (is_dirty_files c)" "can_write e" "visits_all (dirty_env e)"
  shows "\<exists>c'. afs_write e c w p buf off fi = Ret (int (length buf)) c' w
    \<and> dirty_get e c' p \<and> reads_as c' w p fi (put_bytes d (nat off) buf)
    \<and> is_dirty_synced (is_dirty c') (is_dirty_files c') \<and> cache_ok c' cb
    \<and> last_modified c' = last_modified c"
  using afs_write_open[OF assms] by blast

subsection \<open>Closing\<close>

text \<open>
  C4: closing a dirty file makes its copy's bytes the server's, whole, under the path and no other
  name; afterwards the copy is clean and carries the new modification time, so that the next open
  uses it.
\<close>

theorem release_uploads:
  assumes "cache_ok c cb" "world_up base w" "world_file base w p \<noteq> None \<or> world_free base w p"
    and "dirty_get e c p" "cached e c cb p = Some (File d t)" "failure_point e = 3"
  shows "\<exists>c' w'. afs_release e (server_stub dg junk) c w p fi = Ret 0 c' w' \<and> world_up base w'
    \<and> world_file base w' p = Some (d, world_now w)
    \<and> (\<forall>q. \<not> world_same base w p q \<longrightarrow> world_file base w' q = world_file base w q)
    \<and> \<not> dirty_get e c' p \<and> time_get e c' p = timespec_bytes (world_now w)
    \<and> cached e c' cb p = Some (File d t)"
  using link.release_dirty[OF assms, of dg junk fi] link.same_refl[OF assms(3)] assms(5) by fastforce

text \<open>Closing a clean file only closes the descriptor: the world and the tables stay.\<close>

lemma release_clean:
  assumes "\<not> dirty_get e c p"
  shows "afs_release e stub c w p fi = Ret 0 (c\<lparr>cfs := fst (sys_close (cfs c) (fd_of fi))\<rparr>) w"
  using assms by (simp add: afs_release_def Let_def)

text \<open>
  C2: close-to-open consistency.  After client A has closed a dirty file, client B opening it (by the
  same or another path to it) reads exactly A's bytes, if B had no copy or one with another
  modification time.
\<close>

theorem close_to_open:
  assumes "cache_ok cA ca" "dirty_get eA cA p" "cached eA cA ca p = Some (File d tA)" "failure_point eA = 3"
    and "world_up base w" "world_file base w p \<noteq> None \<or> world_free base w p" "world_same base w p q"
    and "cache_ok cB cb" "plain_flags (flags fi)" "o_read (flags fi)" "fs_next_fd (cfs cB) < 2 ^ 31"
    and "time_count eB cB q = 1 \<longrightarrow> time_get eB cB q \<notin> {LOCAL_CREAT_FILE, timespec_bytes (world_now w)}"
  shows "\<exists>cA' w' cB' fi'. afs_release eA (server_stub dg junk) cA w p fiA = Ret 0 cA' w'
    \<and> afs_open eB (server_stub dg junk) cB w' q fi = Ret (0, fi') cB' w' \<and> reads_as cB' w' q fi' d"
proof -
  obtain cA' w' where r: "afs_release eA (server_stub dg junk) cA w p fiA = Ret 0 cA' w'" "world_up base w'"
    "world_file base w' q = Some (d, world_now w)"
    using link.release_dirty[OF assms(1,5,6,2,3,4), of dg junk fiA] assms(7) by fastforce
  from link.open_fetch[OF assms(8) r(2,3) assms(9,11,12), of dg junk]
  obtain cB' fi' where "afs_open eB (server_stub dg junk) cB w' q fi = Ret (0, fi') cB' w'" "flags fi' = flags fi"
    "open_on eB cB' cb q fi'" "cached eB cB' cb q = Some (File d (fs_now (cfs cB)))" by blast
  then show ?thesis
    using r(1) open_reads assms(10) by metis
qed

text \<open>
  The one gap in it: modification times are all the client compares.  If B's copy was made from a
  version with the same time as A's upload (two uploads within one tick of the server's clock), B's
  next open takes its old copy, and B reads what the file was before A closed it.
\<close>

lemma same_tick_reads_stale:
  assumes "cache_ok cA ca" "dirty_get eA cA p" "cached eA cA ca p = Some (File d tA)" "failure_point eA = 3"
    and "world_up base w" "world_file base w p = Some (old, world_now w)"
    and "cache_ok cB cb" "plain_flags (flags fi)" "o_read (flags fi)" "fs_next_fd (cfs cB) < 2 ^ 31"
    and "time_count eB cB p = 1" "time_get eB cB p = timespec_bytes (world_now w)"
    and "cached eB cB cb p = Some (File old tB)"
  shows "\<exists>cA' w' cB' fi'. afs_release eA (server_stub dg junk) cA w p fiA = Ret 0 cA' w'
    \<and> world_file base w' p = Some (d, world_now w)
    \<and> afs_open eB (server_stub dg junk) cB w' p fi = Ret (0, fi') cB' w' \<and> reads_as cB' w' p fi' old"
proof -
  have f: "world_file base w p \<noteq> None \<or> world_free base w p" using assms(6) by simp
  obtain cA' w' where r: "afs_release eA (server_stub dg junk) cA w p fiA = Ret 0 cA' w'" "world_up base w'"
    "world_file base w' p = Some (d, world_now w)"
    using link.release_dirty[OF assms(1,5) f assms(2,3,4), of dg junk fiA] link.same_refl[OF f] by fastforce
  from link.open_hit[OF assms(7) r(2,3) assms(8,10-13), of dg junk]
  obtain s fi' where o: "afs_open eB (server_stub dg junk) cB w' p fi = Ret (0, fi') (cB\<lparr>cfs := s\<rparr>) w'"
    "flags fi' = flags fi" "view s = view (cfs cB)" "open_on eB (cB\<lparr>cfs := s\<rparr>) cb p fi'" by blast
  have "cached eB (cB\<lparr>cfs := s\<rparr>) cb p = Some (File old tB)"
    using o(3) assms(13) by (simp add: cached_def)
  then show ?thesis
    using r(1,3) o open_reads[OF o(4), of old tB w'] assms(9) by metis
qed

text \<open>
  The last close wins.  If A and B both hold writes to a file and close one after the other, the
  file is B's copy, whole; nothing of A's is mixed in.
\<close>

lemma last_close_wins:
  assumes "cache_ok cA ca" "dirty_get eA cA p" "cached eA cA ca p = Some (File dA tA)" "failure_point eA = 3"
    and "cache_ok cB cb" "dirty_get eB cB p" "cached eB cB cb p = Some (File dB tB)" "failure_point eB = 3"
    and "world_up base w" "world_file base w p \<noteq> None \<or> world_free base w p"
  shows "\<exists>cA' w1 cB' w2. afs_release eA (server_stub dg junk) cA w p fiA = Ret 0 cA' w1
    \<and> afs_release eB (server_stub dg junk) cB w1 p fiB = Ret 0 cB' w2
    \<and> world_file base w1 p = Some (dA, world_now w) \<and> world_file base w2 p = Some (dB, world_now w1)"
proof -
  obtain cA' w1 where a: "afs_release eA (server_stub dg junk) cA w p fiA = Ret 0 cA' w1" "world_up base w1"
    "world_file base w1 p = Some (dA, world_now w)"
    using link.release_dirty[OF assms(1,9,10,2,3,4), of dg junk fiA] link.same_refl[OF assms(10)] by fastforce
  then have f: "world_file base w1 p \<noteq> None \<or> world_free base w1 p" by simp
  obtain cB' w2 where "afs_release eB (server_stub dg junk) cB w1 p fiB = Ret 0 cB' w2"
    "world_file base w2 p = Some (dB, world_now w1)"
    using link.release_dirty[OF assms(5) a(2) f assms(6,7,8), of dg junk fiB] link.same_refl[OF f] by fastforce
  then show ?thesis using a by blast
qed

text \<open>
  C3: creating a file by opening a name that does not exist.  The open makes an empty local file, the
  write fills it, and closing puts exactly the written bytes on the server under this name; the mark
  of a local file gives way to the server's time.
\<close>

theorem new_file_reaches_server:
  assumes "cache_ok c cb" "world_up base w" "world_free base w p"
    and "cached e c cb p = None" "time_count e c p \<noteq> 1"
    and "plain_flags (flags fi)" "o_write (flags fi)" "\<not> o_append (flags fi)"
    and "fs_next_fd (cfs c) + 1 < 2 ^ 31" "failure_point e = 3" "buf \<noteq> []" "length buf < 2 ^ 31"
  shows "\<exists>c1 fi' c2 c3 w'. afs_open e (server_stub dg junk) c w p fi = Ret (0, fi') c1 w
    \<and> afs_write e c1 w p buf 0 fi' = Ret (int (length buf)) c2 w
    \<and> afs_release e (server_stub dg junk) c2 w p fi' = Ret 0 c3 w'
    \<and> world_file base w' p = Some (buf, world_now w)
    \<and> (\<forall>q. \<not> world_same base w p q \<longrightarrow> world_file base w' q = world_file base w q)
    \<and> \<not> dirty_get e c3 p \<and> time_get e c3 p = timespec_bytes (world_now w)"
proof -
  obtain c1 fi' where o: "afs_open e (server_stub dg junk) c w p fi = Ret (0, fi') c1 w" "flags fi' = flags fi"
    "cache_ok c1 cb" "open_on e c1 cb p fi'" "cached e c1 cb p = Some (File [] (fs_now (cfs c)))"
    using link.open_free[OF assms(1-4,6,9,5), of dg junk] by blast
  have fl: "o_write (flags fi')" "\<not> o_append (flags fi')"
    using assms(7,8) o(2) by simp_all
  obtain s where wr: "afs_write e c1 w p buf 0 fi' = Ret (int (length buf)) ((dirty_set e c1 p True)\<lparr>cfs := s\<rparr>) w"
    and k: "cache_ok ((dirty_set e c1 p True)\<lparr>cfs := s\<rparr>) cb"
      "cached e ((dirty_set e c1 p True)\<lparr>cfs := s\<rparr>) cb p = Some (File (put_bytes [] (nat 0) buf) (fs_now (cfs c1)))"
    using afs_write_copy[OF o(3-5) fl order_refl assms(11,12), of w] by metis
  let ?c2 = "(dirty_set e c1 p True)\<lparr>cfs := s\<rparr>"
  have d: "dirty_get e ?c2 p" by simp
  have f: "world_file base w p \<noteq> None \<or> world_free base w p" using assms(3) by simp
  obtain c3 w' where "afs_release e (server_stub dg junk) ?c2 w p fi' = Ret 0 c3 w'"
    "world_file base w' = (\<lambda>q. if world_same base w p q then Some (put_bytes [] (nat 0) buf, world_now w)
       else world_file base w q)"
    "\<not> dirty_get e c3 p" "time_get e c3 p = timespec_bytes (world_now w)"
    using link.release_dirty[OF k(1) assms(2) f d k(2) assms(10), of dg junk fi'] by blast
  moreover have "put_bytes [] (nat 0) buf = buf"
    by (simp add: put_bytes_def)
  ultimately show ?thesis
    using o(1) wr link.same_refl[OF f]
    by (intro exI[of _ c1] exI[of _ fi'] exI[of _ ?c2] exI[of _ c3] exI[of _ w']) simp
qed

end
