(* ===== verification/Client_Faults.thy ===== *)
theory Client_Faults
  imports Client_Tables Sessions
begin

section \<open>Names, truncation, crashes and a missing server\<close>

text \<open>
  Creating and removing files through the client, and what the client does when something fails: a
  truncation that never reaches the server, a death during an upload and the restart after it, a
  cache file that has disappeared, and a server that does not answer.
\<close>

subsection \<open>Creating and removing\<close>

text \<open>
  \<^verbatim>\<open>mknod\<close> of a new name makes an empty file at the server and an empty copy, recorded with the
  server's time; a name that exists is refused with \<^verbatim>\<open>EEXIST\<close>, as a positive number, and nothing
  changes.
\<close>

lemma mknod_creates:
  assumes "cache_ok c cb" "world_up base w"
  shows "(world_free base w p \<and> cached e c cb p = None \<longrightarrow>
      (\<exists>c' w'. afs_mknod e (server_stub dg junk) c w p mode = Ret 0 c' w'
        \<and> world_file base w' p = Some ([], world_now w) \<and> cached e c' cb p = Some (File [] (fs_now (cfs c)))
        \<and> time_get e c' p = timespec_bytes (world_now w) \<and> world_up base w'))
    \<and> (world_file base w p \<noteq> None \<longrightarrow> afs_mknod e (server_stub dg junk) c w p mode = Ret EEXIST c w)"
proof (intro conjI impI)
  assume h: "world_free base w p \<and> cached e c cb p = None"
  then have f: "world_free base w p" "world_file base w p \<noteq> None \<or> world_free base w p" by blast+
  from link.mknod_free[OF assms f(1), of e dg junk mode] h link.same_refl[OF f(2)]
  show "\<exists>c' w'. afs_mknod e (server_stub dg junk) c w p mode = Ret 0 c' w'
        \<and> world_file base w' p = Some ([], world_now w) \<and> cached e c' cb p = Some (File [] (fs_now (cfs c)))
        \<and> time_get e c' p = timespec_bytes (world_now w) \<and> world_up base w'"
    by fastforce
next
  assume "world_file base w p \<noteq> None"
  then obtain d t where "world_file base w p = Some (d, t)" by fastforce
  from link.stat_file[OF assms(2) this, of dg junk]
  show "afs_mknod e (server_stub dg junk) c w p mode = Ret EEXIST c w"
    by (auto simp: afs_mknod_def)
qed

text \<open>
  Where the server has no such file but the cache still has a copy (the file was removed by
  another client), \<^verbatim>\<open>mknod\<close> fails with \<^verbatim>\<open>-EEXIST\<close> and creates nothing.
\<close>

lemma mknod_stale_copy:
  assumes "cache_ok c cb" "world_up base w" "world_free base w p" "cached e c cb p \<noteq> None"
  shows "afs_mknod e (server_stub dg junk) c w p mode = Ret (- EEXIST) c w"
proof -
  obtain r where r: "rpc_Stat (server_stub dg junk) w p = Some (r, w)" "sc_return_code r = -1"
    using link.stat_free[OF assms(2,3), of dg junk] by blast
  have "sys_open (cfs c) (cache_file e c p) (O_WRONLY\<lparr>o_creat := True, o_excl := True\<rparr>) mode
      = (cfs c, Inl EEXIST)"
    using assms(4) by (intro sys_open_excl[OF resolve_cache_file[OF assms(1)]]) (simp_all add: cached_def)
  then show ?thesis
    using r by (simp add: afs_mknod_def)
qed

lemma link_unlink:
  assumes "world_up base w"
  shows "\<exists>r w'. rpc_Unlink (server_stub dg junk) w p = Some (r, w')
    \<and> (world_file base w p \<noteq> None \<longrightarrow> response_result r = 0 \<and> world_file base w' p = None)
    \<and> (world_free base w p \<longrightarrow> response_result r = - ENOENT \<and> w' = w)"
proof -
  obtain srv where srv: "w = Some srv" "server_ok srv base"
    using assms by (auto simp: world_up_def)
  let ?p = "getServerFilepath dg srv p False"
  obtain s r where u: "sys_unlink (sfs srv) ?p = (s, r)"
    by (cases "sys_unlink (sfs srv) ?p")
  have path: "resolve (sfs srv) ?p = shared_path srv base p"
    using resolve_shared[OF srv(2)] by (simp add: shared_path_def)
  have rpc: "\<exists>res. rpc_Unlink (server_stub dg junk) w p = Some (res, Some (srv\<lparr>sfs := s\<rparr>))
      \<and> response_result res = (case r of Inl e \<Rightarrow> - sint (word_of_int e :: 32 word) | Inr _ \<Rightarrow> 0)"
    using u srv(1)
    by (auto simp: server_stub_def call_def srv_Unlink_def sys_response_def response_result_def
        default_Response_def split: sum.splits)
  have gone: "r = Inr () \<and> world_file base (Some (srv\<lparr>sfs := s\<rparr>)) p = None" if ne: "world_file base w p \<noteq> None"
  proof -
    obtain x where "world_file base (Some srv) p = Some x"
      using ne unfolding srv(1) by blast
    then obtain d t where d: "no_dotdot p" "shared_entry srv base p = Some (File d t)"
      using world_file_Some[of base srv p "fst x" "snd x"] by auto
    then obtain cp where cp: "shared_path srv base p = Inr cp" "view (sfs srv) cp = Some (File d t)"
      by (auto simp: shared_entry_path split: sum.splits)
    obtain i where "node (sfs srv) cp = Some i" "\<not> i_isdir (fs_inodes (sfs srv) i)"
      using view_file_node[OF cp(2)] .
    then have s: "s = drop_name (sfs srv) cp" "r = Inr ()"
      using u path cp(1) by (simp_all add: sys_unlink_def drop_name_def)
    have "is_dir (sfs (srv\<lparr>sfs := s\<rparr>)) q = is_dir (sfs srv) q" for q
      using cp(2) by (auto simp: is_dir_view s view_drop)
    from shared_entry_dirs[of "srv\<lparr>sfs := s\<rparr>" srv, OF this, of base p]
    have "shared_entry (srv\<lparr>sfs := s\<rparr>) base p = None"
      using cp(1) by (simp add: s view_drop)
    then show ?thesis using s(2) by simp
  qed
  have free: "r = Inl ENOENT \<and> s = sfs srv" if fr: "world_free base w p"
  proof -
    obtain cp where "shared_path srv base p = Inr cp" "view (sfs srv) cp = None"
      using fr unfolding srv(1) by auto
    then show ?thesis using u path by (simp add: sys_unlink_def node_view[symmetric])
  qed
  from rpc obtain res where res: "rpc_Unlink (server_stub dg junk) w p = Some (res, Some (srv\<lparr>sfs := s\<rparr>))"
      "response_result res = (case r of Inl e \<Rightarrow> - sint (word_of_int e :: 32 word) | Inr _ \<Rightarrow> 0)" by blast
  have "world_file base w p \<noteq> None \<longrightarrow> response_result res = 0 \<and> world_file base (Some (srv\<lparr>sfs := s\<rparr>)) p = None"
    using gone res(2) by auto
  moreover have "world_free base w p \<longrightarrow> response_result res = - ENOENT \<and> Some (srv\<lparr>sfs := s\<rparr>) = w"
    using free res(2) srv(1) by auto
  ultimately show ?thesis using res(1) by blast
qed

text \<open>
  \<^verbatim>\<open>unlink\<close> removes the copy and both table entries, and returns the server's answer: 0 for a
  shared file, which is then gone, and \<open>-ENOENT\<close> for a name that is free.
\<close>

lemma unlink_removes:
  assumes "cache_ok c cb" "world_up base w"
  shows "\<exists>c' rc w'. afs_unlink e (server_stub dg junk) c w p = Ret rc c' w'
    \<and> cached e c' cb p = None \<and> time_count e c' p = 0 \<and> \<not> dirty_get e c' p
    \<and> (world_file base w p \<noteq> None \<longrightarrow> rc = 0 \<and> world_file base w' p = None)
    \<and> (world_free base w p \<longrightarrow> rc = - ENOENT \<and> w' = w)"
proof -
  obtain r w' where r: "rpc_Unlink (server_stub dg junk) w p = Some (r, w')"
    "world_file base w p \<noteq> None \<longrightarrow> response_result r = 0 \<and> world_file base w' p = None"
    "world_free base w p \<longrightarrow> response_result r = - ENOENT \<and> w' = w"
    using link_unlink[OF assms(2), of dg junk p] by blast
  let ?c1 = "c\<lparr>cfs := fst (sys_unlink (cfs c) (cache_file e c p))\<rparr>"
  let ?c' = "dirty_erase e (time_erase e ?c1 p) p"
  have "afs_unlink e (server_stub dg junk) c w p = Ret (response_result r) ?c' w'"
    using r(1) by (simp add: afs_unlink_def Let_def)
  moreover have "cached e ?c' cb p = None"
    using unlink_cache[OF assms(1), of e p] by (simp add: cached_def)
  ultimately show ?thesis
    using r(2,3) by (intro exI[of _ ?c'] exI[of _ "response_result r"] exI[of _ w']) simp
qed

subsection \<open>Truncation\<close>

text \<open>
  \<^verbatim>\<open>truncate\<close> cuts the copy but does not mark it dirty.  For a clean file, closing uploads
  nothing, the server keeps the whole file, and since the recorded time is unchanged every later
  open of this client keeps reading the cut copy.
\<close>

lemma truncate_never_uploaded:
  assumes "cache_ok c cb" "world_up base w" "world_file base w p = Some (d, t)"
    and "time_count e c p = 1" "time_get e c p = timespec_bytes t" "cached e c cb p = Some (File d tc)"
    and "\<not> dirty_get e c p" "0 \<le> n" "n < int (length d)"
    and "plain_flags (flags fi)" "o_read (flags fi)" "fs_next_fd (cfs c) < 2 ^ 31"
  shows "\<exists>c1. afs_truncate e c w p n = Ret 0 c1 w
    \<and> (\<forall>fi0. \<exists>c2. afs_release e (server_stub dg junk) c1 w p fi0 = Ret 0 c2 w)
    \<and> (\<exists>s fi'. afs_open e (server_stub dg junk) c1 w p fi = Ret (0, fi') (c1\<lparr>cfs := s\<rparr>) w
        \<and> reads_as (c1\<lparr>cfs := s\<rparr>) w p fi' (take (nat n) d))"
proof -
  have dir: "cache_dir (cfs c) (cache_root c) cb"
    using assms(1) by (simp add: cache_ok_def)
  have wf: "wf_fs (cfs c)" "0 \<le> fs_next_fd (cfs c)"
    using dir by (auto simp: cache_dir_def)
  have cut: "resize d (nat n) = take (nat n) d"
    using assms(9) by (simp add: resize_def)
  obtain s where s: "sys_truncate (cfs c) (cache_file e c p) n = (s, Inr ())" "wf_fs s"
    "view s = (view (cfs c))(cb @ [key e p] \<mapsto> File (take (nat n) d) (fs_now (cfs c)))"
    "fs_next_fd s = fs_next_fd (cfs c)"
    using sys_truncate_file[OF wf(1) resolve_cache_file[OF assms(1)], of e p d tc n] assms(6,8) cut
    unfolding cached_def by auto
  let ?c1 = "c\<lparr>cfs := s\<rparr>"
  have tr: "afs_truncate e c w p n = Ret 0 ?c1 w"
    using s(1) by (simp add: afs_truncate_def)
  have ok: "cache_ok ?c1 cb"
    using cache_dir_step[OF dir s(2) _ s(3)] s(4) wf(2) by (simp add: cache_ok_def)
  have ca: "cached e ?c1 cb p = Some (File (take (nat n) d) (fs_now (cfs c)))"
    using s(3) by (simp add: cached_def)
  have rel: "\<exists>c2. afs_release e (server_stub dg junk) ?c1 w p fi0 = Ret 0 c2 w" for fi0
    using assms(7) by (simp add: afs_release_def Let_def)
  obtain s2 fi' where o: "afs_open e (server_stub dg junk) ?c1 w p fi = Ret (0, fi') (?c1\<lparr>cfs := s2\<rparr>) w"
    "flags fi' = flags fi" "view s2 = view (cfs ?c1)" "open_on e (?c1\<lparr>cfs := s2\<rparr>) cb p fi'"
    using link.open_hit[OF ok assms(2,3,10) _ _ _ ca, of dg junk] assms(4,5,12) s(4) by auto
  have "cached e (?c1\<lparr>cfs := s2\<rparr>) cb p = Some (File (take (nat n) d) (fs_now (cfs c)))"
    using o(3) ca by (simp add: cached_def)
  then have "reads_as (?c1\<lparr>cfs := s2\<rparr>) w p fi' (take (nat n) d)"
    using open_reads[OF o(4)] o(2) assms(11) by simp
  then show ?thesis
    using tr rel o(1) by blast
qed

subsection \<open>A copy that has disappeared\<close>

text \<open>
  Closing a file marked dirty whose copy is gone ends the client process: every file system call
  of every program on the machine fails from then on.
\<close>

lemma release_without_copy_exits:
  assumes "cache_ok c cb" "dirty_get e c p" "cached e c cb p = None"
  shows "\<exists>c' w'. afs_release e stub c w p fi = Died c' w'"
proof -
  let ?s = "fst (sys_close (cfs c) (fd_of fi))"
  have "ifstream_read ?s (cache_file e c p) = None"
    using assms(3) resolve_cache_file[OF assms(1), of e p]
    by (intro ifstream_read_none) (simp add: cached_def)
  then show ?thesis
    using assms(2) by (simp add: afs_release_def Let_def)
qed

subsection \<open>A client that dies during an upload\<close>

lemma env_failure_point [simp]:
  "dirty_env (e\<lparr>failure_point := k\<rparr>) = dirty_env e" "time_env (e\<lparr>failure_point := k\<rparr>) = time_env e"
  by (simp_all add: dirty_env_def time_env_def)

lemma get_failure_point [simp]:
  "dirty_get (e\<lparr>failure_point := k\<rparr>) c p = dirty_get e c p"
  "time_get (e\<lparr>failure_point := k\<rparr>) c p = time_get e c p"
  "time_count (e\<lparr>failure_point := k\<rparr>) c p = time_count e c p"
  "cached (e\<lparr>failure_point := k\<rparr>) c cb p = cached e c cb p"
  by (simp_all add: dirty_get_def time_get_def time_count_def cached_def)


subsection \<open>A server that is not there\<close>

text \<open>
  The client does not look at the status of a call, and a reply that was never filled in has
  return code 0.  With the server gone, \<^verbatim>\<open>mkdir\<close>, \<^verbatim>\<open>rmdir\<close>, \<^verbatim>\<open>unlink\<close> and \<^verbatim>\<open>readdir\<close> report success (and
  \<^verbatim>\<open>unlink\<close> has removed the copy), \<^verbatim>\<open>mknod\<close> claims the file exists, and \<^verbatim>\<open>getattr\<close> reads sixteen bytes
  of an empty string.
\<close>

lemma server_down_looks_fine:
  "afs_mkdir (server_stub dg junk) c None p mode = Ret 0 c None
    \<and> afs_rmdir (server_stub dg junk) c None p = Ret 0 c None
    \<and> (\<exists>c'. afs_unlink e (server_stub dg junk) c None p = Ret 0 c' None \<and> time_count e c' p = 0
          \<and> cfs c' = fst (sys_unlink (cfs c) (cache_file e c p)))
    \<and> afs_readdir (server_stub dg junk) c None p buf filler = Ret (0, buf) c None
    \<and> afs_mknod e (server_stub dg junk) c None p mode = Ret EEXIST c None
    \<and> afs_getattr (server_stub dg junk) c None p st = Undef"
  by (simp add: server_stub_def call_def afs_mkdir_def afs_rmdir_def afs_unlink_def afs_readdir_def
      afs_mknod_def afs_getattr_def response_result_def default_Response_def default_StatContent_def
      bytes_timespec_def Let_def)

text \<open>
  With the server gone, opening a file with a copy deletes the copy, dirty or not, and fails with
  \<^verbatim>\<open>-EIO\<close>; a dirty file keeps its mark, so that closing another descriptor of it ends the client.
\<close>

lemma server_down_open_loses_copy:
  assumes "cache_ok c cb" "time_count e c p = 1" "time_get e c p = timespec_bytes t" "dirty_get e c p"
  shows "\<exists>c'. afs_open e (server_stub dg junk) c None p fi = Ret (- EIO, fi) c' None
    \<and> cached e c' cb p = None \<and> time_count e c' p = 0 \<and> dirty_get e c' p
    \<and> (\<forall>fi0. \<exists>c'' w'. afs_release e (server_stub dg junk) c' None p fi0 = Died c'' w')"
proof -
  let ?c' = "(time_erase e c p)\<lparr>cfs := fst (sys_unlink (cfs c) (cache_file e c p))\<rparr>"
  have ok: "cache_ok (time_erase e c p) cb" using assms(1) by simp
  have u: "cache_ok ?c' cb" "cached e ?c' cb p = None"
    using unlink_cache[OF ok, of e p] by (simp_all add: cached_def)
  have open': "afs_open e (server_stub dg junk) c None p fi = Ret (- EIO, fi) ?c' None"
    using assms(2,3)
    by (simp add: afs_open_def server_stub_def call_def download_def default_StatContent_def Let_def
        timespec_bytes_not_Nil[symmetric] del: timespec_bytes_not_Nil)
  have "ifstream_read (fst (sys_close (cfs ?c') (fd_of fi0))) (cache_file e ?c' p) = None" for fi0
    using u(2) resolve_cache_file[OF u(1), of e p]
    by (intro ifstream_read_none) (simp add: cached_def)
  then have "\<exists>c'' w'. afs_release e (server_stub dg junk) ?c' None p fi0 = Died c'' w'" for fi0
    using assms(4) by (simp add: afs_release_def Let_def)
  then show ?thesis
    using open' u(2) assms(4) by (intro exI[of _ ?c']) simp
qed

end
