(* ===== verification/Client_Samples.thy ===== *)
theory Client_Samples
  imports Client_Faults
begin

section \<open>The client's properties at concrete states\<close>

text \<open>
  A client with an empty cache directory, clients with a copy of \<^verbatim>\<open>/f\<close> of a given time and state, and
  servers with and without \<^verbatim>\<open>/f\<close>; on them the hypotheses of the properties are discharged.
\<close>

definition sample_env :: client_env where
  "sample_env = \<lparr>sha256 = sample_sha, dirty_visit = rev, time_visit = rev, can_write = True, failure_point = 3\<rparr>"

definition sample_client :: client where
  "sample_client = \<lparr>cache_root = ''/'', last_modified = sample_time_obj 0, is_dirty = sample_dirty_obj,
     last_modified_files = sample_disk, is_dirty_files = sample_disk, cfs = sample_fs\<rparr>"

definition sample_fi :: fuse_file_info where
  "sample_fi = \<lparr>flags = O_RDWR, fh = 0\<rparr>"

text \<open>A client with a copy of \<^verbatim>\<open>/f\<close>: its bytes, its recorded time, whether it is dirty.\<close>

definition copy_client :: "byte_string \<Rightarrow> timespec \<Rightarrow> bool \<Rightarrow> client" where
  "copy_client d t b =
     dirty_set sample_env
       (time_set sample_env
         (sample_client\<lparr>cfs := ofstream_store sample_fs (cache_file sample_env sample_client ''/f'') d\<rparr>)
         ''/f'' (timespec_bytes t)) ''/f'' b"

definition old_clock :: timespec where
  "old_clock = \<lparr>tv_sec = 1600000000, tv_nsec = 7\<rparr>"

lemma old_clock: "old_clock \<noteq> sample_clock" "timespec_bytes old_clock \<noteq> erased_mark"
  using timespec_bytes_not_ff[of old_clock]
  by (simp_all add: old_clock_def sample_clock_def valid_timespec_def erased_mark_def)

lemma sample_clock_mark: "timespec_bytes sample_clock \<noteq> erased_mark"
  using timespec_bytes_not_ff[of sample_clock] by (simp add: sample_clock_def valid_timespec_def erased_mark_def)

lemma cache_ok_sample: "cache_ok sample_client []"
  by (simp add: cache_ok_def cache_dir_def sample_client_def wf_sample_fs sample_root is_dir_view view_sample_fs)
    (simp add: sample_fs_def)

lemma sample_fields:
  "fs_now sample_fs = sample_clock" "fs_next_fd sample_fs = 3" "cfs sample_client = sample_fs"
  "sha256 sample_env = sample_sha" "failure_point sample_env = 3" "can_write sample_env"
  "flags sample_fi = O_RDWR"
  by (simp_all add: sample_fs_def sample_client_def sample_env_def sample_fi_def)

lemma sample_tables:
  "time_count sample_env sample_client p = 0" "\<not> dirty_get sample_env sample_client p"
  "cached sample_env sample_client [] p = None"
  by (simp_all add: time_count_def last_modified_count_def dirty_get_def is_dirty_get_def sample_client_def
      sample_time_obj_def sample_dirty_obj_def cached_def view_sample_fs Let_def)

lemma sample_visits: "visits_all (dirty_env sample_env)" "visits_all (time_env sample_env)"
  "writable (dirty_env sample_env)" "writable (time_env sample_env)"
  by (simp_all add: visits_all_def dirty_env_def time_env_def sample_env_def)

lemma copy_client:
  "cache_ok (copy_client d t b) []"
  "cached sample_env (copy_client d t b) [] ''/f'' = Some (File d sample_clock)"
  "time_count sample_env (copy_client d t b) ''/f'' = 1"
  "time_get sample_env (copy_client d t b) ''/f'' = timespec_bytes t"
  "dirty_get sample_env (copy_client d t b) ''/f'' = b"
  "fs_next_fd (cfs (copy_client d t b)) = 3"
  using ofstream_store_cache[OF cache_ok_sample, of sample_env "''/f''" d]
  by (simp_all add: copy_client_def cached_def sample_fields)

lemma copy_client_synced:
  assumes "timespec_bytes t \<noteq> erased_mark"
  shows "is_dirty_synced (is_dirty (copy_client d t b)) (is_dirty_files (copy_client d t b))"
    "last_modified_synced (last_modified (copy_client d t b)) (last_modified_files (copy_client d t b))"
proof -
  let ?c = "sample_client\<lparr>cfs := ofstream_store sample_fs (cache_file sample_env sample_client ''/f'') d\<rparr>"
  have d0: "is_dirty_synced sample_dirty_obj sample_disk"
    by (rule is_dirty_reach_synced[OF sample_dirty_env sample_dirty_reach])
  have l0: "last_modified_synced (sample_time_obj 0) sample_disk"
    by (rule last_modified_reach_synced[OF sample_time_env sample_time_reach])
  obtain lo ls where ls: "last_modified_set (time_env sample_env) (sample_time_obj 0) ''/f'' (timespec_bytes t) = (lo, ls)"
    by (cases "last_modified_set (time_env sample_env) (sample_time_obj 0) ''/f'' (timespec_bytes t)")
  obtain do ds where ds: "is_dirty_set (dirty_env sample_env) sample_dirty_obj ''/f'' b = (do, ds)"
    by (cases "is_dirty_set (dirty_env sample_env) sample_dirty_obj ''/f'' b")
  show "last_modified_synced (last_modified (copy_client d t b)) (last_modified_files (copy_client d t b))"
    using last_modified_set_synced[OF l0 _ assms ls sample_visits(2,4)] ls
    by (simp add: copy_client_def time_set_def sample_client_def)
  show "is_dirty_synced (is_dirty (copy_client d t b)) (is_dirty_files (copy_client d t b))"
    using is_dirty_set_cases[OF d0 ds sample_visits(1,3)] ds
    by (simp add: copy_client_def dirty_set_def) (simp add: sample_client_def)
qed

subsection \<open>Worlds\<close>

definition sample_world :: "server option" where
  "sample_world = Some sample_file_server"

lemma sample_now: "fs_now (sfs sample_server) = sample_clock"
  by (simp add: sample_server_def create_node_def sample_fs_def)

lemma sample_world_up: "world_up [] sample_world" "world_up [] (Some sample_server)"
  using sample_file_server server_ok_sample lock_sample
  by (auto simp: world_up_def sample_world_def is_dir_view view_sample_server FS_ROOT_def CACHE_def)

lemma no_dotdot_f: "no_dotdot ''/f''"
  by (simp add: no_dotdot_def path_comps_def)

lemma sample_world_file: "world_file [] sample_world ''/f'' = Some (''hello'', sample_clock)"
  by (simp add: sample_world_def no_dotdot_f shared_sample sample_now)

lemma sample_world_free: "world_free [] (Some sample_server) ''/f''"
  using walk_sample(1)[OF server_ok_sample]
  by (simp add: no_dotdot_f shared_path_def view_sample_server)

lemma sample_world_now: "world_now sample_world = sample_clock"
  using with_file_facts(5)[OF server_ok_sample resolve_sample(1)] sample_now
  by (simp add: sample_world_def sample_file_server_def sample_cache_free)

lemma sample_known: "world_file [] sample_world ''/f'' \<noteq> None \<or> world_free [] sample_world ''/f''"
  by (simp add: sample_world_file)

lemma sample_same: "world_same [] sample_world ''/f'' ''/f''"
  by (rule link_same_refl[OF sample_known])

subsection \<open>Witnesses: opening and closing\<close>

theorem open_downloads_witness:
  "\<exists>c' fi'. afs_open sample_env (server_stub sample_sha sample_clock) (copy_client ''old'' old_clock False)
      sample_world ''/f'' sample_fi = Ret (0, fi') c' sample_world
    \<and> reads_as c' sample_world ''/f'' fi' ''hello''"
  using open_downloads[OF copy_client(1)[of "''old''" old_clock False] sample_world_up(1) sample_world_file,
      of sample_fi sample_env sample_sha sample_clock] old_clock(1)
  by (auto simp: sample_fields copy_client)

theorem release_uploads_witness:
  "\<exists>c' w'. afs_release sample_env (server_stub sample_sha sample_clock) (copy_client ''new'' sample_clock True)
      sample_world ''/f'' sample_fi = Ret 0 c' w'
    \<and> world_file [] w' ''/f'' = Some (''new'', sample_clock)"
  using release_uploads[OF copy_client(1) sample_world_up(1) sample_known _ copy_client(2),
      of "''new''" sample_clock True sample_sha sample_clock sample_fi]
  by (auto simp: sample_fields copy_client(5) sample_world_now)

theorem close_to_open_witness:
  "\<exists>cA' w' cB' fi'. afs_release sample_env (server_stub sample_sha sample_clock)
      (copy_client ''new'' sample_clock True) sample_world ''/f'' sample_fi = Ret 0 cA' w'
    \<and> afs_open sample_env (server_stub sample_sha sample_clock) (copy_client ''older'' old_clock False) w' ''/f'' sample_fi
        = Ret (0, fi') cB' w'
    \<and> reads_as cB' w' ''/f'' fi' ''new''"
  using close_to_open[OF copy_client(1) _ copy_client(2) _ sample_world_up(1) sample_known sample_same copy_client(1),
      of "''new''" sample_clock True sample_fi "''older''" old_clock False sample_env sample_sha sample_clock sample_fi]
    old_clock(1)
  by (auto simp: sample_fields copy_client(3-6) sample_world_now)

definition open_client :: client where
  "open_client = (copy_client ''hello'' sample_clock False)
     \<lparr>cfs := fst (sys_open (cfs (copy_client ''hello'' sample_clock False))
        (cache_file sample_env (copy_client ''hello'' sample_clock False) ''/f'') O_RDWR 0)\<rparr>"

definition open_fi :: fuse_file_info where
  "open_fi = sample_fi\<lparr>fh := fh_of (Inr 3)\<rparr>"

lemma open_client:
  "cache_ok open_client []" "open_on sample_env open_client [] ''/f'' open_fi"
  "cached sample_env open_client [] ''/f'' = Some (File ''hello'' sample_clock)"
proof -
  let ?c = "copy_client ''hello'' sample_clock False"
  obtain s fi' where o: "open_cache_file sample_env ?c () ''/f'' sample_fi = Ret (0, fi') (?c\<lparr>cfs := s\<rparr>) ()"
    "cache_ok (?c\<lparr>cfs := s\<rparr>) []" "view s = view (cfs ?c)" "open_on sample_env (?c\<lparr>cfs := s\<rparr>) [] ''/f'' fi'"
    using open_cache_file_ok[OF copy_client(1,2)[of "''hello''" sample_clock False], of sample_fi "()"]
    by (auto simp: sample_fields copy_client(6))
  obtain s0 where s0: "sys_open (cfs ?c) (cache_file sample_env ?c ''/f'') O_RDWR 0 = (s0, Inr 3)"
    using sys_open_existing[OF resolve_cache_file[OF copy_client(1)] copy_client(2)[unfolded cached_def]]
      copy_client(6) by (metis plain_O_RDWR(1))
  have oc: "open_client = ?c\<lparr>cfs := s\<rparr>" "fi' = open_fi"
    using o(1) s0 by (simp_all add: open_cache_file_zero sample_fields open_fi_def open_client_def)
  show "cache_ok open_client []" "open_on sample_env open_client [] ''/f'' open_fi"
    "cached sample_env open_client [] ''/f'' = Some (File ''hello'' sample_clock)"
    using o(2-4) copy_client(2)[of "''hello''" sample_clock False]
    by (simp_all add: cached_def oc)
qed

theorem write_is_local_witness:
  "\<exists>c'. afs_write sample_env open_client sample_world ''/f'' ''J'' 0 open_fi = Ret 1 c' sample_world
    \<and> dirty_get sample_env c' ''/f'' \<and> reads_as c' sample_world ''/f'' open_fi ''Jello''"
proof -
  have fl: "flags open_fi = O_RDWR" by (simp add: open_fi_def sample_fields)
  have sync: "is_dirty_synced (is_dirty open_client) (is_dirty_files open_client)"
    using copy_client_synced(1)[OF sample_clock_mark, of "''hello''" False] by (simp add: open_client_def)
  from write_is_local[OF open_client, of 0 "''J''", OF _ _ _ _ _ _ sync] fl sample_fields sample_visits(1)
  show ?thesis by (auto simp: put_bytes_def)
qed

subsection \<open>Witnesses: names and failures\<close>

theorem new_file_witness:
  "\<exists>c1 fi' c2 c3 w'. afs_open sample_env (server_stub sample_sha sample_clock) sample_client (Some sample_server) ''/f'' sample_fi
      = Ret (0, fi') c1 (Some sample_server)
    \<and> afs_write sample_env c1 (Some sample_server) ''/f'' ''new'' 0 fi' = Ret 3 c2 (Some sample_server)
    \<and> afs_release sample_env (server_stub sample_sha sample_clock) c2 (Some sample_server) ''/f'' fi' = Ret 0 c3 w'
    \<and> world_file [] w' ''/f'' = Some (''new'', sample_clock)"
  using new_file_reaches_server[OF cache_ok_sample sample_world_up(2) sample_world_free, of sample_env sample_fi "''new''"
      sample_sha sample_clock] sample_now sample_known sample_tables
  by (fastforce simp: sample_fields simp del: world_free.simps world_file.simps)


end
