(* ===== verification/Startup.thy ===== *)
theory Startup
  imports Getopt Client_Samples
begin

section \<open>Starting the client\<close>

text \<open>
  \<^verbatim>\<open>main\<close> of \<^verbatim>\<open>afs_client.cc\<close> up to the call of \<^verbatim>\<open>fuse_main\<close>: the options, the checks of the two
  directories, and the construction of \<^verbatim>\<open>afs_data_t\<close>.  The arguments handed on to FUSE are collected
  in an array of ten pointers that nothing checks the bounds of.
\<close>

subsection \<open>The option loop\<close>

record parsed =
  fuse_main_argv :: "string option list"
  fuse_main_argc :: nat
  mount_dir_arg_index :: int
  arg_cache_root :: "string option"
  server_addr :: string

datatype failure = Exit int | Out_of_bounds | Assertion

definition DEFAULT_SERVER :: string where
  "DEFAULT_SERVER = ''127.0.0.1:53706''"

definition parsed_start :: "string \<Rightarrow> parsed" where
  "parsed_start argv0 =
     \<lparr>fuse_main_argv = Some argv0 # replicate 9 None, fuse_main_argc = 1, mount_dir_arg_index = -1,
      arg_cache_root = None, server_addr = DEFAULT_SERVER\<rparr>"

text \<open>\<^verbatim>\<open>fuse_main_argv[fuse_main_argc++] = s\<close>\<close>

definition push_arg :: "string \<Rightarrow> parsed \<Rightarrow> failure + parsed" where
  "push_arg s st =
     (if fuse_main_argc st < 10
      then Inr (st\<lparr>fuse_main_argv := (fuse_main_argv st)[fuse_main_argc st := Some s],
                   fuse_main_argc := Suc (fuse_main_argc st)\<rparr>)
      else Inl Out_of_bounds)"

text \<open>One turn of the \<^verbatim>\<open>while\<close> loop: the \<^verbatim>\<open>switch\<close> on \<^verbatim>\<open>opt\<close>.\<close>

definition parse_opt :: "char \<times> string \<Rightarrow> parsed \<Rightarrow> failure + parsed" where
  "parse_opt x st =
     (case x of (c, optarg) \<Rightarrow>
        if c = CHR ''h'' then Inl (Exit 0)
        else if c = CHR ''s'' then Inr (st\<lparr>server_addr := optarg\<rparr>)
        else if c = CHR ''c'' then Inr (st\<lparr>arg_cache_root := Some optarg\<rparr>)
        else if c = CHR ''m'' then push_arg optarg (st\<lparr>mount_dir_arg_index := int (fuse_main_argc st)\<rparr>)
        else if c = CHR ''d'' then push_arg ''-d'' st
        else if c = CHR ''f'' then push_arg ''-f'' st
        else Inl (Exit 1))"

fun parse_opts :: "(char \<times> string) list \<Rightarrow> parsed \<Rightarrow> failure + parsed" where
  "parse_opts [] st = Inr st"
| "parse_opts (x # xs) st = (case parse_opt x st of Inl e \<Rightarrow> Inl e | Inr st' \<Rightarrow> parse_opts xs st')"

abbreviation options :: "string list \<Rightarrow> (char \<times> string) list" where
  "options args \<equiv> fst (getopt ''hs:c:m:df'' args)"

definition stat_is_dir :: "fs \<Rightarrow> string \<Rightarrow> bool" where
  "stat_is_dir s p = (case resolve s p of Inl e \<Rightarrow> False | Inr cp \<Rightarrow> is_dir s cp)"

text \<open>
  The rest of \<^verbatim>\<open>main\<close>; \<open>Inr\<close> is the call of \<^verbatim>\<open>fuse_main\<close> with its arguments, the client and the
  server's address.  The paths are C strings, and the tables are read from the directory named by
  \<^verbatim>\<open>-c\<close>.
\<close>

definition client_main ::
    "client_env \<Rightarrow> int \<Rightarrow> int \<Rightarrow> table_disk \<Rightarrow> table_disk \<Rightarrow> fs \<Rightarrow> string list
      \<Rightarrow> failure + (string option list \<times> client \<times> string)" where
  "client_main e ct cd time_files dirty_files s argv =
     (case parse_opts (options (tl argv)) (parsed_start (hd argv)) of
        Inl err \<Rightarrow> Inl err
      | Inr st \<Rightarrow>
          (case arg_cache_root st of
             None \<Rightarrow> Inl (Exit 1)
           | Some root \<Rightarrow>
               if mount_dir_arg_index st < 0 then Inl (Exit 1)
               else if \<not> stat_is_dir s root then Inl (Exit 1)
               else
                 (case fuse_main_argv st ! nat (mount_dir_arg_index st) of
                    None \<Rightarrow> Inl (Exit 1)
                  | Some mount \<Rightarrow>
                      if \<not> stat_is_dir s mount then Inl (Exit 1)
                      else
                        (case afs_data_new e ct cd root time_files dirty_files s of
                           None \<Rightarrow> Inl Assertion
                         | Some c \<Rightarrow> Inr (take (fuse_main_argc st) (fuse_main_argv st), c, server_addr st)))))"

subsection \<open>What is handed on\<close>

definition forwarded :: "char \<times> string \<Rightarrow> string list" where
  "forwarded x = (if fst x = CHR ''m'' then [snd x] else if fst x = CHR ''d'' then [''-d'']
     else if fst x = CHR ''f'' then [''-f''] else [])"

lemma forwarded_simps [simp]:
  "forwarded (CHR ''s'', v) = []" "forwarded (CHR ''c'', v) = []" "forwarded (CHR ''m'', v) = [v]"
  "forwarded (CHR ''d'', v) = [''-d'']" "forwarded (CHR ''f'', v) = [''-f'']"
  by (simp_all add: forwarded_def)

text \<open>The options that end the program, \<^verbatim>\<open>-h\<close> and what \<^verbatim>\<open>getopt\<close> refused.\<close>

definition stops :: "char \<times> string \<Rightarrow> bool" where
  "stops x \<longleftrightarrow> fst x \<notin> set ''scmdf''"

fun last_c :: "(char \<times> string) list \<Rightarrow> string option \<Rightarrow> string option" where
  "last_c [] r = r"
| "last_c (x # xs) r = last_c xs (if fst x = CHR ''c'' then Some (snd x) else r)"

text \<open>The array holds the arguments so far, and NULL behind them.\<close>

definition args_ok :: "parsed \<Rightarrow> string list \<Rightarrow> bool" where
  "args_ok st args \<longleftrightarrow>
     length args \<le> 10 \<and> fuse_main_argc st = length args
     \<and> fuse_main_argv st = map Some args @ replicate (10 - length args) None"

lemma push_arg_ok:
  assumes "args_ok st args"
  shows "if length args < 10 then \<exists>st'. push_arg v st = Inr st' \<and> args_ok st' (args @ [v])
      \<and> arg_cache_root st' = arg_cache_root st
    else push_arg v st = Inl Out_of_bounds"
proof (cases "length args < 10")
  case True
  then have "replicate (10 - length args) (None :: string option) = None # replicate (9 - length args) None"
    by (simp add: Suc_diff_le replicate_Suc[symmetric] del: replicate_Suc)
  then show ?thesis
    using assms True by (simp add: push_arg_def args_ok_def list_update_append)
qed (use assms in \<open>simp add: push_arg_def args_ok_def\<close>)

lemma args_ok_fields [simp]:
  "args_ok (st\<lparr>server_addr := a\<rparr>) args = args_ok st args"
  "args_ok (st\<lparr>arg_cache_root := r\<rparr>) args = args_ok st args"
  "args_ok (st\<lparr>mount_dir_arg_index := i\<rparr>) args = args_ok st args"
  by (simp_all add: args_ok_def)

lemma parse_opts_args:
  assumes "args_ok st args" "\<forall>x \<in> set xs. \<not> stops x"
  shows "if length args + length (concat (map forwarded xs)) \<le> 10
    then \<exists>st'. parse_opts xs st = Inr st' \<and> args_ok st' (args @ concat (map forwarded xs))
      \<and> arg_cache_root st' = last_c xs (arg_cache_root st)
    else parse_opts xs st = Inl Out_of_bounds"
  using assms
proof (induction xs arbitrary: st args)
  case Nil
  then show ?case by (auto simp: args_ok_def)
next
  case (Cons x xs)
  have push: ?case if x: "parse_opt x st = push_arg v st1" "args_ok st1 args" "forwarded x = [v]"
      "arg_cache_root st1 = arg_cache_root st" "last_c (x # xs) (arg_cache_root st) = last_c xs (arg_cache_root st)"
    for v st1
  proof (cases "length args < 10")
    case True
    then obtain st' where st': "push_arg v st1 = Inr st'" "args_ok st' (args @ [v])"
        "arg_cache_root st' = arg_cache_root st1"
      using push_arg_ok[OF x(2), of v] by auto
    have "\<forall>x \<in> set xs. \<not> stops x"
      using Cons.prems(2) by simp
    from Cons.IH[OF st'(2) this] show ?thesis
      using st'(1,3) x by (simp split: if_splits)
  next
    case False
    then show ?thesis
      using push_arg_ok[OF x(2), of v] x(1,3) by simp
  qed
  obtain c v where x: "x = (c, v)" by (cases x)
  have rest: "\<forall>x \<in> set xs. \<not> stops x" and one: "c \<in> {CHR ''s'', CHR ''c'', CHR ''m'', CHR ''d'', CHR ''f''}"
    using Cons.prems(2) by (auto simp: stops_def x)
  consider "c = CHR ''s''" | "c = CHR ''c''" | "c = CHR ''m''" | "c = CHR ''d''" | "c = CHR ''f''"
    using one by blast
  then show ?case
  proof cases
    case 1
    then show ?thesis using Cons.IH[of "st\<lparr>server_addr := v\<rparr>" args] Cons.prems(1) rest
      by (simp add: x parse_opt_def split: if_splits)
  next
    case 2
    then show ?thesis using Cons.IH[of "st\<lparr>arg_cache_root := Some v\<rparr>" args] Cons.prems(1) rest
      by (simp add: x parse_opt_def split: if_splits)
  next
    case 3
    then show ?thesis
      by (intro push[of v "st\<lparr>mount_dir_arg_index := int (fuse_main_argc st)\<rparr>"])
        (use Cons.prems(1) in \<open>simp_all add: x parse_opt_def\<close>)
  next
    case 4
    then show ?thesis
      by (intro push[of "''-d''" st]) (use Cons.prems(1) in \<open>simp_all add: x parse_opt_def\<close>)
  next
    case 5
    then show ?thesis
      by (intro push[of "''-f''" st]) (use Cons.prems(1) in \<open>simp_all add: x parse_opt_def\<close>)
  qed
qed

text \<open>
  C38: if neither \<^verbatim>\<open>-h\<close> nor an invalid option occurs, FUSE is given the program name and the values of
  \<^verbatim>\<open>-m\<close>, \<^verbatim>\<open>-d\<close> and \<^verbatim>\<open>-f\<close> in their order, and the cache directory is that of the last \<^verbatim>\<open>-c\<close>, as long as
  at most nine such options are given; the tenth is stored behind the end of the array.
\<close>

theorem options_forwarded:
  assumes "\<forall>x \<in> set (options args). \<not> stops x"
  shows "if length (concat (map forwarded (options args))) \<le> 9
    then \<exists>st. parse_opts (options args) (parsed_start prog) = Inr st
      \<and> take (fuse_main_argc st) (fuse_main_argv st) = map Some (prog # concat (map forwarded (options args)))
      \<and> arg_cache_root st = last_c (options args) None
    else parse_opts (options args) (parsed_start prog) = Inl Out_of_bounds"
proof -
  have "args_ok (parsed_start prog) [prog]"
    by (simp add: args_ok_def parsed_start_def)
  from parse_opts_args[OF this assms] show ?thesis
    by (auto simp: args_ok_def parsed_start_def split: if_splits)
qed

theorem options_witness:
  "(\<exists>st. parse_opts (options [''-df'', ''-c'', ''/cache'', ''-m/mnt'']) (parsed_start ''afs'') = Inr st
      \<and> take (fuse_main_argc st) (fuse_main_argv st) = map Some [''afs'', ''-d'', ''-f'', ''/mnt'']
      \<and> arg_cache_root st = Some ''/cache'')
   \<and> parse_opts (options (replicate 10 ''-d'')) (parsed_start ''afs'') = Inl Out_of_bounds"
proof -
  have a: "options [''-df'', ''-c'', ''/cache'', ''-m/mnt'']
      = [(CHR ''d'', []), (CHR ''f'', []), (CHR ''c'', ''/cache''), (CHR ''m'', ''/mnt'')]"
    by (simp add: getopt_defs)
  have b: "options (replicate n ''-d'') = replicate n (CHR ''d'', [])" for n
    by (induction n) (simp_all add: getopt_defs)
  have c: "length (concat (map forwarded (replicate n (CHR ''d'', [])))) = n" for n
    by (induction n) (simp_all add: forwarded_def)
  show ?thesis
    using options_forwarded[of "[''-df'', ''-c'', ''/cache'', ''-m/mnt'']" "''afs''"]
      options_forwarded[of "replicate 10 ''-d''" "''afs''"]
    unfolding a b c by (simp add: forwarded_def stops_def)
qed

end
