(* ===== verification/Printf.thy ===== *)
theory Printf
  imports Posix Hash_Path
begin

section \<open>Printing numbers\<close>

text \<open>
  The conversions of \<^verbatim>\<open>printf\<close> and of the C++ streams that the programs use, on machine words.  An argument
  wider than its conversion is cut to the conversion's width, as the 64-bit calling convention does.
\<close>

fun decimal :: "nat \<Rightarrow> string" where
  "decimal n = (if n < 10 then [char_of (48 + n)] else decimal (n div 10) @ [char_of (48 + n mod 10)])"

fun octal :: "nat \<Rightarrow> string" where
  "octal n = (if n < 8 then [char_of (48 + n)] else octal (n div 8) @ [char_of (48 + n mod 8)])"

fun hexadecimal :: "nat \<Rightarrow> string" where
  "hexadecimal n = (if n < 16 then [hex_digit n] else hexadecimal (n div 16) @ [hex_digit (n mod 16)])"

declare decimal.simps [simp del] octal.simps [simp del] hexadecimal.simps [simp del]

definition put_int :: "int \<Rightarrow> string" where
  "put_int i = (if i < 0 then CHR ''-'' # decimal (nat (- i)) else decimal (nat i))"

text \<open>Padding on the left to a width.\<close>

definition pad :: "char \<Rightarrow> nat \<Rightarrow> string \<Rightarrow> string" where
  "pad c n s = replicate (n - length s) c @ s"

text \<open>\<^verbatim>\<open>%d\<close>, \<^verbatim>\<open>%ld\<close> and \<^verbatim>\<open>%lld\<close>, \<^verbatim>\<open>%o\<close>, \<^verbatim>\<open>%08x\<close>, \<^verbatim>\<open>%08lx\<close> and \<^verbatim>\<open>%016llx\<close>\<close>

definition fmt_d :: "32 word \<Rightarrow> string" where "fmt_d w = put_int (sint w)"
definition put_long :: "64 word \<Rightarrow> string" where "put_long w = put_int (sint w)"
definition fmt_o :: "32 word \<Rightarrow> string" where "fmt_o w = octal (unat w)"
definition fmt_08x :: "32 word \<Rightarrow> string" where "fmt_08x w = pad (CHR ''0'') 8 (hexadecimal (unat w))"
definition fmt_08lx :: "64 word \<Rightarrow> string" where "fmt_08lx w = pad (CHR ''0'') 8 (hexadecimal (unat w))"
definition fmt_016llx :: "64 word \<Rightarrow> string" where "fmt_016llx w = pad (CHR ''0'') 16 (hexadecimal (unat w))"

text \<open>An address printed with \<^verbatim>\<open>%08x\<close>: its low 32 bits; with \<^verbatim>\<open>%p\<close>: all of it, \<^verbatim>\<open>(nil)\<close> for NULL.\<close>

definition fmt_addr :: "64 word \<Rightarrow> string" where "fmt_addr w = fmt_08x (ucast w)"
definition fmt_p :: "64 word \<Rightarrow> string" where
  "fmt_p w = (if w = 0 then ''(nil)'' else ''0x'' @ hexadecimal (unat w))"

lemma length_pad: "length (pad c n s) = max n (length s)"
  by (simp add: pad_def)

lemma length_hexadecimal: "n < 16 ^ k \<Longrightarrow> 0 < k \<Longrightarrow> length (hexadecimal n) \<le> k"
proof (induction n arbitrary: k rule: hexadecimal.induct)
  case (1 n)
  show ?case
  proof (cases "n < 16")
    case False
    then obtain k' where k: "k = Suc k'" "0 < k'"
      using "1.prems" by (cases k; cases "k - 1") auto
    have "n div 16 < 16 ^ k'"
      using "1.prems"(1) k(1) by (simp add: less_mult_imp_div_less mult.commute)
    then show ?thesis
      using "1.IH"[OF False _ k(2)] k(1) False by (subst hexadecimal.simps) simp
  qed (use "1.prems" in \<open>simp add: hexadecimal.simps\<close>)
qed

text \<open>A file handle is printed on sixteen digits, an address on eight.\<close>

lemma fixed_width: "length (fmt_016llx w) = 16" "length (fmt_addr w) = 8"
proof -
  have "unat w < 2 ^ 64" "unat (ucast w :: 32 word) < 2 ^ 32"
    using unsigned_less[of w, where 'a = nat] unsigned_less[of "ucast w :: 32 word", where 'a = nat] by simp_all
  then have "length (hexadecimal (unat w)) \<le> 16" "length (hexadecimal (unat (ucast w :: 32 word))) \<le> 8"
    using length_hexadecimal[of "unat w" 16] length_hexadecimal[of "unat (ucast w :: 32 word)" 8] by simp_all
  then show "length (fmt_016llx w) = 16" "length (fmt_addr w) = 8"
    by (simp_all add: fmt_016llx_def fmt_addr_def fmt_08x_def length_pad)
qed

end
