(* ===== verification/Client_Text.thy ===== *)
theory Client_Text
  imports Startup Printf
begin

section \<open>What the client prints, and its older table file\<close>

text \<open>
  \<^verbatim>\<open>print_usage\<close>, \<^verbatim>\<open>last_modified_t::print_table\<close> with the pointer cast it makes, and \<^verbatim>\<open>readFileIntoMap\<close>,
  the reader of an earlier format of the table, which \<^verbatim>\<open>main\<close> no longer calls.  Proved: the cast stays
  inside the strings for every table the constructor can have read, and the older reader gives back
  what was written in its format.
\<close>

subsection \<open>Output\<close>

definition print_usage :: "string \<Rightarrow> string" where
  "print_usage prog_name =
     prog_name @ '' [-s <serverhostname:port>] -c <cached files directory> ''
       @ ''-m <mount point directory> | -h'' @ [newline]
     @ ''[-h] shows this usage info.'' @ [newline]
     @ ''If '' @ [CHR 0x22] @ ''-s <serverhostname:port>'' @ [CHR 0x22] @ '' is not present, '' @ DEFAULT_SERVER
       @ '' is used.'' @ [newline]"

text \<open>
  One line per entry in the map's order.  The value's characters, with their terminating NUL, are read as
  a \<^verbatim>\<open>timespec\<close>; \<open>None\<close> is a read behind their end.
\<close>

definition print_entry :: "string \<times> string \<Rightarrow> string option" where
  "print_entry item =
     map_option (\<lambda>ts. CHR 0x09 # fst item @ '' = {'' @ put_long (tv_sec ts) @ '', '' @ put_long (tv_nsec ts) @ ''}'' @ [newline])
       (bytes_timespec (snd item @ [CHR 0x00]))"

fun print_entries :: "string table \<Rightarrow> string option" where
  "print_entries [] = Some []"
| "print_entries (item # items) =
     (case print_entry item of None \<Rightarrow> None | Some s \<Rightarrow> map_option (\<lambda>rest. s @ rest) (print_entries items))"

definition print_table :: "string store_env \<Rightarrow> string table_obj \<Rightarrow> string option" where
  "print_table e obj =
     map_option (\<lambda>s. ''========================='' @ [newline] @ ''last_modified table'' @ [newline] @ s
         @ ''========================='' @ [newline])
       (print_entries (visit e (table obj)))"

subsection \<open>The cast stays in bounds\<close>

definition times_long :: "string table \<Rightarrow> bool" where
  "times_long t \<longleftrightarrow> (\<forall>(k, v) \<in> set t. length v = 16)"

lemma times_long_update: "times_long t \<Longrightarrow> length v = 16 \<Longrightarrow> times_long (AList.update k v t)"
  by (induction t) (auto simp: times_long_def)

lemma times_long_delete: "times_long t \<Longrightarrow> times_long (AList.delete k t)"
  by (auto simp: times_long_def AList.delete_eq)

text \<open>Whatever bytes a file holds, only sixteen-byte times come out of it.\<close>

lemma last_modified_read_long:
  "last_modified_read ts s t = Some t' \<Longrightarrow> times_long t \<Longrightarrow> times_long t'"
proof (induction ts s t rule: last_modified_read.induct)
  case (1 ts s t)
  show ?case
    using "1.prems" "1.IH" by (subst (asm) last_modified_read.simps)
      (auto simp: Let_def times_long_update times_long_delete split: if_splits prod.splits)
qed

lemma print_entries_long: "times_long t \<Longrightarrow> print_entries t \<noteq> None"
  by (induction t) (auto simp: times_long_def print_entry_def bytes_timespec_def)

text \<open>
  Whatever the files of the table hold, the constructor stops at an assertion or has read times of
  sixteen bytes only, so that printing the table reads no byte behind a string and prints a line for
  every entry.
\<close>

lemma table_prints_in_bounds:
  assumes "last_modified_new cw c0 d = Some (obj, d')" "visits_all e"
  shows "(\<forall>k v. map_of (table obj) k = Some v \<longrightarrow> length v = 16) \<and> print_table e obj \<noteq> None"
proof -
  obtain t0 where t0: "(case snapshot_file d of None \<Rightarrow> Some [] | Some s \<Rightarrow> last_modified_read fresh_ts s []) = Some t0"
    "(case log_file d of None \<Rightarrow> Some t0 | Some s \<Rightarrow> last_modified_read fresh_ts s t0) = Some (table obj)"
    using assms(1) by (auto simp: last_modified_new_def load_files_def split: option.splits)
  have empty: "times_long []" by (simp add: times_long_def)
  have "times_long t0"
    using t0(1) last_modified_read_long[OF _ empty] by (auto simp: empty split: option.splits)
  then have long: "times_long (table obj)"
    using t0(2) last_modified_read_long by (auto split: option.splits)
  have "times_long (visit e (table obj))"
    using long assms(2) unfolding times_long_def visits_all_def by (metis set_mset_mset)
  then show ?thesis
    using long print_entries_long[of "visit e (table obj)"]
    by (auto simp: print_table_def times_long_def dest: map_of_SomeD)
qed

subsection \<open>The older table file\<close>

definition LAST_MODIFIED_FILE :: string where
  "LAST_MODIFIED_FILE = ''last_modified''"

definition is_space :: "char \<Rightarrow> bool" where
  "is_space c \<longleftrightarrow> c \<in> {CHR '' '', CHR 0x09, CHR 0x0A, CHR 0x0B, CHR 0x0C, CHR 0x0D}"

text \<open>\<^verbatim>\<open>file >> s\<close>: white space is skipped, then characters up to the next white space are stored.\<close>

definition next_word :: "byte_string \<Rightarrow> string \<times> byte_string" where
  "next_word s =
     (let s' = dropWhile is_space s
      in (takeWhile (\<lambda>c. \<not> is_space c) s', dropWhile (\<lambda>c. \<not> is_space c) s'))"

lemma next_word_shorter: "next_word s = (w, s') \<Longrightarrow> w \<noteq> [] \<Longrightarrow> length s' < length s"
proof -
  assume w: "next_word s = (w, s')" "w \<noteq> []"
  let ?d = "dropWhile is_space s"
  have "w @ s' = ?d" using w(1) by (auto simp: next_word_def Let_def)
  then have "length w + length s' \<le> length s"
    using length_dropWhile_le[of is_space s] by (metis length_append)
  then show ?thesis using w(2) by (cases w) simp_all
qed

text \<open>\<^verbatim>\<open>while (file >> key >> value) map[key] = value;\<close>\<close>

function read_pairs :: "byte_string \<Rightarrow> string table \<Rightarrow> string table" where
  "read_pairs s t =
     (case next_word s of (k, s1) \<Rightarrow>
        if k = [] then t
        else case next_word s1 of (v, s2) \<Rightarrow> if v = [] then t else read_pairs s2 (AList.update k v t))"
  by pat_completeness auto
termination
  by (relation "measure (\<lambda>(s, t). length s)") (auto dest!: next_word_shorter[OF sym])

declare read_pairs.simps [simp del]

definition readFileIntoMap :: "(byte_string \<Rightarrow> byte_string) \<Rightarrow> fs \<Rightarrow> string \<Rightarrow> string table" where
  "readFileIntoMap sha s root =
     (case ifstream_read s (cachepath sha root LAST_MODIFIED_FILE) of
        Some (Some d) \<Rightarrow> read_pairs d []
      | _ \<Rightarrow> [])"

text \<open>The lines it expects.\<close>

definition is_word :: "string \<Rightarrow> bool" where
  "is_word w \<longleftrightarrow> w \<noteq> [] \<and> (\<forall>c \<in> set w. \<not> is_space c)"

definition pair_line :: "string \<times> string \<Rightarrow> byte_string" where
  "pair_line kv = fst kv @ '' '' @ snd kv @ [newline]"

lemma next_word_is: "is_word w \<Longrightarrow> is_space c \<Longrightarrow> next_word (w @ c # s) = (w, c # s)"
  by (cases w) (auto simp: next_word_def is_word_def Let_def takeWhile_tail)

lemma next_word_skip: "is_space c \<Longrightarrow> next_word (c # s) = next_word s"
  by (simp add: next_word_def)

lemma read_pairs_skip: "is_space c \<Longrightarrow> read_pairs (c # s) t = read_pairs s t"
  by (subst (1 2) read_pairs.simps) (simp add: next_word_skip)

lemma read_pairs_line:
  assumes "is_word k" "is_word v"
  shows "read_pairs (pair_line (k, v) @ s) t = read_pairs s (AList.update k v t)"
proof -
  have sp: "is_space (CHR '' '')" "is_space newline"
    by (simp_all add: is_space_def)
  have "next_word (pair_line (k, v) @ s) = (k, CHR '' '' # v @ newline # s)"
    using next_word_is[OF assms(1) sp(1)] by (simp add: pair_line_def)
  moreover have "next_word (CHR '' '' # v @ newline # s) = (v, newline # s)"
    using next_word_is[OF assms(2) sp(2)] by (simp add: next_word_skip[OF sp(1)])
  ultimately show ?thesis
    using assms by (subst read_pairs.simps) (simp add: is_word_def read_pairs_skip[OF sp(2)])
qed

lemma read_pairs_nil: "read_pairs [] t = t"
  by (subst read_pairs.simps) (simp add: next_word_def)

lemma read_pairs_lines:
  "\<forall>(k, v) \<in> set kvs. is_word k \<and> is_word v \<Longrightarrow>
     read_pairs (concat (map pair_line kvs)) t = fold (\<lambda>(k, v). AList.update k v) kvs t"
  by (induction kvs arbitrary: t) (auto simp: read_pairs_nil read_pairs_line)

text \<open>
  A table written one entry to a line, path, blank and time, is read back: where the paths are
  distinct the map has exactly these entries.  Paths and times must be free of white space.
\<close>

lemma older_table_roundtrip:
  assumes "resolve s (cachepath sha root LAST_MODIFIED_FILE) = Inr cp"
    and "view s cp = Some (File (concat (map pair_line kvs)) t)"
    and "\<forall>(k, v) \<in> set kvs. is_word k \<and> is_word v" "distinct (map fst kvs)"
  shows "map_of (readFileIntoMap sha s root) = map_of kvs"
proof -
  have img: "(k, v) \<in> set ys \<Longrightarrow> k \<in> fst ` set ys" for k v and ys :: "(string \<times> string) list"
    by force
  have "map_of (fold (\<lambda>(k, v). AList.update k v) kvs t') = map_of t' ++ map_of kvs" if "distinct (map fst kvs)" for t'
    using that
    by (induction kvs arbitrary: t') (auto simp: update_conv' map_add_upd_left dom_map_of_conv_image_fst map_add_def fun_eq_iff dest: img map_of_SomeD split: option.splits)
  then show ?thesis
    using read_pairs_lines[OF assms(3), of "[]"] assms(4) ifstream_read_file[OF assms(1,2)]
    by (simp add: readFileIntoMap_def)
qed

end
