(* ===== verification/Time_Crash.thy ===== *)
theory Time_Crash
  imports Last_Modified
begin

section \<open>Crashes inside last_modified_t::set\<close>

text \<open>
  What any prefix of the writes of \<^verbatim>\<open>set\<close> leaves for the next start.  The reader takes the erasure of
  an entry it does not hold for an entry, so the log replayed over a snapshot that already covers it
  (a crash between renaming the snapshot and truncating the log) brings erased entries back, with the
  sixteen bytes 255 as their time.  Proved: beside such entries, and the entry whose time was not
  yet written behind its hash, nothing is disturbed, and the client starts.
\<close>

text \<open>The records of a valid log read over any table.\<close>

definition marked :: "string option \<Rightarrow> string option option \<Rightarrow> string option \<Rightarrow> bool" where
  "marked x op r \<longleftrightarrow>
     (case op of None \<Rightarrow> r = x | Some None \<Rightarrow> r \<in> {None, Some erased_mark} | Some (Some v) \<Rightarrow> r = Some v)"

lemma read_marked:
  assumes "mtime.valid_from T0 rs"
  shows "\<exists>T'. last_modified_read (fit16 c) (enc_recs time_put_line time_del_line rs) T = Some T'
    \<and> (\<forall>k. marked (map_of T k) (last_op rs k) (map_of T' k))"
  using assms
proof (induction rs arbitrary: T T0 c)
  case Nil
  then show ?case by (simp add: marked_def)
next
  case (Cons r rs)
  show ?case
  proof (cases r)
    case (Put k v)
    then have ok: "time_ok k v" "mtime.valid_from (AList.update k v T0) rs"
      using Cons.prems by simp_all
    obtain T' where T': "last_modified_read (fit16 v) (enc_recs time_put_line time_del_line rs) (AList.update k v T) = Some T'"
      "\<forall>q. marked (map_of (AList.update k v T) q) (last_op rs q) (map_of T' q)"
      using Cons.IH[OF ok(2)] by blast
    have "last_modified_read (fit16 c) (enc_recs time_put_line time_del_line (r # rs)) T = Some T'"
      using ok(1) T'(1) by (simp add: Put time_ok_def last_modified_read_record)
    moreover have "marked (map_of T q) (last_op (r # rs) q) (map_of T' q)" for q
      using T'(2)[rule_format, of q] by (cases "last_op rs q") (auto simp: Put marked_def table_simps split: if_splits)
    ultimately show ?thesis by blast
  next
    case (Del k)
    then have ok: "hash_key k" "mtime.valid_from (AList.delete k T0) rs"
      using Cons.prems by simp_all
    let ?T = "if map_of T k \<noteq> None then AList.delete k T else AList.update k erased_mark T"
    obtain T' where T': "last_modified_read (fit16 erased_mark) (enc_recs time_put_line time_del_line rs) ?T = Some T'"
      "\<forall>q. marked (map_of ?T q) (last_op rs q) (map_of T' q)"
      using Cons.IH[OF ok(2)] by blast
    have "last_modified_read (fit16 c) (enc_recs time_put_line time_del_line (r # rs)) T = Some T'"
      using ok(1) T'(1) by (simp add: Del time_del_line_def last_modified_read_record)
    moreover have "marked (map_of T q) (last_op (r # rs) q) (map_of T' q)" for q
      using T'(2)[rule_format, of q] by (cases "last_op rs q") (auto simp: Del marked_def table_simps split: if_splits)
    ultimately show ?thesis by blast
  qed
qed

text \<open>The table that is read agrees with \<open>t\<close>, but for erased entries that are back with the mark.\<close>

definition reads_back :: "table_disk \<Rightarrow> string table \<Rightarrow> bool" where
  "reads_back d t \<longleftrightarrow> (\<exists>t'. load_files (last_modified_read fresh_ts) d = Some t'
     \<and> (\<forall>k. map_of t' k = map_of t k \<or> map_of t k = None \<and> map_of t' k = Some erased_mark))"

lemma holds_reads_back: "mtime.holds d t \<Longrightarrow> reads_back d t"
  using mtime_load unfolding reads_back_def by metis

lemma renamed_reads_back:
  assumes "mtime.holds d t" "table_ok es" "\<forall>(k, v) \<in> set es. time_ok k v" "map_of es = map_of t"
    and "snapshot_file d' = Some (enc_table time_put_line es)" "log_file d' = log_file d"
  shows "reads_back d' t"
proof -
  obtain S rs where log: "log_file d = Some (enc_recs time_put_line time_del_line rs)"
    "mtime.valid_from S rs" "map_of (replay rs S) = map_of t"
    using assms(1) unfolding mtime.holds_def by blast
  obtain T where T: "last_modified_read fresh_ts (enc_table time_put_line es) [] = Some T" "map_of T = map_of es"
    using mtime.load_table[OF assms(2,3), of "[]"] by (auto simp: fresh_ts_fit16)
  obtain T' where T': "last_modified_read (fit16 []) (enc_recs time_put_line time_del_line rs) T = Some T'"
    "\<forall>k. marked (map_of T k) (last_op rs k) (map_of T' k)"
    using read_marked[OF log(2)] by blast
  have "map_of T' k = map_of t k \<or> map_of t k = None \<and> map_of T' k = Some erased_mark" for k
  proof -
    have "map_of t k = (case last_op rs k of None \<Rightarrow> map_of S k | Some x \<Rightarrow> x)"
      using log(3) map_of_replay[of rs S k] by simp
    then show ?thesis
      using T'(2)[rule_format, of k] T(2) assms(4) by (auto simp: marked_def split: option.splits)
  qed
  moreover have "load_files (last_modified_read fresh_ts) d' = Some T'"
    using assms(5,6) log(1) T(1) T'(1) by (simp add: load_files_def fresh_ts_fit16)
  ultimately show ?thesis
    unfolding reads_back_def by blast
qed

lemma snapshot_reads_back:
  assumes "mtime.holds d t" "table_ok t" "\<forall>k v. map_of t k = Some v \<longrightarrow> time_ok k v" "visits_all e"
  shows "reads_back (run_ops (take n (snapshot_ops (\<lambda>(k, v). time_put_line k v) (visit e t))) d) t"
proof -
  let ?es = "visit e t"
  let ?d = "run_ops (take n (snapshot_ops (\<lambda>(k, v). time_put_line k v) ?es)) d"
  note vis = visit_facts[OF assms(4,2)]
  note ok = mtime_keys[OF assms(3,2,4)]
  consider "snapshot_file ?d = snapshot_file d" "log_file ?d = log_file d"
    | "snapshot_file ?d = Some (enc_table time_put_line ?es)" "log_file ?d = log_file d"
    | "snapshot_file ?d = Some (enc_table time_put_line ?es)" "log_file ?d = Some []"
    using run_snapshot_prefix[of n "\<lambda>(k, v). time_put_line k v" ?es d] by blast
  then show ?thesis
  proof cases
    case 1
    then show ?thesis using mtime.holds_other_files[OF _ _ assms(1)] holds_reads_back by blast
  next
    case 2
    then show ?thesis using renamed_reads_back[OF assms(1) vis(2) ok vis(1)] by blast
  next
    case 3
    then show ?thesis using mtime.holds_snapshot[OF 3 vis(2) ok vis(1)] holds_reads_back by blast
  qed
qed

text \<open>Once the hash and the time are in the log, the new table is read.\<close>

lemma time_written_reads_back:
  assumes "visits_all e" "writable e" "last_modified_synced obj d" and v: "length v = 16" "v \<noteq> erased_mark"
    and set: "last_modified_set e obj f v = (obj', ops)" and new: "map_of (table obj) (hashpath (digest e) f) \<noteq> Some v"
  shows "reads_back (run_ops (take (Suc (Suc m)) ops) d) (table obj')"
proof -
  let ?h = "hashpath (digest e) f"
  have s: "log_is_open obj" "mtime.holds d (table obj)"
    using assms(3) by (simp_all add: last_modified_synced_def)
  note shape = last_modified_set_shape[OF set assms(2) s(1) new]
  let ?d2 = "run_op (AppendLog (v @ [newline])) (run_op (AppendLog (?h @ [newline])) d)"
  have "last_modified_synced obj' (run_ops ops d)"
    by (rule last_modified_set_synced[OF assms(3) v set assms(1,2)])
  then have t: "table_ok (table obj')" "\<forall>k v. map_of (table obj') k = Some v \<longrightarrow> time_ok k v"
    by (simp_all add: last_modified_synced_def)
  have "mtime.holds (run_op (AppendLog (time_put_line ?h v)) d) (table obj')"
    unfolding shape(1) by (rule mtime.holds_put[OF s(2)]) (simp add: time_ok_def v)
  then have h2: "mtime.holds ?d2 (table obj')"
    by (rule mtime.holds_other_files[rotated 2]) (simp_all only: append_twice time_put_line_def append_assoc)
  show ?thesis
  proof (cases "cpp_rem (counter obj + 1) (snapshot_frequency obj) = 0")
    case True
    then show ?thesis
      using snapshot_reads_back[OF h2 t assms(1), of m] by (simp add: shape(3) del: run_op.simps)
  next
    case False
    then show ?thesis
      using holds_reads_back[OF h2] by (simp add: shape(3) del: run_op.simps)
  qed
qed

text \<open>
  C21: whatever prefix of the writes of \<^verbatim>\<open>set\<close> (the hash, the time, a snapshot every tenth time) reached
  the disk, the client starts again, and the table it reads is the one before or after the call, but
  for two things: an entry erased since the last snapshot may be back with the mark as its time, and
  if the crash fell between the hash and its time, this one entry has another time or none.
\<close>

theorem last_modified_set_crash:
  assumes "visits_all e" "writable e" "last_modified_reach e obj d"
    and v: "length v = 16" "v \<noteq> erased_mark" and set: "last_modified_set e obj f v = (obj', ops)"
  shows "\<exists>t. load_files (last_modified_read fresh_ts) (run_ops (take n ops) d) = Some t
    \<and> (\<forall>k. k \<noteq> hashpath (digest e) f \<longrightarrow> map_of t k = map_of (table obj) k
         \<or> map_of (table obj) k = None \<and> map_of t k = Some erased_mark)
    \<and> (n \<noteq> 1 \<longrightarrow> map_of t (hashpath (digest e) f) \<in> {map_of (table obj) (hashpath (digest e) f), Some v})"
proof -
  let ?h = "hashpath (digest e) f"
  let ?read = "\<lambda>d. load_files (last_modified_read fresh_ts) d"
  have sync: "last_modified_synced obj d"
    by (rule last_modified_reach_synced[OF assms(1-3)])
  then have s: "log_is_open obj" "mtime.holds d (table obj)"
    by (simp_all add: last_modified_synced_def)
  have old: ?thesis if "take n ops = []"
    using mtime_load[OF s(2)] that by auto
  show ?thesis
  proof (cases "map_of (table obj) ?h = Some v")
    case True
    then show ?thesis using last_modified_set_same(2)[OF set] old by simp
  next
    case False
    note shape = last_modified_set_shape[OF set assms(2) s(1) False]
    consider "n = 0" | "n = 1" | m where "n = Suc (Suc m)"
      by (metis One_nat_def not0_implies_Suc)
    then show ?thesis
    proof cases
      case 1
      then show ?thesis using old by simp
    next
      case 2
      have "take n ops = [AppendLog (?h @ [newline])]"
        using 2 by (simp add: shape(3))
      moreover obtain t' c where "map_of t' = map_of (table obj)"
        "?read (run_op (AppendLog (?h @ [newline])) d) = last_modified_read (fit16 c) (?h @ [newline]) t'"
        using mtime_load_tail[OF s(2)] by blast
      ultimately show ?thesis
        using 2 last_modified_read_torn[of ?h "fit16 c" t']
        by (auto simp del: run_op.simps simp: table_simps)
    next
      case (3 m)
      have "reads_back (run_ops (take n ops) d) (table obj')"
        unfolding 3 by (rule time_written_reads_back[OF assms(1,2) sync v set False])
      then obtain t' where t': "?read (run_ops (take n ops) d) = Some t'"
        "\<forall>k. map_of t' k = map_of (table obj') k \<or> map_of (table obj') k = None \<and> map_of t' k = Some erased_mark"
        unfolding reads_back_def by blast
      have eq: "map_of (table obj') k = (if k = ?h then Some v else map_of (table obj) k)" for k
        by (simp add: shape(1) table_simps)
      have "map_of t' k = map_of (table obj) k \<or> map_of (table obj) k = None \<and> map_of t' k = Some erased_mark"
        if "k \<noteq> ?h" for k
        using t'(2)[rule_format, of k] that by (simp add: eq)
      moreover have "map_of t' ?h = Some v"
        using t'(2)[rule_format, of ?h] by (simp add: eq)
      ultimately show ?thesis
        using t'(1) by blast
    qed
  qed
qed

theorem last_modified_set_crash_witness:
  "\<exists>t. load_files (last_modified_read fresh_ts)
      (run_ops (take 4 (snd (last_modified_set sample_time_env (sample_time_obj 9) ''/f'' sample_time))) sample_disk) = Some t
    \<and> map_of t (hashpath (digest sample_time_env) ''/f'') \<in> {None, Some sample_time}"
  using last_modified_set_crash[OF sample_time_env sample_time_reach sample_time surjective_pairing, of 4 9 "''/f''"]
  by (fastforce simp: sample_time_obj_def)

end
