(* ===== verification/Write_Race.thy ===== *)
theory Write_Race
  imports Server_Samples
begin

section \<open>Concurrent uploads\<close>

text \<open>
  gRPC runs handlers on several threads.  Here \<^verbatim>\<open>Write\<close> is split where another thread can come in
  between: taking the mutex, opening the cache file, storing each message, closing and unlocking,
  \<^verbatim>\<open>stat\<close> and \<^verbatim>\<open>rename\<close>.  The mutex covers the filling of the cache file but not the two calls after
  it.  Proved: at most one handler is inside the mutex; uploads to different files never disturb
  each other, and what becomes visible is always one upload's bytes, whole; uploads of the same
  file share one cache file, and there half an upload can become visible.
\<close>

subsection \<open>Threads\<close>

datatype handler =
    Idle
  | Ready "FilepathContent list" bool
  | Locked "FilepathContent list" bool
  | Copying nat "FilepathContent list" "FilepathContent list" bool
  | Closed "FilepathContent list" bool
  | Stamped "FilepathContent list" timespec
  | Returned status Meta
  | Leaked

text \<open>
  \<open>Copying i all rest\<close> has the cache file open at inode \<open>i\<close>, with \<open>rest\<close> still to be stored; \<open>Leaked\<close>
  has returned \<^verbatim>\<open>NOT_FOUND\<close> with the mutex locked.
\<close>

record wstate =
  wsrv :: server
  hs :: "nat \<Rightarrow> handler"

fun first_path :: "FilepathContent list \<Rightarrow> string" where
  "first_path [] = fc_filepath default_FilepathContent"
| "first_path (m # ms) = fc_filepath m"

fun last_path :: "FilepathContent list \<Rightarrow> string" where
  "last_path [] = fc_filepath default_FilepathContent"
| "last_path ms = fc_filepath (last ms)"

inductive wstep :: "(byte_string \<Rightarrow> byte_string) \<Rightarrow> timespec \<Rightarrow> wstate \<Rightarrow> wstate \<Rightarrow> bool"
  for dg junk where
  take_lock: "hs st h = Ready msgs c \<Longrightarrow> \<not> lock_held (wsrv st) \<Longrightarrow>
    wstep dg junk st (st\<lparr>wsrv := (wsrv st)\<lparr>lock_held := True\<rparr>, hs := (hs st)(h := Locked msgs c)\<rparr>)"
| open_fails: "hs st h = Locked msgs c \<Longrightarrow>
    ofstream_open (sfs (wsrv st)) (getServerFilepath dg (wsrv st) (first_path msgs) True) = (s, Inl e) \<Longrightarrow>
    wstep dg junk st (st\<lparr>wsrv := (wsrv st)\<lparr>sfs := s\<rparr>, hs := (hs st)(h := Leaked)\<rparr>)"
| opens: "hs st h = Locked msgs c \<Longrightarrow>
    ofstream_open (sfs (wsrv st)) (getServerFilepath dg (wsrv st) (first_path msgs) True) = (s, Inr i) \<Longrightarrow>
    wstep dg junk st (st\<lparr>wsrv := (wsrv st)\<lparr>sfs := s\<rparr>, hs := (hs st)(h := Copying i msgs msgs c)\<rparr>)"
| store: "hs st h = Copying i msgs (m # rest) c \<Longrightarrow>
    wstep dg junk st (st\<lparr>wsrv := (wsrv st)\<lparr>sfs := store_more (sfs (wsrv st)) i (fc_b m)\<rparr>,
      hs := (hs st)(h := Copying i msgs rest c)\<rparr>)"
| unlock: "hs st h = Copying i msgs [] c \<Longrightarrow>
    wstep dg junk st (st\<lparr>wsrv := (wsrv st)\<lparr>lock_held := False\<rparr>, hs := (hs st)(h := Closed msgs c)\<rparr>)"
| cancels: "hs st h = Closed msgs True \<Longrightarrow>
    wstep dg junk st (st\<lparr>hs := (hs st)(h := Returned CANCELLED default_Meta)\<rparr>)"
| stats: "hs st h = Closed msgs False \<Longrightarrow>
    t = (case sys_stat (sfs (wsrv st)) (getServerFilepath dg (wsrv st) (first_path msgs) True) of
           Inl e \<Rightarrow> junk | Inr sb \<Rightarrow> st_mtim sb) \<Longrightarrow>
    wstep dg junk st (st\<lparr>hs := (hs st)(h := Stamped msgs t)\<rparr>)"
| renames: "hs st h = Stamped msgs t \<Longrightarrow>
    wstep dg junk st (st\<lparr>wsrv := (wsrv st)\<lparr>sfs := fst (sys_rename (sfs (wsrv st))
        (getServerFilepath dg (wsrv st) (last_path msgs) True)
        (getServerFilepath dg (wsrv st) (last_path msgs) False))\<rparr>,
      hs := (hs st)(h := Returned OK (default_Meta\<lparr>meta_timestamp := timespec_bytes t\<rparr>))\<rparr>)"
| clock: "wstep dg junk st (st\<lparr>wsrv := (wsrv st)\<lparr>sfs := (sfs (wsrv st))\<lparr>fs_now := t\<rparr>\<rparr>\<rparr>)"

inductive wreach :: "(byte_string \<Rightarrow> byte_string) \<Rightarrow> timespec \<Rightarrow> wstate \<Rightarrow> wstate \<Rightarrow> bool"
  for dg junk st0 where
  start: "wreach dg junk st0 st0"
| step: "wreach dg junk st0 st \<Longrightarrow> wstep dg junk st st' \<Longrightarrow> wreach dg junk st0 st'"

lemma wreach_trans: "wreach dg junk b c \<Longrightarrow> wreach dg junk a b \<Longrightarrow> wreach dg junk a c"
  by (induction rule: wreach.induct) (auto intro: wreach.step)

text \<open>The uploads that arrive: all handlers start \<open>Ready\<close> or \<open>Idle\<close>.\<close>

type_synonym jobs = "nat \<Rightarrow> (FilepathContent list \<times> bool) option"

definition launch :: "server \<Rightarrow> jobs \<Rightarrow> wstate" where
  "launch srv jobs = \<lparr>wsrv = srv,
     hs = (\<lambda>h. case jobs h of None \<Rightarrow> Idle | Some (msgs, c) \<Rightarrow> Ready msgs c)\<rparr>"

subsection \<open>Mutual exclusion\<close>

fun in_mutex :: "handler \<Rightarrow> bool" where
  "in_mutex (Locked msgs c) = True"
| "in_mutex (Copying i msgs rest c) = True"
| "in_mutex Leaked = True"
| "in_mutex _ = False"

fun_cases in_mutexE: "in_mutex x"

definition mutex_inv :: "wstate \<Rightarrow> bool" where
  "mutex_inv st \<longleftrightarrow>
     (\<forall>h h'. in_mutex (hs st h) \<and> in_mutex (hs st h') \<longrightarrow> h = h')
     \<and> (lock_held (wsrv st) \<longleftrightarrow> (\<exists>h. in_mutex (hs st h)))"

lemma mutex_keep:
  assumes "mutex_inv st" "in_mutex x = in_mutex (hs st h)" "hs st' = (hs st)(h := x)"
    "lock_held (wsrv st') = lock_held (wsrv st)"
  shows "mutex_inv st'"
proof -
  have "in_mutex (hs st' g) = in_mutex (hs st g)" for g
    using assms(2,3) by simp
  then show ?thesis
    using assms(1,4) by (simp add: mutex_inv_def)
qed

lemma mutex_step: "wstep dg junk st st' \<Longrightarrow> mutex_inv st \<Longrightarrow> mutex_inv st'"
proof (induction rule: wstep.induct)
  case (take_lock st h msgs c)
  then have "\<not> in_mutex (hs st g)" for g by (auto simp: mutex_inv_def)
  then show ?case by (auto simp: mutex_inv_def)
next
  case (unlock st h i msgs c)
  then have "in_mutex (hs st h)" by simp
  then have "\<not> in_mutex (hs st g)" if "g \<noteq> h" for g
    using unlock.prems that unfolding mutex_inv_def by blast
  then show ?case by (auto simp: mutex_inv_def)
next
  case (open_fails st h msgs c s e)
  show ?case by (rule mutex_keep[OF open_fails.prems, of Leaked h]) (simp_all add: open_fails.hyps)
next
  case (opens st h msgs c s i)
  show ?case by (rule mutex_keep[OF opens.prems, of "Copying i msgs msgs c" h]) (simp_all add: opens.hyps)
next
  case (store st h i msgs m rest c)
  show ?case by (rule mutex_keep[OF store.prems, of "Copying i msgs rest c" h]) (simp_all add: store.hyps)
next
  case (cancels st h msgs)
  show ?case
    by (rule mutex_keep[OF cancels.prems, of "Returned CANCELLED default_Meta" h]) (simp_all add: cancels.hyps)
next
  case (stats st h msgs t)
  show ?case by (rule mutex_keep[OF stats.prems, of "Stamped msgs t" h]) (simp_all add: stats.hyps(1))
next
  case (renames st h msgs t)
  show ?case
    by (rule mutex_keep[OF renames.prems, of "Returned OK (default_Meta\<lparr>meta_timestamp := timespec_bytes t\<rparr>)" h])
      (simp_all add: renames.hyps)
next
  case (clock st t)
  then show ?case by (simp add: mutex_inv_def)
qed

lemma mutex_launch: "\<not> lock_held srv \<Longrightarrow> mutex_inv (launch srv jobs)"
  by (auto simp: mutex_inv_def launch_def split: option.splits)

lemma mutex_reach: "wreach dg junk st0 st \<Longrightarrow> mutex_inv st0 \<Longrightarrow> mutex_inv st"
  by (induction rule: wreach.induct) (auto intro: mutex_step)

text \<open>
  C25: however the handlers interleave, at most one of them is between \<^verbatim>\<open>pthread_mutex_lock\<close> and
  \<^verbatim>\<open>pthread_mutex_unlock\<close>, and the mutex is taken exactly while one is (or has left it locked).
\<close>

theorem write_mutual_exclusion:
  assumes "wreach dg junk (launch srv jobs) st" "\<not> lock_held srv"
  shows "(in_mutex (hs st h) \<and> in_mutex (hs st h') \<longrightarrow> h = h')
    \<and> (lock_held (wsrv st) \<longleftrightarrow> (\<exists>h. in_mutex (hs st h)))"
  using mutex_reach[OF assms(1) mutex_launch[OF assms(2)]] unfolding mutex_inv_def by blast

subsection \<open>Uploads of different files\<close>

text \<open>
  Each upload is for one path without \<^verbatim>\<open>..\<close>, and no two share a cache file, which for different paths
  is what a collision-free digest gives.
\<close>

definition cache_of :: "(byte_string \<Rightarrow> byte_string) \<Rightarrow> string list \<Rightarrow> FilepathContent list \<Rightarrow> string list" where
  "cache_of dg base msgs = base @ [CACHE, hashFilepath dg (first_path msgs)]"

definition bytes_of :: "FilepathContent list \<Rightarrow> byte_string" where
  "bytes_of msgs = concat (map fc_b msgs)"

definition separate :: "(byte_string \<Rightarrow> byte_string) \<Rightarrow> jobs \<Rightarrow> bool" where
  "separate dg jobs \<longleftrightarrow>
     (\<forall>h msgs c. jobs h = Some (msgs, c) \<longrightarrow> no_dotdot (first_path msgs) \<and> last_path msgs = first_path msgs)
     \<and> (\<forall>h h' msgs msgs' c c'. jobs h = Some (msgs, c) \<and> jobs h' = Some (msgs', c') \<and> h \<noteq> h' \<longrightarrow>
          hashFilepath dg (first_path msgs) \<noteq> hashFilepath dg (first_path msgs'))"

text \<open>How far an upload has come, and what its cache file holds then.\<close>

fun progress :: "(byte_string \<Rightarrow> byte_string) \<Rightarrow> string list \<Rightarrow> (FilepathContent list \<times> bool) option \<Rightarrow> fs \<Rightarrow> handler \<Rightarrow> bool" where
  "progress dg base job s (Ready msgs c) = (job = Some (msgs, c))"
| "progress dg base job s (Locked msgs c) = (job = Some (msgs, c))"
| "progress dg base job s (Copying i msgs rest c) =
     (job = Some (msgs, c) \<and> node s (cache_of dg base msgs) = Some i
      \<and> (\<exists>sent t. msgs = sent @ rest \<and> view s (cache_of dg base msgs) = Some (File (bytes_of sent) t)))"
| "progress dg base job s (Closed msgs c) =
     (job = Some (msgs, c) \<and> (\<exists>t. view s (cache_of dg base msgs) = Some (File (bytes_of msgs) t)))"
| "progress dg base job s (Stamped msgs ts) =
     (job = Some (msgs, False) \<and> (\<exists>t. view s (cache_of dg base msgs) = Some (File (bytes_of msgs) t)))"
| "progress dg base job s _ = True"

lemma progress_frame:
  assumes "progress dg base job s x"
    and "\<And>msgs c. job = Some (msgs, c) \<Longrightarrow> view s' (cache_of dg base msgs) = view s (cache_of dg base msgs)
      \<and> node s' (cache_of dg base msgs) = node s (cache_of dg base msgs)"
  shows "progress dg base job s' x"
proof (cases x)
  case (Stamped msgs ts)
  then show ?thesis using assms(1) assms(2)[of msgs False] by simp
qed (use assms in auto)

definition tree_of :: "string list \<Rightarrow> string list set" where
  "tree_of base = {q. \<exists>zs. q = base @ FS_ROOT # zs}"

definition same_dirs :: "fs \<Rightarrow> fs \<Rightarrow> bool" where
  "same_dirs s s' \<longleftrightarrow> (\<forall>q. is_dir s q = is_dir s' q)"

lemma same_dirs_refl [simp]: "same_dirs s s"
  by (simp add: same_dirs_def)

lemma same_dirs_clock [simp]: "same_dirs (s\<lparr>fs_now := t\<rparr>) s0 = same_dirs s s0"
  by (simp add: same_dirs_def)

lemma same_dirs_step: "same_dirs s s0 \<Longrightarrow> (\<And>q. is_dir s' q = is_dir s q) \<Longrightarrow> same_dirs s' s0"
  by (simp add: same_dirs_def)

text \<open>The name of the tree an upload is for.\<close>

definition goes_to :: "string list \<Rightarrow> fs \<Rightarrow> FilepathContent list \<Rightarrow> string list \<Rightarrow> bool" where
  "goes_to base s msgs q \<longleftrightarrow> walk s (base @ [FS_ROOT]) (path_comps (first_path msgs)) = Inr q"

definition race_inv :: "(byte_string \<Rightarrow> byte_string) \<Rightarrow> string list \<Rightarrow> jobs \<Rightarrow> fs \<Rightarrow> wstate \<Rightarrow> bool" where
  "race_inv dg base jobs s0 st \<longleftrightarrow>
     server_ok (wsrv st) base
     \<and> (\<forall>w. length w = 64 \<longrightarrow> \<not> is_dir (sfs (wsrv st)) (base @ [CACHE, w]))
     \<and> (\<forall>h. progress dg base (jobs h) (sfs (wsrv st)) (hs st h))
     \<and> same_dirs (sfs (wsrv st)) s0
     \<and> (\<forall>q \<in> tree_of base. view (sfs (wsrv st)) q = view s0 q
          \<or> (\<exists>h msgs t. jobs h = Some (msgs, False) \<and> goes_to base s0 msgs q
               \<and> view (sfs (wsrv st)) q = Some (File (bytes_of msgs) t)))"

lemma race_inv_simple:
  assumes "race_inv dg base jobs s0 st" "sfs (wsrv st') = sfs (wsrv st)"
    "AFS_ROOT_DIR (wsrv st') = AFS_ROOT_DIR (wsrv st)" "hs st' = (hs st)(h := x)"
    "progress dg base (jobs h) (sfs (wsrv st)) x"
  shows "race_inv dg base jobs s0 st'"
  using assms by (simp add: race_inv_def server_ok_def)

text \<open>A step of one handler that touches its own cache file, or moves it into the tree.\<close>

lemma race_inv_step:
  assumes inv: "race_inv dg base jobs s0 st" and sep: "separate dg jobs"
    and job: "jobs h = Some (msgs, c)" and s: "wf_fs s" "\<And>q. is_dir s q = is_dir (sfs (wsrv st)) q"
    and st': "wsrv st' = (wsrv st)\<lparr>sfs := s\<rparr>" "hs st' = (hs st)(h := x)"
    and own: "progress dg base (Some (msgs, c)) s x"
    and others: "\<And>q. q \<noteq> cache_of dg base msgs \<Longrightarrow> q \<notin> tree_of base \<Longrightarrow>
      view s q = view (sfs (wsrv st)) q \<and> node s q = node (sfs (wsrv st)) q"
    and tree: "\<And>q. q \<in> tree_of base \<Longrightarrow> view s q = view (sfs (wsrv st)) q
      \<or> \<not> c \<and> goes_to base s0 msgs q \<and> (\<exists>t. view s q = Some (File (bytes_of msgs) t))"
  shows "race_inv dg base jobs s0 st'"
proof -
  have ok: "server_ok (wsrv st) base"
    using inv by (simp add: race_inv_def)
  have prog: "progress dg base (jobs g) s (hs st' g)" for g
  proof (cases "g = h")
    case True
    then show ?thesis using own job st'(2) by simp
  next
    case False
    have old: "progress dg base (jobs g) (sfs (wsrv st)) (hs st g)"
      using inv by (simp add: race_inv_def)
    have "view s (cache_of dg base msgs') = view (sfs (wsrv st)) (cache_of dg base msgs')
      \<and> node s (cache_of dg base msgs') = node (sfs (wsrv st)) (cache_of dg base msgs')"
      if "jobs g = Some (msgs', c')" for msgs' c'
    proof (rule others)
      show "cache_of dg base msgs' \<noteq> cache_of dg base msgs"
        using sep that job False unfolding separate_def cache_of_def by (metis append_same_eq list.inject same_append_eq)
      show "cache_of dg base msgs' \<notin> tree_of base"
        by (auto simp: cache_of_def tree_of_def FS_ROOT_def CACHE_def)
    qed
    from progress_frame[OF old this] show ?thesis
      using False st'(2) by simp
  qed
  have "view s q = view s0 q \<or> (\<exists>h msgs t. jobs h = Some (msgs, False) \<and> goes_to base s0 msgs q
      \<and> view s q = Some (File (bytes_of msgs) t))"
    if q: "q \<in> tree_of base" for q
  proof (cases "view s q = view (sfs (wsrv st)) q")
    case True
    then show ?thesis using inv q by (simp add: race_inv_def)
  next
    case False
    then show ?thesis using tree[OF q] job by (cases c) auto
  qed
  then show ?thesis
    using server_ok_same_dirs[OF ok s] prog inv s(2) st'(1) same_dirs_step[of "sfs (wsrv st)" s0 s]
    by (simp add: race_inv_def)
qed

lemma node_ofstream_open:
  assumes "ofstream_open s p = (s', Inr i)" "resolve s p = Inr cp" "q \<noteq> cp"
  shows "node s' q = node s q"
  using assms(1) unfolding ofstream_open_def
  by (cases rule: open_node_cases) (use assms(2,3) in \<open>auto simp: node_create\<close>)

lemma node_rename:
  assumes "resolve s old \<noteq> Inr q" "resolve s new \<noteq> Inr q"
  shows "node (fst (sys_rename s old new)) q = node s q"
  using assms
  by (auto simp: sys_rename_def node_def update_conv' delete_conv' split: sum.splits option.splits)

lemma view_rename:
  assumes "wf_fs s" "resolve s old \<noteq> Inr q" "resolve s new \<noteq> Inr q"
  shows "view (fst (sys_rename s old new)) q = view s q"
  using frame_rename[OF assms(1), of old new q] assms(2,3) by blast

lemma bytes_of_simps [simp]: "bytes_of [] = []" "bytes_of (ms @ ms') = bytes_of ms @ bytes_of ms'"
  "bytes_of (m # ms) = fc_b m @ bytes_of ms"
  by (simp_all add: bytes_of_def)

lemma cache_not_in_tree: "cache_of dg base msgs \<notin> tree_of base"
  by (auto simp: cache_of_def tree_of_def FS_ROOT_def CACHE_def)

lemma resolve_cache_of:
  "server_ok srv base \<Longrightarrow> resolve (sfs srv) (getServerFilepath dg srv (first_path msgs) True) = Inr (cache_of dg base msgs)"
  using resolve_cached by (simp add: cache_of_def)

lemma cache_of_no_dir:
  "race_inv dg base jobs s0 st \<Longrightarrow> \<not> is_dir (sfs (wsrv st)) (cache_of dg base msgs)"
  by (simp add: race_inv_def cache_of_def)

lemma race_opens:
  assumes inv: "race_inv dg base jobs s0 st" and sep: "separate dg jobs" and h: "hs st h = Locked msgs c"
    and op: "ofstream_open (sfs (wsrv st)) (getServerFilepath dg (wsrv st) (first_path msgs) True) = (s, Inr i)"
  shows "race_inv dg base jobs s0 (st\<lparr>wsrv := (wsrv st)\<lparr>sfs := s\<rparr>, hs := (hs st)(h := Copying i msgs msgs c)\<rparr>)"
proof -
  have ok: "server_ok (wsrv st) base" and wf: "wf_fs (sfs (wsrv st))"
    using inv by (simp_all add: race_inv_def server_ok_def)
  note r = resolve_cache_of[OF ok, of dg msgs]
  have job: "jobs h = Some (msgs, c)"
    using inv h unfolding race_inv_def by (metis progress.simps(2))
  obtain cp where "resolve (sfs (wsrv st)) (getServerFilepath dg (wsrv st) (first_path msgs) True) = Inr cp"
    "node s cp = Some i" "view s = (view (sfs (wsrv st)))(cp \<mapsto> File [] (fs_now (sfs (wsrv st))))" "wf_fs s"
    using ofstream_open_ok[OF wf op] by metis
  then have o: "node s (cache_of dg base msgs) = Some i" "wf_fs s"
    "view s = (view (sfs (wsrv st)))(cache_of dg base msgs \<mapsto> File [] (fs_now (sfs (wsrv st))))"
    using r by simp_all
  show ?thesis
  proof (rule race_inv_step[OF inv sep job o(2)])
    show "is_dir s q = is_dir (sfs (wsrv st)) q" for q
      using cache_of_no_dir[OF inv] by (auto simp: is_dir_view o(3))
    show "progress dg base (Some (msgs, c)) s (Copying i msgs msgs c)"
      using o(1,3) by simp
    show "view s q = view (sfs (wsrv st)) q \<and> node s q = node (sfs (wsrv st)) q" if "q \<noteq> cache_of dg base msgs" for q
      using that node_ofstream_open[OF op r that] by (simp add: o(3))
    show "view s q = view (sfs (wsrv st)) q \<or> \<not> c \<and> goes_to base s0 msgs q \<and> (\<exists>t. view s q = Some (File (bytes_of msgs) t))"
      if "q \<in> tree_of base" for q
      using that cache_not_in_tree[of dg base msgs] by (auto simp: o(3))
  qed simp_all
qed

lemma race_store:
  assumes inv: "race_inv dg base jobs s0 st" and sep: "separate dg jobs"
    and h: "hs st h = Copying i msgs (m # rest) c"
  shows "race_inv dg base jobs s0 (st\<lparr>wsrv := (wsrv st)\<lparr>sfs := store_more (sfs (wsrv st)) i (fc_b m)\<rparr>,
      hs := (hs st)(h := Copying i msgs rest c)\<rparr>)"
proof -
  let ?s = "sfs (wsrv st)" and ?cc = "cache_of dg base msgs"
  let ?s' = "store_more ?s i (fc_b m)"
  have wf: "wf_fs ?s"
    using inv by (simp_all add: race_inv_def server_ok_def)
  have pr: "progress dg base (jobs h) ?s (Copying i msgs (m # rest) c)"
    using inv h unfolding race_inv_def by metis
  then obtain sent t where p: "jobs h = Some (msgs, c)" "node ?s ?cc = Some i" "msgs = sent @ m # rest"
    "view ?s ?cc = Some (File (bytes_of sent) t)" by auto
  have nd: "\<not> i_isdir (fs_inodes ?s i)" "i_data (fs_inodes ?s i) = bytes_of sent"
    using p(2,4) by (auto simp: view_def entry_of_def split: if_splits)
  have v: "\<exists>t'. view ?s' = (view ?s)(?cc \<mapsto> File (bytes_of (sent @ [m])) t')"
  proof (cases "fc_b m = []")
    case True
    then show ?thesis
      using p(4) by (intro exI[of _ t]) (simp add: store_more_def fun_upd_idem)
  next
    case False
    then show ?thesis
      using view_set_data[OF wf p(2) nd(1)] nd(2) by (auto simp: store_more_def)
  qed
  then obtain t' where v: "view ?s' = (view ?s)(?cc \<mapsto> File (bytes_of (sent @ [m])) t')" ..
  have n: "node ?s' q = node ?s q" for q
    by (simp add: store_more_def)
  show ?thesis
  proof (rule race_inv_step[OF inv sep p(1)])
    show "wf_fs ?s'" using wf by (simp add: store_more_def)
    show "is_dir ?s' q = is_dir ?s q" for q
      by (simp add: store_more_def)
    show "progress dg base (Some (msgs, c)) ?s' (Copying i msgs rest c)"
      using n p(2,3) v by (auto intro: exI[of _ "sent @ [m]"])
    show "view ?s' q = view ?s q \<and> node ?s' q = node ?s q" if "q \<noteq> ?cc" for q
      using that n by (simp add: v)
    show "view ?s' q = view ?s q \<or> \<not> c \<and> goes_to base s0 msgs q \<and> (\<exists>t. view ?s' q = Some (File (bytes_of msgs) t))"
      if "q \<in> tree_of base" for q
      using that cache_not_in_tree[of dg base msgs] by (auto simp: v)
  qed simp_all
qed

lemma race_renames:
  assumes inv: "race_inv dg base jobs s0 st" and sep: "separate dg jobs" and h: "hs st h = Stamped msgs ts"
  shows "race_inv dg base jobs s0 (st\<lparr>wsrv := (wsrv st)\<lparr>sfs := fst (sys_rename (sfs (wsrv st))
        (getServerFilepath dg (wsrv st) (last_path msgs) True)
        (getServerFilepath dg (wsrv st) (last_path msgs) False))\<rparr>,
      hs := (hs st)(h := Returned OK meta)\<rparr>)"
proof -
  let ?s = "sfs (wsrv st)" and ?cc = "cache_of dg base msgs"
  let ?old = "getServerFilepath dg (wsrv st) (first_path msgs) True"
  let ?new = "getServerFilepath dg (wsrv st) (first_path msgs) False"
  let ?s' = "fst (sys_rename ?s ?old ?new)"
  have ok: "server_ok (wsrv st) base" and wf: "wf_fs ?s"
    using inv by (simp_all add: race_inv_def server_ok_def)
  have pr: "progress dg base (jobs h) ?s (Stamped msgs ts)"
    using inv h unfolding race_inv_def by metis
  then obtain t where p: "jobs h = Some (msgs, False)" "view ?s ?cc = Some (File (bytes_of msgs) t)" by auto
  have path: "last_path msgs = first_path msgs" "no_dotdot (first_path msgs)"
    using sep p(1) unfolding separate_def by blast+
  note old = resolve_cache_of[OF ok, of dg msgs]
  have new: "q \<in> tree_of base" if "resolve ?s ?new = Inr q" for q
    using walk_below[of "path_comps (first_path msgs)" ?s "base @ [FS_ROOT]" q] that path(2)
      resolve_shared[OF ok, of dg "first_path msgs"]
    by (auto simp: no_dotdot_def tree_of_def)
  have step: "race_inv dg base jobs s0 (st\<lparr>wsrv := (wsrv st)\<lparr>sfs := ?s'\<rparr>, hs := (hs st)(h := Returned OK meta)\<rparr>)"
  proof (rule race_inv_step[OF inv sep p(1)])
    show "wf_fs ?s'" using wf_rename[OF wf] .
    show "progress dg base (Some (msgs, False)) ?s' (Returned OK meta)" by simp
    show "is_dir ?s' q = is_dir ?s q" for q by (rule is_dir_rename[OF wf])
    show "view ?s' q = view ?s q \<and> node ?s' q = node ?s q" if "q \<noteq> ?cc" "q \<notin> tree_of base" for q
      using that old new[of q] view_rename[OF wf, of ?old q ?new] node_rename[of ?s ?old q ?new] by auto
    show "view ?s' q = view ?s q \<or> \<not> False \<and> goes_to base s0 msgs q \<and> (\<exists>t. view ?s' q = Some (File (bytes_of msgs) t))"
      if q: "q \<in> tree_of base" for q
    proof (cases "sys_rename ?s ?old ?new")
      case (Pair s1 r)
      show ?thesis
      proof (cases r)
        case (Inl e)
        then show ?thesis using Pair by (auto dest!: sys_rename_error)
      next
        case (Inr u)
        with Pair have "sys_rename ?s ?old ?new = (s1, Inr ())" by simp
        from sys_rename_ok[OF wf this] obtain co cn d t' where r: "resolve ?s ?new = Inr cn"
          "resolve ?s ?old = Inr co" "view ?s co = Some (File d t')" "view s1 = (view ?s)(co := None, cn \<mapsto> File d t')"
          by metis
        have "is_dir ?s q = is_dir s0 q" for q
          using inv by (simp add: race_inv_def same_dirs_def)
        then have "goes_to base s0 msgs cn"
          using r(1) resolve_shared[OF ok, of dg "first_path msgs"] walk_dirs[of ?s s0] by (simp add: goes_to_def)
        then show ?thesis using r(2-4) Pair old p(2) q cache_not_in_tree[of dg base msgs] by auto
      qed
    qed
  qed simp_all
  then show ?thesis using path(1) by simp
qed

lemma race_step:
  assumes "wstep dg junk st st'" "race_inv dg base jobs s0 st" "separate dg jobs"
  shows "race_inv dg base jobs s0 st'"
  using assms(1)
proof cases
  case (take_lock h msgs c)
  moreover have "progress dg base (jobs h) (sfs (wsrv st)) (hs st h)"
    using assms(2) by (simp add: race_inv_def)
  ultimately show ?thesis
    by (intro race_inv_simple[OF assms(2), of _ h "Locked msgs c"]) simp_all
next
  case (open_fails h msgs c s e)
  then show ?thesis
    using ofstream_open_error[OF open_fails(3)] by (intro race_inv_simple[OF assms(2), of _ h Leaked]) simp_all
next
  case (opens h msgs c s i)
  then show ?thesis using race_opens[OF assms(2,3)] by simp
next
  case (store h i msgs m rest c)
  then show ?thesis using race_store[OF assms(2,3)] by simp
next
  case (unlock h i msgs c)
  moreover have "progress dg base (jobs h) (sfs (wsrv st)) (hs st h)"
    using assms(2) by (simp add: race_inv_def)
  ultimately show ?thesis
    by (intro race_inv_simple[OF assms(2), of _ h "Closed msgs c"]) auto
next
  case (cancels h msgs)
  then show ?thesis
    by (intro race_inv_simple[OF assms(2), of _ h "Returned CANCELLED default_Meta"]) simp_all
next
  case (stats h msgs t)
  moreover have "progress dg base (jobs h) (sfs (wsrv st)) (hs st h)"
    using assms(2) by (simp add: race_inv_def)
  ultimately show ?thesis
    by (intro race_inv_simple[OF assms(2), of _ h "Stamped msgs t"]) auto
next
  case (renames h msgs t)
  then show ?thesis using race_renames[OF assms(2,3)] by simp
next
  case (clock t)
  have wf: "wf_fs (sfs (wsrv st))"
    using assms(2) by (simp add: race_inv_def server_ok_def)
  have "progress dg base (jobs h) ((sfs (wsrv st))\<lparr>fs_now := t\<rparr>) (hs st h)" for h
    by (rule progress_frame[of dg base "jobs h" "sfs (wsrv st)"]) (use assms(2) in \<open>simp_all add: race_inv_def\<close>)
  then show ?thesis
    using assms(2) server_ok_same_dirs[of "wsrv st" base "(sfs (wsrv st))\<lparr>fs_now := t\<rparr>"] wf clock by (simp add: race_inv_def)
qed

lemma race_start:
  assumes "server_ok srv base" "\<forall>w. length w = 64 \<longrightarrow> \<not> is_dir (sfs srv) (base @ [CACHE, w])"
  shows "race_inv dg base jobs (sfs srv) (launch srv jobs)"
  using assms by (auto simp: race_inv_def launch_def split: option.splits)

lemma race_reach:
  "wreach dg junk st0 st \<Longrightarrow> race_inv dg base jobs s0 st0 \<Longrightarrow> separate dg jobs \<Longrightarrow> race_inv dg base jobs s0 st"
  by (induction rule: wreach.induct) (auto intro: race_step)

text \<open>
  C8: uploads to different files do not disturb each other.  At every moment of every interleaving a
  file of the shared tree is what it was at the start or the bytes of one of the uploads to this
  name, whole.
\<close>

theorem separate_uploads_whole:
  assumes "server_ok srv base" "\<forall>w. length w = 64 \<longrightarrow> \<not> is_dir (sfs srv) (base @ [CACHE, w])"
    and "separate dg jobs" "wreach dg junk (launch srv jobs) st"
  shows "view (sfs (wsrv st)) (base @ FS_ROOT # zs) = view (sfs srv) (base @ FS_ROOT # zs)
    \<or> (\<exists>h msgs t. jobs h = Some (msgs, False)
        \<and> resolve (sfs srv) (getServerFilepath dg srv (first_path msgs) False) = Inr (base @ FS_ROOT # zs)
        \<and> view (sfs (wsrv st)) (base @ FS_ROOT # zs) = Some (File (concat (map fc_b msgs)) t))"
  using race_reach[OF assms(4) race_start[OF assms(1,2)] assms(3)] resolve_shared[OF assms(1), of dg]
  unfolding race_inv_def tree_of_def bytes_of_def goes_to_def by auto

subsection \<open>A handler on its own is the whole operation\<close>

lemma first_path_eq: "first_path msgs = fc_filepath (case msgs of [] \<Rightarrow> default_FilepathContent | m # _ \<Rightarrow> m)"
  by (cases msgs) simp_all

lemma last_path_eq: "last_path msgs = fc_filepath (if msgs = [] then default_FilepathContent else last msgs)"
  by (cases msgs) simp_all

lemma lock_then_sfs [simp]: "(srv :: server)\<lparr>lock_held := b, sfs := s\<rparr> = srv\<lparr>sfs := s, lock_held := b\<rparr>"
  by (cases srv) simp

text \<open>The reading loop, as steps.\<close>

lemma store_all:
  assumes "wreach dg junk st0 st" "hs st h = Copying i msgs rest c"
  shows "wreach dg junk st0 (st\<lparr>wsrv := (wsrv st)\<lparr>sfs := store_more (sfs (wsrv st)) i (bytes_of rest)\<rparr>,
    hs := (hs st)(h := Copying i msgs [] c)\<rparr>)"
  using assms
proof (induction rest arbitrary: st)
  case Nil
  then have "(hs st)(h := Copying i msgs [] c) = hs st" by auto
  with Nil show ?case by simp
next
  case (Cons m rest)
  let ?st = "st\<lparr>wsrv := (wsrv st)\<lparr>sfs := store_more (sfs (wsrv st)) i (fc_b m)\<rparr>,
      hs := (hs st)(h := Copying i msgs rest c)\<rparr>"
  have "wreach dg junk st0 ?st"
    by (rule wreach.step[OF Cons.prems(1) wstep.store[OF Cons.prems(2)]])
  from Cons.IH[OF this] show ?case
    by (simp add: store_more_twice cong: if_cong)
qed

text \<open>From the call to the first message stored, and to the unlocking.\<close>

lemma run_to_copying:
  assumes "hs st h = Ready msgs c" "\<not> lock_held (wsrv st)"
    and "ofstream_open (sfs (wsrv st)) (getServerFilepath dg (wsrv st) (first_path msgs) True) = (s, Inr i)"
  shows "wreach dg junk st
      (st\<lparr>wsrv := (wsrv st)\<lparr>sfs := s, lock_held := True\<rparr>, hs := (hs st)(h := Copying i msgs msgs c)\<rparr>)"
proof -
  let ?st1 = "st\<lparr>wsrv := (wsrv st)\<lparr>lock_held := True\<rparr>, hs := (hs st)(h := Locked msgs c)\<rparr>"
  have r1: "wreach dg junk st ?st1"
    by (rule wreach.step[OF wreach.start wstep.take_lock[OF assms(1,2)]])
  show ?thesis
    using wreach.step[OF r1 wstep.opens[of ?st1 h msgs c dg s i]] assms(3) by (simp add: getServerFilepath_def)
qed

lemma run_to_closed:
  assumes "hs st h = Ready msgs c" "\<not> lock_held (wsrv st)"
    and "ofstream_open (sfs (wsrv st)) (getServerFilepath dg (wsrv st) (first_path msgs) True) = (s, Inr i)"
  shows "wreach dg junk st
      (st\<lparr>wsrv := (wsrv st)\<lparr>sfs := stream_write s i (bytes_of msgs)\<rparr>, hs := (hs st)(h := Closed msgs c)\<rparr>)"
proof -
  let ?s2 = "stream_write s i (bytes_of msgs)"
  let ?st3 = "st\<lparr>wsrv := (wsrv st)\<lparr>sfs := ?s2, lock_held := True\<rparr>, hs := (hs st)(h := Copying i msgs [] c)\<rparr>"
  have r3: "wreach dg junk st ?st3"
    using store_all[OF run_to_copying[OF assms], of h i msgs msgs c] store_more_first[OF opened_empty[OF assms(3)]]
    by simp
  have "(wsrv st)\<lparr>sfs := ?s2, lock_held := False\<rparr> = (wsrv st)\<lparr>sfs := ?s2\<rparr>"
    using assms(2) by (cases "wsrv st") simp
  then show ?thesis
    using wreach.step[OF r3 wstep.unlock[of ?st3 h i msgs c]] by simp
qed

lemma run_to_return:
  assumes "hs st h = Ready msgs c" "srv_Write dg junk (wsrv st) msgs c = Done (reply, meta, srv')"
  shows "\<exists>st'. wreach dg junk st st' \<and> wsrv st' = srv'
    \<and> hs st' = (hs st)(h := (if reply = NOT_FOUND then Leaked else Returned reply meta))"
proof -
  let ?p = "getServerFilepath dg (wsrv st) (first_path msgs) True"
  have free: "\<not> lock_held (wsrv st)"
    using assms(2) by (auto simp: srv_Write_def Let_def split: if_splits)
  let ?st1 = "st\<lparr>wsrv := (wsrv st)\<lparr>lock_held := True\<rparr>, hs := (hs st)(h := Locked msgs c)\<rparr>"
  have r1: "wreach dg junk st ?st1"
    by (rule wreach.step[OF wreach.start wstep.take_lock[where msgs = msgs and c = c, OF assms(1) free]])
  have p1: "getServerFilepath dg (wsrv ?st1) q b = getServerFilepath dg (wsrv st) q b" for q b
    by (simp add: getServerFilepath_def)
  obtain s r where op: "ofstream_open (sfs (wsrv st)) ?p = (s, r)"
    by (cases "ofstream_open (sfs (wsrv st)) ?p")
  show ?thesis
  proof (cases r)
    case (Inl e)
    let ?st2 = "st\<lparr>wsrv := (wsrv st)\<lparr>sfs := s, lock_held := True\<rparr>, hs := (hs st)(h := Leaked)\<rparr>"
    have "wreach dg junk st ?st2"
      using wreach.step[OF r1 wstep.open_fails[of ?st1 h msgs c dg s e]] op Inl p1 by simp
    moreover have "reply = NOT_FOUND" "srv' = (wsrv st)\<lparr>sfs := s, lock_held := True\<rparr>"
      using assms(2) op Inl free by (auto simp: srv_Write_def Let_def first_path_eq)
    ultimately show ?thesis by (intro exI[of _ ?st2]) simp
  next
    case (Inr i)
    let ?d = "bytes_of msgs"
    let ?s2 = "stream_write s i ?d"
    have d: "fc_b (case msgs of [] \<Rightarrow> default_FilepathContent | m # _ \<Rightarrow> m) @ concat (map fc_b (tl msgs)) = ?d"
      by (cases msgs) (simp_all add: bytes_of_def default_FilepathContent_def)
    let ?st4 = "st\<lparr>wsrv := (wsrv st)\<lparr>sfs := ?s2\<rparr>, hs := (hs st)(h := Closed msgs c)\<rparr>"
    have "ofstream_open (sfs (wsrv st)) ?p = (s, Inr i)"
      using op Inr by simp
    note r4 = run_to_closed[OF assms(1) free this, of junk]
    show ?thesis
    proof (cases c)
      case True
      let ?st5 = "st\<lparr>wsrv := (wsrv st)\<lparr>sfs := ?s2\<rparr>, hs := (hs st)(h := Returned CANCELLED default_Meta)\<rparr>"
      have "wreach dg junk st ?st5"
        using wreach.step[OF r4 wstep.cancels[of ?st4 h msgs]] True by simp
      moreover have "reply = CANCELLED" "meta = default_Meta" "srv' = (wsrv st)\<lparr>sfs := ?s2\<rparr>"
        using assms(2) op Inr free True d by (auto simp: srv_Write_def Let_def first_path_eq)
      ultimately show ?thesis by (intro exI[of _ ?st5]) simp
    next
      case False
      let ?t = "case sys_stat ?s2 ?p of Inl e \<Rightarrow> junk | Inr sb \<Rightarrow> st_mtim sb"
      let ?s3 = "fst (sys_rename ?s2 (getServerFilepath dg (wsrv st) (last_path msgs) True)
          (getServerFilepath dg (wsrv st) (last_path msgs) False))"
      let ?st5 = "st\<lparr>wsrv := (wsrv st)\<lparr>sfs := ?s2\<rparr>, hs := (hs st)(h := Stamped msgs ?t)\<rparr>"
      have r5: "wreach dg junk st ?st5"
        using wreach.step[OF r4 wstep.stats[of ?st4 h msgs ?t junk dg]] False by simp
      let ?st6 = "st\<lparr>wsrv := (wsrv st)\<lparr>sfs := ?s3\<rparr>,
        hs := (hs st)(h := Returned OK (default_Meta\<lparr>meta_timestamp := timespec_bytes ?t\<rparr>))\<rparr>"
      have "wreach dg junk st ?st6"
        using wreach.step[OF r5 wstep.renames[of ?st5 h msgs ?t dg junk]] by simp
      moreover have "reply = OK" "meta = default_Meta\<lparr>meta_timestamp := timespec_bytes ?t\<rparr>"
        "srv' = (wsrv st)\<lparr>sfs := ?s3\<rparr>"
      proof -
        have m1: "(if msgs = [] then case msgs of [] \<Rightarrow> default_FilepathContent | m # _ \<Rightarrow> m else last msgs)
            = (if msgs = [] then default_FilepathContent else last msgs)"
          by simp
        show "reply = OK" "meta = default_Meta\<lparr>meta_timestamp := timespec_bytes ?t\<rparr>" "srv' = (wsrv st)\<lparr>sfs := ?s3\<rparr>"
          using assms(2) op Inr free False d m1
          by (simp_all add: srv_Write_def Let_def first_path_eq last_path_eq)
      qed
      ultimately show ?thesis by (intro exI[of _ ?st6]) simp
    qed
  qed
qed


end
