(* ===== verification/Write_Torn.thy ===== *)
theory Write_Torn
  imports Write_Race
begin

section \<open>Two uploads of one file\<close>

text \<open>
  Uploads of the same path use the same cache file, and the mutex is released before \<^verbatim>\<open>stat\<close> and
  \<^verbatim>\<open>rename\<close>.  A second upload that starts in between empties the cache file the first is about to
  rename: what becomes visible is the beginning of the second upload, and its writer goes on writing
  into the visible file.
\<close>

lemma run_from_closed:
  assumes "hs st h = Closed msgs False"
  shows "\<exists>meta. wreach dg junk st (st\<lparr>wsrv := (wsrv st)\<lparr>sfs := fst (sys_rename (sfs (wsrv st))
      (getServerFilepath dg (wsrv st) (last_path msgs) True) (getServerFilepath dg (wsrv st) (last_path msgs) False))\<rparr>,
    hs := (hs st)(h := Returned OK meta)\<rparr>)"
proof -
  obtain t where "wstep dg junk st (st\<lparr>hs := (hs st)(h := Stamped msgs t)\<rparr>)"
    using wstep.stats[OF assms refl] by blast
  note one = wreach.step[OF wreach.start this]
  let ?st = "st\<lparr>hs := (hs st)(h := Stamped msgs t)\<rparr>"
  from wreach.step[OF one wstep.renames[of ?st h msgs t]] show ?thesis
    by (intro exI[of _ "default_Meta\<lparr>meta_timestamp := timespec_bytes t\<rparr>"]) simp
qed

lemma renamed_shows:
  assumes "wf_fs s" "resolve s old = Inr co" "view s co = Some (File d t)" "resolve s new = Inr cn" "\<not> is_dir s cn"
  shows "\<exists>t'. view (fst (sys_rename s old new)) cn = Some (File d t')"
proof -
  obtain s' where ren: "sys_rename s old new = (s', Inr ())"
    using sys_rename_succeeds[OF assms(2,3,4,5)] by fastforce
  obtain co' cn' d' t' where "resolve s old = Inr co'" "resolve s new = Inr cn'" "view s co' = Some (File d' t')"
    "view s' = (view s)(co' := None, cn' \<mapsto> File d' t')"
    using sys_rename_ok[OF assms(1) ren] by metis
  then show ?thesis
    using assms ren by auto
qed

text \<open>
  C14: two clients upload the same file.  There is an interleaving in which the first gets its reply OK
  and the shared file then holds the first message of the second upload only: neither the old bytes
  nor either upload, while the second handler still has messages to store.
\<close>

theorem same_file_upload_torn:
  assumes ok: "server_ok srv base" "\<not> lock_held srv"
    and nc: "\<not> is_dir (sfs srv) (base @ [CACHE, hashFilepath dg p])"
    and dst: "resolve (sfs srv) (getServerFilepath dg srv p False) = Inr cp" "\<not> is_dir (sfs srv) cp"
    and jobs: "jobs 1 = Some ([\<lparr>fc_filepath = p, fc_b = a\<rparr>], False)"
      "jobs 2 = Some ([\<lparr>fc_filepath = p, fc_b = b\<rparr>, m], False)"
  shows "\<exists>st i t meta. wreach dg junk (launch srv jobs) st
    \<and> view (sfs (wsrv st)) cp = Some (File b t) \<and> hs st 1 = Returned OK meta
    \<and> hs st 2 = Copying i [\<lparr>fc_filepath = p, fc_b = b\<rparr>, m] [m] False"
proof -
  let ?P = "getServerFilepath dg srv p True" and ?N = "getServerFilepath dg srv p False"
  let ?cc = "base @ [CACHE, hashFilepath dg p]"
  let ?A = "[\<lparr>fc_filepath = p, fc_b = a\<rparr>]" and ?B = "[\<lparr>fc_filepath = p, fc_b = b\<rparr>, m]"
  let ?st0 = "launch srv jobs"
  have st0: "wsrv ?st0 = srv" "hs ?st0 1 = Ready ?A False" "hs ?st0 2 = Ready ?B False"
    using jobs by (simp_all add: launch_def)
  have wf: "wf_fs (sfs srv)" using ok by (simp add: server_ok_def)
  note r0 = resolve_cached[OF ok(1), of dg p]
  obtain s1 i where o1: "ofstream_open (sfs srv) ?P = (s1, Inr i)"
    using ofstream_open_succeeds[OF r0 nc] by blast
  let ?s2 = "stream_write s1 i a"
  note w1 = ofstream_write[OF wf r0 nc o1, of a]
  let ?st4 = "?st0\<lparr>wsrv := srv\<lparr>sfs := ?s2\<rparr>, hs := (hs ?st0)(1 := Closed ?A False)\<rparr>"
  have c4: "wreach dg junk ?st0 ?st4"
    using run_to_closed[of ?st0 1 ?A False dg s1 i junk] st0 ok(2) o1 by simp
  have r2: "resolve ?s2 ?P = Inr ?cc" and nd2: "\<not> is_dir ?s2 ?cc"
    using resolve_dirs[OF w1(3)] r0 nc w1(3) by simp_all
  obtain s3 j where o2: "ofstream_open ?s2 ?P = (s3, Inr j)"
    using ofstream_open_succeeds[OF r2 nd2] by blast
  let ?s4 = "stream_write s3 j b"
  note w2 = ofstream_write[OF w1(1) r2 nd2 o2, of b]
  let ?st5 = "?st4\<lparr>wsrv := srv\<lparr>sfs := s3, lock_held := True\<rparr>, hs := (hs ?st4)(2 := Copying j ?B ?B False)\<rparr>"
  have c5: "wreach dg junk ?st4 ?st5"
    using run_to_copying[of ?st4 2 ?B False dg s3 j junk] st0 ok(2) o2 by (simp add: getServerFilepath_def)
  let ?st6 = "?st5\<lparr>wsrv := srv\<lparr>sfs := ?s4, lock_held := True\<rparr>, hs := (hs ?st5)(2 := Copying j ?B [m] False)\<rparr>"
  have c6: "wstep dg junk ?st5 ?st6"
    using wstep.store[of ?st5 2 j ?B "\<lparr>fc_filepath = p, fc_b = b\<rparr>" "[m]" False dg junk]
      store_more_first[OF opened_empty[OF o2], of b] by simp
  let ?s8 = "fst (sys_rename ?s4 ?P ?N)"
  obtain meta where c8: "wreach dg junk ?st6
      (?st6\<lparr>wsrv := srv\<lparr>sfs := ?s8, lock_held := True\<rparr>, hs := (hs ?st6)(1 := Returned OK meta)\<rparr>)"
    using run_from_closed[of ?st6 1 ?A dg junk] by (auto simp: getServerFilepath_def)
  let ?st8 = "?st6\<lparr>wsrv := srv\<lparr>sfs := ?s8, lock_held := True\<rparr>, hs := (hs ?st6)(1 := Returned OK meta)\<rparr>"
  have reach: "wreach dg junk ?st0 ?st8"
    by (rule wreach_trans[OF c8 wreach.step[OF wreach_trans[OF c5 c4] c6]])
  have dirs: "is_dir ?s4 q = is_dir (sfs srv) q" for q
    using w1(3) w2(3) by simp
  have r4: "resolve ?s4 ?P = Inr ?cc" "resolve ?s4 ?N = Inr cp" "\<not> is_dir ?s4 cp"
    using resolve_dirs[OF dirs] r0 dst dirs by simp_all
  obtain t where "view ?s8 cp = Some (File b t)"
    using renamed_shows[OF w2(1) r4(1) _ r4(2,3)] w2(2) by fastforce
  then show ?thesis
    using reach by (intro exI[of _ ?st8] exI[of _ j] exI[of _ t] exI[of _ meta]) simp
qed

subsection \<open>Witnesses\<close>

definition sample_jobs :: jobs where
  "sample_jobs = [1 \<mapsto> ([\<lparr>fc_filepath = ''/f'', fc_b = ''aa''\<rparr>], False),
     2 \<mapsto> ([\<lparr>fc_filepath = ''/f'', fc_b = ''b''\<rparr>, \<lparr>fc_filepath = ''/f'', fc_b = ''bb''\<rparr>], False)]"

theorem same_file_torn_witness:
  "\<exists>st t. wreach sample_sha sample_clock (launch sample_server sample_jobs) st
    \<and> view (sfs (wsrv st)) [FS_ROOT, ''f''] = Some (File ''b'' t)"
  using same_file_upload_torn[OF server_ok_sample lock_sample _ sample_dst sample_cache_free(2),
      of sample_sha sample_jobs "''aa''" "''b''" "\<lparr>fc_filepath = ''/f'', fc_b = ''bb''\<rparr>" sample_clock]
  by (auto simp: sample_cache_free sample_jobs_def)

text \<open>A digest that tells short paths apart.\<close>

definition sample_sha2 :: "byte_string \<Rightarrow> byte_string" where
  "sample_sha2 s = take 32 (s @ replicate 32 (CHR 0x00))"

definition two_jobs :: jobs where
  "two_jobs = [1 \<mapsto> ([\<lparr>fc_filepath = ''/f'', fc_b = ''aa''\<rparr>], False),
     2 \<mapsto> ([\<lparr>fc_filepath = ''/g'', fc_b = ''b''\<rparr>, \<lparr>fc_filepath = ''/g'', fc_b = ''bb''\<rparr>], False)]"

lemma two_jobs_separate: "separate sample_sha2 two_jobs"
proof -
  have "hashFilepath sample_sha2 ''/f'' \<noteq> hashFilepath sample_sha2 ''/g''"
    by (simp add: hashFilepath_def digest_hex_inject sample_sha2_def)
  then show ?thesis
    by (auto simp: separate_def two_jobs_def no_dotdot_def path_comps_def split: if_splits)
qed

definition locked_state :: wstate where
  "locked_state = (launch sample_server two_jobs)\<lparr>wsrv := (wsrv (launch sample_server two_jobs))\<lparr>lock_held := True\<rparr>,
     hs := (hs (launch sample_server two_jobs))(1 := Locked [\<lparr>fc_filepath = ''/f'', fc_b = ''aa''\<rparr>] False)\<rparr>"

lemma locked_state_reach: "wreach sample_sha2 sample_clock (launch sample_server two_jobs) locked_state"
  unfolding locked_state_def
  by (rule wreach.step[OF wreach.start wstep.take_lock]) (simp_all add: launch_def two_jobs_def lock_sample)

theorem mutual_exclusion_witness:
  "lock_held (wsrv locked_state) \<and> in_mutex (hs locked_state 1) \<and> \<not> in_mutex (hs locked_state 2)"
  using write_mutual_exclusion[OF locked_state_reach lock_sample, of 1 2] by (auto simp: locked_state_def)

theorem separate_uploads_witness:
  "view (sfs (wsrv locked_state)) [FS_ROOT, ''f''] = view (sfs sample_server) [FS_ROOT, ''f'']
   \<or> (\<exists>h msgs t. two_jobs h = Some (msgs, False)
        \<and> view (sfs (wsrv locked_state)) [FS_ROOT, ''f''] = Some (File (concat (map fc_b msgs)) t))"
proof -
  have cache: "\<forall>w. length w = 64 \<longrightarrow> \<not> is_dir (sfs sample_server) ([] @ [CACHE, w])"
    by (simp add: is_dir_sample)
  show ?thesis
    using separate_uploads_whole[OF server_ok_sample cache two_jobs_separate locked_state_reach, of "[''f'']"]
    unfolding append_Nil by blast
qed

definition one_job :: jobs where
  "one_job = [1 \<mapsto> ([\<lparr>fc_filepath = ''/f'', fc_b = ''aa''\<rparr>], False)]"


end
