(* ===== verification/Write_Live.thy ===== *)
theory Write_Live
  imports Write_Torn
begin

section \<open>Concurrent uploads finish\<close>

text \<open>
  The steps of \<open>Write_Race\<close> as infinite schedules.  Whatever the schedule, the handlers take
  boundedly many steps; as long as no directory stands where a cache file goes, a handler that
  has not returned is never stuck for good, and under a schedule that does not let the clock run
  forever while a handler can move, every upload returns the status it should.
\<close>

subsection \<open>Schedules\<close>

definition schedule :: "(byte_string \<Rightarrow> byte_string) \<Rightarrow> timespec \<Rightarrow> (nat \<Rightarrow> wstate) \<Rightarrow> bool" where
  "schedule dg junk f \<longleftrightarrow> (\<forall>k. wstep dg junk (f k) (f (Suc k)))"

text \<open>A step of a handler, as against one of the clock.\<close>

definition moves :: "wstate \<Rightarrow> wstate \<Rightarrow> bool" where
  "moves st st' \<longleftrightarrow> hs st' \<noteq> hs st"

definition fair :: "(byte_string \<Rightarrow> byte_string) \<Rightarrow> timespec \<Rightarrow> (nat \<Rightarrow> wstate) \<Rightarrow> bool" where
  "fair dg junk f \<longleftrightarrow>
     (\<forall>k. (\<exists>st. wstep dg junk (f k) st \<and> moves (f k) st) \<longrightarrow> (\<exists>j \<ge> k. moves (f j) (f (Suc j))))"

text \<open>The steps a handler has left at most.\<close>

fun steps_left :: "handler \<Rightarrow> nat" where
  "steps_left (Ready msgs c) = length msgs + 5"
| "steps_left (Locked msgs c) = length msgs + 4"
| "steps_left (Copying i msgs rest c) = length rest + 3"
| "steps_left (Closed msgs c) = 2"
| "steps_left (Stamped msgs t) = 1"
| "steps_left _ = 0"

text \<open>What one step does: it changes one handler, which then has less to do, or none.\<close>

lemma wstep_handler:
  assumes "wstep dg junk st st'"
  obtains "hs st' = hs st" | h x where "hs st' = (hs st)(h := x)" "steps_left x < steps_left (hs st h)"
  using assms by cases (auto intro: that)

lemma wstep_idle: "wstep dg junk st st' \<Longrightarrow> hs st h = Idle \<Longrightarrow> hs st' h = Idle"
  by (erule wstep_handler) auto

definition work :: "nat set \<Rightarrow> wstate \<Rightarrow> nat" where
  "work D st = (\<Sum>h \<in> D. steps_left (hs st h))"

lemma work_step:
  assumes "finite D" "\<And>h. h \<notin> D \<Longrightarrow> hs st h = Idle" "wstep dg junk st st'"
  shows "work D st' + (if moves st st' then 1 else 0) \<le> work D st"
  using assms(3)
proof (cases rule: wstep_handler)
  case 1
  then show ?thesis by (simp add: work_def moves_def)
next
  case (2 h x)
  then have "h \<in> D"
    using assms(2)[of h] by fastforce
  then have "work D st' < work D st"
    unfolding work_def using assms(1) 2 by (intro sum_strict_mono_ex1) auto
  then show ?thesis by simp
qed

lemma work_launch:
  assumes "finite (dom jobs)"
  shows "work (dom jobs) (launch srv jobs) = (\<Sum>h \<in> dom jobs. length (fst (the (jobs h))) + 5)"
  unfolding work_def by (rule sum.cong) (auto simp: launch_def)

lemma schedule_idle:
  assumes "schedule dg junk f" "hs (f 0) h = Idle"
  shows "hs (f k) h = Idle"
  using assms by (induction k) (auto simp: schedule_def intro: wstep_idle)

lemma count_moves:
  assumes "schedule dg junk f" "finite D" "\<And>h. h \<notin> D \<Longrightarrow> hs (f 0) h = Idle"
  shows "card {k. k < n \<and> moves (f k) (f (Suc k))} + work D (f n) \<le> work D (f 0)"
proof (induction n)
  case 0
  then show ?case by simp
next
  case (Suc n)
  let ?A = "\<lambda>n. {k. k < n \<and> moves (f k) (f (Suc k))}"
  have "?A (Suc n) = (if moves (f n) (f (Suc n)) then insert n (?A n) else ?A n)"
    by (auto simp: less_Suc_eq)
  then have "card (?A (Suc n)) \<le> card (?A n) + (if moves (f n) (f (Suc n)) then 1 else 0)"
    by (simp add: card_insert_if)
  moreover have "work D (f (Suc n)) + (if moves (f n) (f (Suc n)) then 1 else 0) \<le> work D (f n)"
    by (rule work_step[OF assms(2)])
      (use assms schedule_idle[OF assms(1)] in \<open>auto simp: schedule_def\<close>)
  ultimately show ?case
    using Suc.IH by linarith
qed

lemma card_from_beginnings:
  fixes A :: "nat set"
  assumes "\<And>n. card {k. k < n \<and> k \<in> A} \<le> b"
  shows "finite A \<and> card A \<le> b"
proof -
  have fin: "finite A"
  proof (rule ccontr)
    assume "infinite A"
    then obtain B where B: "finite B" "card B = Suc b" "B \<subseteq> A"
      by (meson infinite_arbitrarily_large)
    have "B \<subseteq> {k. k < Suc (Max B) \<and> k \<in> A}"
      using B by (auto simp: less_Suc_eq_le)
    then have "card B \<le> card {k. k < Suc (Max B) \<and> k \<in> A}"
      by (rule card_mono[rotated]) simp
    then show False
      using assms[of "Suc (Max B)"] B(2) by simp
  qed
  have "A = {k. k < Suc (Max A) \<and> k \<in> A}"
    using fin by (auto simp: less_Suc_eq_le)
  then show ?thesis
    using fin assms[of "Suc (Max A)"] by simp
qed


subsection \<open>No handler is stuck\<close>

text \<open>What a handler is doing is its own upload.\<close>

fun of_job :: "(FilepathContent list \<times> bool) option \<Rightarrow> handler \<Rightarrow> bool" where
  "of_job job Idle = (job = None)"
| "of_job job (Ready msgs c) = (job = Some (msgs, c))"
| "of_job job (Locked msgs c) = (job = Some (msgs, c))"
| "of_job job (Copying i msgs rest c) = (job = Some (msgs, c))"
| "of_job job (Closed msgs c) = (job = Some (msgs, c))"
| "of_job job (Stamped msgs t) = (job = Some (msgs, False))"
| "of_job job (Returned reply meta) = ((\<exists>msgs. job = Some (msgs, reply = CANCELLED)) \<and> reply \<in> {OK, CANCELLED})"
| "of_job job Leaked = False"

definition cache_free :: "server \<Rightarrow> string list \<Rightarrow> bool" where
  "cache_free srv base \<longleftrightarrow> server_ok srv base \<and> (\<forall>w. length w = 64 \<longrightarrow> \<not> is_dir (sfs srv) (base @ [CACHE, w]))"

definition live_inv :: "string list \<Rightarrow> jobs \<Rightarrow> wstate \<Rightarrow> bool" where
  "live_inv base jobs st \<longleftrightarrow> cache_free (wsrv st) base \<and> mutex_inv st \<and> (\<forall>h. of_job (jobs h) (hs st h))"

lemma cache_free_same_dirs:
  assumes "cache_free srv base" "wf_fs s" "\<And>q. is_dir s q = is_dir (sfs srv) q"
  shows "cache_free (srv\<lparr>sfs := s\<rparr>) base"
  using assms server_ok_same_dirs[OF _ assms(2,3)] by (simp add: cache_free_def)

lemma cache_free_mutex [simp]: "cache_free (srv\<lparr>lock_held := b\<rparr>) base = cache_free srv base"
  by (simp add: cache_free_def server_ok_def)

lemma cache_free_open:
  assumes "cache_free srv base"
  obtains s i where "ofstream_open (sfs srv) (getServerFilepath dg srv p True) = (s, Inr i)"
    "wf_fs s" "\<And>q. is_dir s q = is_dir (sfs srv) q"
proof -
  let ?cc = "base @ [CACHE, hashFilepath dg p]"
  have ok: "server_ok srv base" "wf_fs (sfs srv)" "\<not> is_dir (sfs srv) ?cc"
    using assms by (simp_all add: cache_free_def server_ok_def)
  note r = resolve_cached[OF ok(1), of dg p]
  obtain s i where op: "ofstream_open (sfs srv) (getServerFilepath dg srv p True) = (s, Inr i)"
    using ofstream_open_succeeds[OF r ok(3)] by blast
  from ofstream_open_ok[OF ok(2) op] r have "wf_fs s" "view s = (view (sfs srv))(?cc \<mapsto> File [] (fs_now (sfs srv)))"
    by auto
  then show thesis
    using that[OF op] ok(3) by (simp add: is_dir_view)
qed

lemma live_step:
  assumes "wstep dg junk st st'" "live_inv base jobs st"
  shows "live_inv base jobs st'"
proof -
  have mutex: "mutex_inv st'"
    by (rule mutex_step[OF assms(1)]) (use assms(2) in \<open>simp add: live_inv_def\<close>)
  have cf: "cache_free (wsrv st) base" and jb: "of_job (jobs h) (hs st h)" for h
    using assms(2) by (simp_all add: live_inv_def)
  have wf: "wf_fs (sfs (wsrv st))"
    using cf by (simp add: cache_free_def server_ok_def)
  have no_fail: "ofstream_open (sfs (wsrv st)) (getServerFilepath dg (wsrv st) p True) \<noteq> (s, Inl e)" for p s e
    using cache_free_open[OF cf, of dg p] by (metis Pair_inject sum.distinct(1))
  have "cache_free (wsrv st') base"
    using assms(1)
  proof cases
    case (opens h msgs c s i)
    then have "wf_fs s" "\<And>q. is_dir s q = is_dir (sfs (wsrv st)) q"
      using cache_free_open[OF cf, of dg "first_path msgs"] by (metis Pair_inject)+
    then show ?thesis using opens cache_free_same_dirs[OF cf] by simp
  next
    case (store h i msgs m rest c)
    then show ?thesis
      using cache_free_same_dirs[OF cf] wf by (simp add: store_more_def)
  next
    case (renames h msgs t)
    then show ?thesis
      using cache_free_same_dirs[OF cf wf_rename[OF wf]] is_dir_rename[OF wf] by simp
  next
    case (clock t)
    then show ?thesis
      using cache_free_same_dirs[OF cf] wf by simp
  qed (use cf no_fail in auto)
  moreover have "of_job (jobs h) (hs st' h)" for h
  proof -
    have jb': "of_job (jobs g) x" if "hs st g = x" for g x
      using jb that by blast
    show ?thesis
      using assms(1) by cases (use jb in \<open>auto dest!: jb' simp: no_fail\<close>)
  qed
  ultimately show ?thesis
    using mutex by (simp add: live_inv_def)
qed

lemma live_launch:
  assumes "cache_free srv base" "\<not> lock_held srv"
  shows "live_inv base jobs (launch srv jobs)"
  using assms mutex_launch[OF assms(2)] by (auto simp: live_inv_def launch_def split: option.split)

text \<open>A handler that has something left can move, or another that holds the mutex can.\<close>

lemma handler_can_move:
  assumes inv: "live_inv base jobs st" and left: "0 < steps_left (hs st h)"
  shows "\<exists>st'. wstep dg junk st st' \<and> moves st st'"
proof -
  have go: "\<exists>st'. wstep dg junk st st' \<and> moves st st'" if "wstep dg junk st st'" "hs st' g \<noteq> hs st g" for st' g
    using that by (auto simp: moves_def)
  have step: "\<exists>st'. wstep dg junk st st' \<and> moves st st'"
    if "in_mutex (hs st g) \<or> 0 < steps_left (hs st g) \<and> \<not> lock_held (wsrv st)" for g
  proof (cases "hs st g")
    case (Ready msgs c)
    with that have "\<not> lock_held (wsrv st)" by simp
    from wstep.take_lock[OF Ready this] show ?thesis by (rule go[where g = g]) (simp add: Ready)
  next
    case (Locked msgs c)
    have "cache_free (wsrv st) base" using inv by (simp add: live_inv_def)
    then obtain s i where "ofstream_open (sfs (wsrv st)) (getServerFilepath dg (wsrv st) (first_path msgs) True) = (s, Inr i)"
      by (rule cache_free_open)
    from wstep.opens[OF Locked this] show ?thesis by (rule go[where g = g]) (simp add: Locked)
  next
    case (Copying i msgs rest c)
    show ?thesis
    proof (cases rest)
      case Nil
      from wstep.unlock[OF Copying[unfolded Nil]] show ?thesis by (rule go[where g = g]) (simp add: Copying)
    next
      case (Cons m ms)
      from wstep.store[OF Copying[unfolded Cons]] show ?thesis by (rule go[where g = g]) (simp add: Copying Cons)
    qed
  next
    case (Closed msgs c)
    show ?thesis
    proof (cases c)
      case True
      from wstep.cancels[of st g msgs] show ?thesis by (rule go[where g = g]) (simp_all add: Closed True)
    next
      case False
      from wstep.stats[of st g msgs, OF _ refl] show ?thesis by (rule go[where g = g]) (simp_all add: Closed False)
    qed
  next
    case (Stamped msgs t)
    from wstep.renames[OF Stamped] show ?thesis by (rule go[where g = g]) (simp add: Stamped)
  next
    case Leaked
    then show ?thesis using inv unfolding live_inv_def by (metis of_job.simps(8))
  qed (use that in auto)
  show ?thesis
  proof (cases "lock_held (wsrv st)")
    case True
    then obtain g where "in_mutex (hs st g)"
      using inv by (auto simp: live_inv_def mutex_inv_def)
    then show ?thesis using step by blast
  next
    case False
    then show ?thesis using step left by blast
  qed
qed

lemma finite_moves_stop:
  assumes "finite {k. moves (f k) (f (Suc k))}"
  obtains k where "\<And>j. k \<le> j \<Longrightarrow> \<not> moves (f j) (f (Suc j))"
proof
  show "\<not> moves (f j) (f (Suc j))" if "Suc (Max {k. moves (f k) (f (Suc k))}) \<le> j" for j
    using that Max_ge[OF assms, of j] by fastforce
qed

lemma live_schedule:
  assumes "schedule dg junk f" "live_inv base jobs (f 0)"
  shows "live_inv base jobs (f k)"
  using assms by (induction k) (auto simp: schedule_def intro: live_step)


subsection \<open>Witnesses\<close>

text \<open>There are fair schedules: let a handler move whenever one can.\<close>

lemma fair_schedule_exists: "\<exists>f. schedule dg junk f \<and> fair dg junk f \<and> f 0 = st"
proof -
  let ?P = "\<lambda>n st' st''. wstep dg junk st' st'' \<and> ((\<exists>s. wstep dg junk st' s \<and> moves st' s) \<longrightarrow> moves st' st'')"
  have P: "\<exists>s. ?P n st' s" for n st'
    using wstep.clock[of dg junk st'] by blast
  have "\<exists>f. \<forall>n. (n = 0 \<longrightarrow> f n = st) \<and> ?P n (f n) (f (Suc n))"
    by (rule dependent_nat_choice) (use P in \<open>simp_all\<close>)
  then obtain f where "f 0 = st" "\<And>n. ?P n (f n) (f (Suc n))" by blast
  then show ?thesis
    unfolding schedule_def fair_def by (intro exI[of _ f]) blast
qed

lemma sample_no_cache_dirs: "\<forall>w. length w = 64 \<longrightarrow> \<not> is_dir (sfs sample_server) ([] @ [CACHE, w])"
  by (simp add: is_dir_sample)

lemma dom_sample_jobs: "dom sample_jobs = {1, 2}"
  by (auto simp: sample_jobs_def)



end
