(* ===== verification/Read_Race.thy ===== *)
theory Read_Race
  imports Write_Live Client_Samples
begin

section \<open>Downloads beside uploads\<close>

text \<open>
  \<^verbatim>\<open>GetContent\<close> split where other threads can come in: it opens the file, asks for its modification
  time by name, and then reads and sends one piece after the other.  It takes no mutex.  Proved: beside
  uploads of different files a download is always a snapshot, the bytes of one version from beginning
  to end; undisturbed, the steps compute what \<open>srv_GetContent\<close> does; but the time it carries is the
  one of the name at the second call, so that it can announce old bytes with the time of a version
  published in between.
\<close>

subsection \<open>Steps\<close>

datatype reader =
    Unasked
  | Asked string
  | Opened string nat
  | Sending string nat byte_string nat "MetaContent list"
  | Served string bool "MetaContent list"

text \<open>
  \<open>Sending p i ts pos sent\<close> has the stream open at inode \<open>i\<close> and has sent the bytes before \<open>pos\<close>;
  \<open>Served p whole sent\<close> has returned, \<open>whole\<close> when no piece was refused.
\<close>

record gstate =
  uploads :: wstate
  downloads :: "nat \<Rightarrow> reader"

abbreviation gfs :: "gstate \<Rightarrow> fs" where
  "gfs g \<equiv> sfs (wsrv (uploads g))"

abbreviation shared_name :: "(byte_string \<Rightarrow> byte_string) \<Rightarrow> gstate \<Rightarrow> string \<Rightarrow> string" where
  "shared_name dg g p \<equiv> getServerFilepath dg (wsrv (uploads g)) p False"

definition content_msg :: "byte_string \<Rightarrow> byte_string \<Rightarrow> MetaContent" where
  "content_msg ts b = default_MetaContent\<lparr>mc_file_exists := True, mc_timestamp := ts, mc_b := b\<rparr>"

definition set_download :: "gstate \<Rightarrow> nat \<Rightarrow> reader \<Rightarrow> gstate" where
  "set_download g r x = g\<lparr>downloads := (downloads g)(r := x)\<rparr>"

inductive gstep :: "(byte_string \<Rightarrow> byte_string) \<Rightarrow> timespec \<Rightarrow> gstate \<Rightarrow> gstate \<Rightarrow> bool"
  for dg junk where
  upload: "wstep dg junk (uploads g) st \<Longrightarrow> gstep dg junk g (g\<lparr>uploads := st\<rparr>)"
| no_file: "downloads g r = Asked p \<Longrightarrow> open_node (gfs g) (shared_name dg g p) O_RDONLY 0 = (s, Inl e) \<Longrightarrow>
    gstep dg junk g (set_download g r (Served p True [default_MetaContent\<lparr>mc_file_exists := False\<rparr>]))"
| open_file: "downloads g r = Asked p \<Longrightarrow> open_node (gfs g) (shared_name dg g p) O_RDONLY 0 = (s, Inr i) \<Longrightarrow>
    gstep dg junk g (set_download g r (Opened p i))"
| stat_file: "downloads g r = Opened p i \<Longrightarrow>
    t = (case sys_stat (gfs g) (shared_name dg g p) of Inl e \<Rightarrow> junk | Inr sb \<Rightarrow> st_mtim sb) \<Longrightarrow>
    gstep dg junk g (set_download g r (Sending p i (timespec_bytes t) 0 []))"
| no_data: "downloads g r = Sending p i ts pos sent \<Longrightarrow> i_isdir (fs_inodes (gfs g) i) \<Longrightarrow>
    gstep dg junk g (set_download g r (Served p True []))"
| piece: "downloads g r = Sending p i ts pos sent \<Longrightarrow> \<not> i_isdir (fs_inodes (gfs g) i) \<Longrightarrow>
    BUFSIZE \<le> length (drop pos (i_data (fs_inodes (gfs g) i))) \<Longrightarrow>
    gstep dg junk g (set_download g r (Sending p i ts (pos + BUFSIZE)
      (sent @ [content_msg ts (take BUFSIZE (drop pos (i_data (fs_inodes (gfs g) i))))])))"
| rest: "downloads g r = Sending p i ts pos sent \<Longrightarrow> \<not> i_isdir (fs_inodes (gfs g) i) \<Longrightarrow>
    length (drop pos (i_data (fs_inodes (gfs g) i))) < BUFSIZE \<Longrightarrow>
    gstep dg junk g (set_download g r (Served p True
      (sent @ [content_msg ts (drop pos (i_data (fs_inodes (gfs g) i)))])))"
| refused: "downloads g r = Sending p i ts pos sent \<Longrightarrow> \<not> i_isdir (fs_inodes (gfs g) i) \<Longrightarrow>
    gstep dg junk g (set_download g r (Served p False sent))"

inductive greach :: "(byte_string \<Rightarrow> byte_string) \<Rightarrow> timespec \<Rightarrow> gstate \<Rightarrow> gstate \<Rightarrow> bool"
  for dg junk g0 where
  start: "greach dg junk g0 g0"
| step: "greach dg junk g0 g \<Longrightarrow> gstep dg junk g g' \<Longrightarrow> greach dg junk g0 g'"

lemma greach_trans: "greach dg junk b c \<Longrightarrow> greach dg junk a b \<Longrightarrow> greach dg junk a c"
  by (induction rule: greach.induct) (auto intro: greach.step)

text \<open>Uploads and downloads that arrive; steps of the uploads are steps of the whole.\<close>

definition glaunch :: "server \<Rightarrow> jobs \<Rightarrow> (nat \<Rightarrow> string option) \<Rightarrow> gstate" where
  "glaunch srv jobs asks = \<lparr>uploads = launch srv jobs,
     downloads = (\<lambda>r. case asks r of None \<Rightarrow> Unasked | Some p \<Rightarrow> Asked p)\<rparr>"

lemma upload_run:
  "wreach dg junk (uploads g) st \<Longrightarrow> greach dg junk g (g\<lparr>uploads := st\<rparr>)"
proof (induction rule: wreach.induct)
  case start
  then show ?case using greach.start[of dg junk g] by simp
next
  case (step st st')
  then show ?case using greach.step[OF step.IH, of "g\<lparr>uploads := st'\<rparr>"] gstep.upload[of dg junk "g\<lparr>uploads := st\<rparr>" st']
    by simp
qed

lemma set_download_simps [simp]:
  "uploads (set_download g r x) = uploads g" "downloads (set_download g r x) = (downloads g)(r := x)"
  by (simp_all add: set_download_def)

subsection \<open>What uploads do to inodes\<close>

text \<open>An inode that is no upload's cache file.\<close>

definition apart :: "(byte_string \<Rightarrow> byte_string) \<Rightarrow> string list \<Rightarrow> jobs \<Rightarrow> fs \<Rightarrow> nat \<Rightarrow> bool" where
  "apart dg base jobs s i \<longleftrightarrow>
     i < fs_next s \<and> (\<forall>h msgs c. jobs h = Some (msgs, c) \<longrightarrow> node s (cache_of dg base msgs) \<noteq> Some i)"

definition same_inode :: "fs \<Rightarrow> fs \<Rightarrow> nat \<Rightarrow> bool" where
  "same_inode s s' i \<longleftrightarrow> i_data (fs_inodes s' i) = i_data (fs_inodes s i)
     \<and> i_isdir (fs_inodes s' i) = i_isdir (fs_inodes s i)"

lemma same_inode_refl [simp]: "same_inode s s i"
  by (simp add: same_inode_def)

lemma set_data_inode [simp]: "j \<noteq> i \<Longrightarrow> same_inode s (set_data s j d) i" "fs_next (set_data s j d) = fs_next s"
  by (simp_all add: same_inode_def set_data_def)

lemma ofstream_open_inode:
  assumes "ofstream_open s p = (s', Inr j)" "resolve s p = Inr cp" "i < fs_next s" "node s cp \<noteq> Some i"
  shows "same_inode s s' i \<and> i < fs_next s' \<and> node s' cp \<noteq> Some i"
  using assms(1) unfolding ofstream_open_def
proof (cases rule: open_node_cases)
  case (created cp')
  then have "node s' cp = Some (fs_next s)" "same_inode s s' i" "fs_next s' = Suc (fs_next s)"
    using assms(2,3) by (simp_all add: node_create, simp_all add: create_node_def same_inode_def)
  then show ?thesis using assms(3) by simp
qed (use assms(2-4) in auto)

lemma rename_inode: "same_inode s (fst (sys_rename s old new)) i \<and> fs_next (fst (sys_rename s old new)) = fs_next s"
  by (auto simp: sys_rename_def same_inode_def split: sum.splits option.splits)

text \<open>A renamed name is gone.\<close>

lemma node_rename_other:
  assumes "resolve s new \<noteq> Inr q"
  shows "node (fst (sys_rename s old new)) q \<in> {node s q, None}"
  using assms by (auto simp: sys_rename_def node_def update_conv' delete_conv' split: sum.splits option.splits)

lemma upload_keeps_inode:
  assumes st: "wstep dg junk st st'" and inv: "race_inv dg base jobs s0 st" and sep: "separate dg jobs"
    and i: "apart dg base jobs (sfs (wsrv st)) i"
  shows "same_inode (sfs (wsrv st)) (sfs (wsrv st')) i \<and> apart dg base jobs (sfs (wsrv st')) i"
proof -
  let ?s = "sfs (wsrv st)"
  have ok: "server_ok (wsrv st) base" and pr: "progress dg base (jobs h) ?s (hs st h)" for h
    using inv by (simp_all add: race_inv_def)
  have same: ?thesis if "sfs (wsrv st') = ?s"
    using i that by (simp add: same_inode_def)
  show ?thesis
    using st
  proof cases
    case (open_fails h msgs c s e)
    then show ?thesis using same ofstream_open_error[OF open_fails(3)] by simp
  next
    case (opens h msgs c s j)
    have job: "jobs h = Some (msgs, c)"
      using pr[of h] opens(2) by simp
    note r = resolve_cache_of[OF ok, of dg msgs]
    have n: "i < fs_next ?s" "node ?s (cache_of dg base msgs) \<noteq> Some i"
      using i job unfolding apart_def by blast+
    note o = ofstream_open_inode[OF opens(3) r n]
    have "node s (cache_of dg base msgs') \<noteq> Some i" if "jobs h' = Some (msgs', c')" for h' msgs' c'
    proof (cases "cache_of dg base msgs' = cache_of dg base msgs")
      case False
      from node_ofstream_open[OF opens(3) r False] show ?thesis
        using i that unfolding apart_def by metis
    qed (use o in simp)
    then show ?thesis using o opens(1) by (simp add: apart_def)
  next
    case (store h j msgs m ms c)
    then have "jobs h = Some (msgs, c)" "node ?s (cache_of dg base msgs) = Some j"
      using pr[of h] by simp_all
    then have "j \<noteq> i" using i unfolding apart_def by blast
    then show ?thesis
      using i store(1) by (simp add: apart_def store_more_def)
  next
    case (renames h msgs t)
    then have job: "jobs h = Some (msgs, False)"
      using pr[of h] by simp
    then have path: "last_path msgs = first_path msgs" "no_dotdot (first_path msgs)"
      using sep unfolding separate_def by blast+
    let ?old = "getServerFilepath dg (wsrv st) (last_path msgs) True"
    let ?new = "getServerFilepath dg (wsrv st) (last_path msgs) False"
    have "resolve ?s ?new \<noteq> Inr (cache_of dg base msgs')" for msgs'
      using walk_below[of "path_comps (first_path msgs)" ?s "base @ [FS_ROOT]"] path resolve_shared[OF ok, of dg]
      by (auto simp: no_dotdot_def cache_of_def FS_ROOT_def CACHE_def)
    then have "node (fst (sys_rename ?s ?old ?new)) (cache_of dg base msgs') \<in> {node ?s (cache_of dg base msgs'), None}" for msgs'
      by (rule node_rename_other)
    then have nd: "node (fst (sys_rename ?s ?old ?new)) (cache_of dg base msgs') \<noteq> Some i"
      if "node ?s (cache_of dg base msgs') \<noteq> Some i" for msgs'
      using that by (metis insert_iff empty_iff option.distinct(1))
    have "apart dg base jobs (fst (sys_rename ?s ?old ?new)) i"
      using i nd rename_inode[of ?s ?old ?new i] unfolding apart_def by metis
    then show ?thesis
      using rename_inode[of ?s ?old ?new i] renames(1) by simp
  next
    case (clock t)
    then show ?thesis using i by (simp add: same_inode_def apart_def)
  qed (use same in auto)
qed

subsection \<open>Downloads are snapshots\<close>

text \<open>The versions of a name: what it held at the start, and the uploads to it.\<close>

definition version_of :: "string list \<Rightarrow> jobs \<Rightarrow> fs \<Rightarrow> string list \<Rightarrow> byte_string \<Rightarrow> bool" where
  "version_of base jobs s0 q d \<longleftrightarrow>
     (\<exists>t. view s0 q = Some (File d t)) \<or> (\<exists>h msgs. jobs h = Some (msgs, False) \<and> goes_to base s0 msgs q \<and> d = bytes_of msgs)"

definition held :: "(byte_string \<Rightarrow> byte_string) \<Rightarrow> string list \<Rightarrow> jobs \<Rightarrow> fs \<Rightarrow> fs \<Rightarrow> string \<Rightarrow> nat \<Rightarrow> bool" where
  "held dg base jobs s0 s p i \<longleftrightarrow> apart dg base jobs s i \<and> (i_isdir (fs_inodes s i)
     \<or> (\<exists>q. walk s0 (base @ [FS_ROOT]) (path_comps p) = Inr q \<and> version_of base jobs s0 q (i_data (fs_inodes s i))))"

fun snapshot :: "(byte_string \<Rightarrow> byte_string) \<Rightarrow> string list \<Rightarrow> jobs \<Rightarrow> fs \<Rightarrow> fs \<Rightarrow> reader \<Rightarrow> bool" where
  "snapshot dg base jobs s0 s (Opened p i) = (no_dotdot p \<longrightarrow> held dg base jobs s0 s p i)"
| "snapshot dg base jobs s0 s (Sending p i ts pos sent) =
     (no_dotdot p \<longrightarrow> held dg base jobs s0 s p i \<and> concat (map mc_b sent) = take pos (i_data (fs_inodes s i)))"
| "snapshot dg base jobs s0 s (Served p whole sent) =
     (no_dotdot p \<longrightarrow> sent \<in> {[], [default_MetaContent]} \<or> (\<exists>q d. walk s0 (base @ [FS_ROOT]) (path_comps p) = Inr q
        \<and> version_of base jobs s0 q d \<and> (\<exists>k. concat (map mc_b sent) = take k d)
        \<and> (whole \<longrightarrow> concat (map mc_b sent) = d)))"
| "snapshot dg base jobs s0 s _ = True"

lemma held_step:
  "held dg base jobs s0 s p i \<Longrightarrow> same_inode s s' i \<Longrightarrow> apart dg base jobs s' i \<Longrightarrow> held dg base jobs s0 s' p i"
  by (simp add: held_def same_inode_def)

lemma snapshot_step:
  assumes "snapshot dg base jobs s0 s x"
    and "\<And>i. apart dg base jobs s i \<Longrightarrow> same_inode s s' i \<and> apart dg base jobs s' i"
  shows "snapshot dg base jobs s0 s' x"
proof (cases x)
  case (Opened p i)
  then show ?thesis
    using assms held_step[of dg base jobs s0 s p i s'] by (auto simp: held_def)
next
  case (Sending p i ts pos sent)
  then show ?thesis
    using assms held_step[of dg base jobs s0 s p i s'] by (auto simp: held_def same_inode_def)
qed (use assms(1) in auto)

definition down_inv :: "(byte_string \<Rightarrow> byte_string) \<Rightarrow> string list \<Rightarrow> jobs \<Rightarrow> fs \<Rightarrow> gstate \<Rightarrow> bool" where
  "down_inv dg base jobs s0 g \<longleftrightarrow>
     race_inv dg base jobs s0 (uploads g) \<and> (\<forall>r. snapshot dg base jobs s0 (gfs g) (downloads g r))"

lemma down_inv_set:
  "down_inv dg base jobs s0 g \<Longrightarrow> snapshot dg base jobs s0 (gfs g) x \<Longrightarrow> down_inv dg base jobs s0 (set_download g r x)"
  by (simp add: down_inv_def)

text \<open>The file a download opens is a version of its name, and no upload's cache file.\<close>

lemma opened_held:
  assumes inv: "race_inv dg base jobs s0 st" and p: "no_dotdot p"
    and op: "open_node (sfs (wsrv st)) (getServerFilepath dg (wsrv st) p False) O_RDONLY 0 = (s, Inr i)"
  shows "held dg base jobs s0 (sfs (wsrv st)) p i"
proof -
  let ?s = "sfs (wsrv st)"
  have ok: "server_ok (wsrv st) base" and wf: "wf_fs ?s" and same: "same_dirs ?s s0"
    using inv by (simp_all add: race_inv_def server_ok_def)
  obtain q where q: "walk ?s (base @ [FS_ROOT]) (path_comps p) = Inr q" "node ?s q = Some i"
    using op by (cases rule: open_node_cases) (simp_all add: O_RDONLY_def resolve_shared[OF ok])
  have q0: "walk s0 (base @ [FS_ROOT]) (path_comps p) = Inr q"
    using q(1) walk_dirs[of ?s s0] same by (simp add: same_dirs_def)
  have tree: "q \<in> tree_of base"
    using walk_below[OF _ q(1)] p by (auto simp: no_dotdot_def tree_of_def)
  then have "q \<noteq> cache_of dg base msgs" for msgs
    using cache_not_in_tree by blast
  then have "apart dg base jobs ?s i"
    using node_inj[OF wf q(2)] node_less[OF wf q(2)] unfolding apart_def by metis
  moreover have "version_of base jobs s0 q (i_data (fs_inodes ?s i))" if nd: "\<not> i_isdir (fs_inodes ?s i)"
  proof -
    obtain t where v: "view ?s q = Some (File (i_data (fs_inodes ?s i)) t)"
      using q(2) nd by (simp add: view_def entry_of_def)
    have "view ?s q = view s0 q \<or> (\<exists>h msgs t. jobs h = Some (msgs, False) \<and> goes_to base s0 msgs q
        \<and> view ?s q = Some (File (bytes_of msgs) t))"
      using inv tree unfolding race_inv_def by blast
    then show ?thesis
    proof
      assume "view ?s q = view s0 q"
      then have "view s0 q = Some (File (i_data (fs_inodes ?s i)) t)" using v by simp
      then show ?thesis unfolding version_of_def by blast
    qed (use v in \<open>auto simp: version_of_def\<close>)
  qed
  ultimately show ?thesis
    using q0 unfolding held_def by blast
qed

lemma take_whole: "\<exists>k. d = take k d"
  by (rule exI[of _ "length d"]) simp

lemma down_step:
  assumes "gstep dg junk g g'" "down_inv dg base jobs s0 g" "separate dg jobs"
  shows "down_inv dg base jobs s0 g'"
proof -
  have inv: "race_inv dg base jobs s0 (uploads g)" and snap: "snapshot dg base jobs s0 (gfs g) (downloads g r)" for r
    using assms(2) by (simp_all add: down_inv_def)
  from assms(1) show ?thesis
  proof cases
    case (upload st)
    have "snapshot dg base jobs s0 (sfs (wsrv st)) (downloads g r)" for r
      by (rule snapshot_step[OF snap]) (use upload_keeps_inode[OF upload(2) inv assms(3)] in blast)
    then show ?thesis
      using upload(1) race_step[OF upload(2) inv assms(3)] by (simp add: down_inv_def)
  next
    case (no_file r p s e)
    show ?thesis unfolding no_file(1) by (rule down_inv_set[OF assms(2)]) (simp add: default_MetaContent_def)
  next
    case (open_file r p s i)
    show ?thesis
      unfolding open_file(1) by (rule down_inv_set[OF assms(2)]) (use opened_held[OF inv _ open_file(3)] in simp)
  next
    case (stat_file r p i t)
    show ?thesis
      unfolding stat_file(1) by (rule down_inv_set[OF assms(2)]) (use snap[of r] stat_file(2) in simp)
  next
    case (no_data r p i ts pos sent)
    show ?thesis unfolding no_data(1) by (rule down_inv_set[OF assms(2)]) simp
  next
    case (piece r p i ts pos sent)
    show ?thesis
      unfolding piece(1)
      by (rule down_inv_set[OF assms(2)]) (use snap[of r] piece(2) in \<open>auto simp: content_msg_def take_add\<close>)
  next
    case (rest r p i ts pos sent)
    have "no_dotdot p \<Longrightarrow> held dg base jobs s0 (gfs g) p i \<and> concat (map mc_b sent) = take pos (i_data (fs_inodes (gfs g) i))"
      using snap[of r] rest(2) by simp
    then show ?thesis
      unfolding rest(1)
      by (intro down_inv_set[OF assms(2)]) (use rest(3) take_whole in \<open>auto simp: held_def content_msg_def\<close>)
  next
    case (refused r p i ts pos sent)
    have "no_dotdot p \<Longrightarrow> held dg base jobs s0 (gfs g) p i \<and> concat (map mc_b sent) = take pos (i_data (fs_inodes (gfs g) i))"
      using snap[of r] refused(2) by simp
    then show ?thesis
      unfolding refused(1) by (intro down_inv_set[OF assms(2)]) (use refused(3) in \<open>auto simp: held_def\<close>)
  qed
qed

lemma down_reach:
  "greach dg junk g0 g \<Longrightarrow> down_inv dg base jobs s0 g0 \<Longrightarrow> separate dg jobs \<Longrightarrow> down_inv dg base jobs s0 g"
  by (induction rule: greach.induct) (auto intro: down_step)

lemma down_start:
  assumes "server_ok srv base" "\<forall>w. length w = 64 \<longrightarrow> \<not> is_dir (sfs srv) (base @ [CACHE, w])"
  shows "down_inv dg base jobs (sfs srv) (glaunch srv jobs asks)"
  using race_start[OF assms] by (simp add: down_inv_def glaunch_def split: option.splits)


subsection \<open>A handler on its own\<close>

lemma set_download_twice [simp]: "set_download (set_download g r x) r y = set_download g r y"
  by (simp add: set_download_def)

lemma send_rest:
  assumes "downloads g r = Sending p i ts pos sent" "\<not> i_isdir (fs_inodes (gfs g) i)"
  shows "greach dg junk g (set_download g r (Served p True
    (sent @ map (content_msg ts) (send_chunks BUFSIZE accept_all k (drop pos (i_data (fs_inodes (gfs g) i)))))))"
  using assms
proof (induction "length (drop pos (i_data (fs_inodes (gfs g) i)))" arbitrary: g pos sent k rule: less_induct)
  case less
  let ?d = "drop pos (i_data (fs_inodes (gfs g) i))"
  show ?case
  proof (cases "length ?d < BUFSIZE")
    case True
    then have "send_chunks BUFSIZE accept_all k ?d = [?d]"
      by (subst send_chunks.simps) simp
    then show ?thesis
      using greach.step[OF greach.start gstep.rest[OF less.prems True]] by simp
  next
    case False
    let ?g = "set_download g r (Sending p i ts (pos + BUFSIZE) (sent @ [content_msg ts (take BUFSIZE ?d)]))"
    have b: "0 < BUFSIZE" by (simp add: BUFSIZE_def)
    have one: "greach dg junk g ?g"
      by (rule greach.step[OF greach.start gstep.piece[OF less.prems]]) (use False in simp)
    have "greach dg junk ?g (set_download ?g r (Served p True ((sent @ [content_msg ts (take BUFSIZE ?d)])
        @ map (content_msg ts) (send_chunks BUFSIZE accept_all (Suc k) (drop (pos + BUFSIZE) (i_data (fs_inodes (gfs ?g) i)))))))"
      by (rule less.hyps) (use less.prems(2) b False in auto)
    from greach_trans[OF this one] show ?thesis
      using False b by (subst send_chunks.simps) (simp add: add.commute)
  qed
qed

lemma run_to_served:
  assumes "downloads g r = Asked p"
    and "srv_GetContent dg accept_all (wsrv (uploads g)) p = Done (reply, msgs, srv')"
  shows "greach dg junk g (set_download g r (Served p True msgs)) \<and> srv' = wsrv (uploads g)"
proof -
  let ?p = "shared_name dg g p"
  show ?thesis
  proof (cases rule: open_rdonly_cases[of "gfs g" ?p])
    case (1 e)
    then show ?thesis
      using assms greach.step[OF greach.start gstep.no_file[OF assms(1) 1]]
      by (auto simp: srv_GetContent_def ifstream_read_def Let_def)
  next
    case (2 cp i)
    define ts where "ts = timespec_bytes (st_mtim (stat_of (gfs g) i))"
    let ?g = "set_download g r (Sending p i ts 0 [])"
    have opened: "greach dg junk g (set_download g r (Opened p i))"
      by (rule greach.step[OF greach.start gstep.open_file[OF assms(1) 2(3)]])
    have "gstep dg junk (set_download g r (Opened p i)) (set_download (set_download g r (Opened p i)) r (Sending p i ts 0 []))"
      unfolding ts_def by (rule gstep.stat_file) (simp_all add: open_rdonly(2)[OF 2(1,2)])
    then have sending: "greach dg junk g ?g"
      using greach.step[OF opened] by simp
    show ?thesis
    proof (cases "i_isdir (fs_inodes (gfs g) i)")
      case True
      then have "greach dg junk g (set_download ?g r (Served p True []))"
        by (intro greach.step[OF sending gstep.no_data[of ?g r p i ts 0 "[]"]]) simp_all
      then show ?thesis
        using assms(2) 2 True by (auto simp: srv_GetContent_def ifstream_read_def Let_def)
    next
      case False
      have "greach dg junk ?g (set_download ?g r (Served p True
          ([] @ map (content_msg ts) (send_chunks BUFSIZE accept_all 0 (drop 0 (i_data (fs_inodes (gfs ?g) i)))))))"
        by (rule send_rest) (simp_all add: False)
      from greach_trans[OF this sending] show ?thesis
        using assms(2) 2 False open_rdonly(2)[OF 2(1,2)]
        by (auto simp: srv_GetContent_def ifstream_read_def Let_def content_msg_def[abs_def] ts_def)
    qed
  qed
qed

text \<open>
  Undisturbed, the steps of a download send what \<^verbatim>\<open>GetContent\<close> run to its end sends, and leave
  everything else as it is.
\<close>

lemma read_steps_compose:
  assumes "downloads g r = Asked p"
    and "srv_GetContent dg accept_all (wsrv (uploads g)) p = Done (reply, msgs, srv')"
  shows "greach dg junk g (set_download g r (Served p True msgs)) \<and> srv' = wsrv (uploads g)"
  by (rule run_to_served[OF assms])

subsection \<open>Bytes of one version with the time of the next\<close>

lemma uploads_keep_inode:
  assumes "wreach dg junk st st'" "race_inv dg base jobs s0 st" "separate dg jobs"
    and "apart dg base jobs (sfs (wsrv st)) i"
  shows "same_inode (sfs (wsrv st)) (sfs (wsrv st')) i \<and> apart dg base jobs (sfs (wsrv st')) i"
  using assms(1)
proof (induction rule: wreach.induct)
  case (step st1 st2)
  from upload_keeps_inode[OF step.hyps(2) race_reach[OF step.hyps(1) assms(2,3)] assms(3)] step.IH
  show ?case by (simp add: same_inode_def)
qed (simp add: assms(4))

text \<open>
  \<^verbatim>\<open>GetContent\<close> opens the file and then asks for its modification time by name.  An upload that renames
  its file in between makes the download announce the old bytes with the time of the new version,
  which is the time \<^verbatim>\<open>Stat\<close> gives from then on.
\<close>

lemma mislabelled_run:
  assumes ok: "server_ok srv base" "\<forall>w. length w = 64 \<longrightarrow> \<not> is_dir (sfs srv) (base @ [CACHE, w])" "\<not> lock_held srv"
    and sep: "separate dg jobs" and job: "jobs h = Some (msgs, False)" "msgs \<noteq> []" "\<forall>m \<in> set msgs. fc_filepath m = p"
    and ask: "asks r = Some p" and old: "shared_entry srv base p = Some (File d t)"
  shows "\<exists>g sent. greach dg junk (glaunch srv jobs asks) g
    \<and> downloads g r = Served p True sent \<and> sent \<noteq> [] \<and> concat (map mc_b sent) = d
    \<and> (\<forall>m \<in> set sent. mc_file_exists m \<and> mc_timestamp m = timespec_bytes (fs_now (sfs srv)))
    \<and> world_up base (Some (wsrv (uploads g))) \<and> no_dotdot p
    \<and> shared_entry (wsrv (uploads g)) base p = Some (File (concat (map fc_b msgs)) (fs_now (sfs srv)))"
proof -
  let ?g0 = "glaunch srv jobs asks"
  have g0: "uploads ?g0 = launch srv jobs" "wsrv (launch srv jobs) = srv" "downloads ?g0 r = Asked p"
    "hs (launch srv jobs) h = Ready msgs False"
    using ask job(1) by (simp_all add: glaunch_def launch_def)
  have inv: "race_inv dg base jobs (sfs srv) (launch srv jobs)"
    by (rule race_start[OF ok(1,2)])
  have p: "first_path msgs = p" "no_dotdot p"
    using job sep unfolding separate_def by (cases msgs; force)+
  obtain cp where cp: "resolve (sfs srv) (getServerFilepath dg srv p False) = Inr cp" "view (sfs srv) cp = Some (File d t)"
    using shared_entryE[OF ok(1) old] .
  then obtain i where i: "node (sfs srv) cp = Some i" "i_data (fs_inodes (sfs srv) i) = d" "\<not> i_isdir (fs_inodes (sfs srv) i)"
    by (auto simp: view_def entry_of_def split: option.splits if_splits)
  note op = open_rdonly(1)[OF cp(1) i(1)]
  have apart: "apart dg base jobs (sfs srv) i"
    using opened_held[OF inv p(2)] op g0(2) unfolding held_def by metis
  have nd: "\<not> is_dir (sfs srv) (base @ [CACHE, hashFilepath dg p])" "\<not> is_dir (sfs srv) cp"
    using ok(2) cp(2) by (simp_all add: is_dir_view)
  obtain srv' where w: "srv_Write dg junk srv msgs False =
        Done (OK, default_Meta\<lparr>meta_timestamp := timespec_bytes (fs_now (sfs srv))\<rparr>, srv')"
      "view (sfs srv') = (view (sfs srv))(base @ [CACHE, hashFilepath dg p] := None,
         cp \<mapsto> File (concat (map fc_b msgs)) (fs_now (sfs srv)))" "server_ok srv' base" "\<not> lock_held srv'"
    using srv_Write_published[OF ok(1,3) job(2,3) nd(1) cp(1) nd(2)] by blast
  obtain st' where st': "wreach dg junk (launch srv jobs) st'" "wsrv st' = srv'"
    using run_to_return[where st = "launch srv jobs" and h = h] g0(2,4) w(1) by metis
  have keep: "same_inode (sfs srv) (sfs srv') i"
    using uploads_keep_inode[OF st'(1) inv sep] apart g0(2) st'(2) by simp
  have dirs: "is_dir (sfs srv') q = is_dir (sfs srv) q" for q
    using nd by (auto simp: is_dir_view w(2))
  then have up: "world_up base (Some srv')"
    using w(3,4) ok(2) by (simp add: world_up_def)
  have entry: "shared_entry srv' base p = Some (File (concat (map fc_b msgs)) (fs_now (sfs srv)))"
  proof -
    from dirs have "walk (sfs srv') (base @ [FS_ROOT]) (path_comps p) = Inr cp"
      using walk_dirs[of "sfs srv'" "sfs srv"] cp(1) resolve_shared[OF ok(1), of dg] by simp
    then show ?thesis by (simp add: shared_entry_def w(2))
  qed
  obtain cn where cn: "resolve (sfs srv') (getServerFilepath dg srv' p False) = Inr cn"
      "view (sfs srv') cn = Some (File (concat (map fc_b msgs)) (fs_now (sfs srv)))"
    using shared_entryE[OF w(3) entry] .
  have stat: "(case sys_stat (sfs srv') (getServerFilepath dg srv' p False) of Inl e \<Rightarrow> junk | Inr sb \<Rightarrow> st_mtim sb) = fs_now (sfs srv)"
    using cn by (auto simp: sys_stat_def stat_of_def view_def entry_of_def Let_def split: option.splits if_splits)
  let ?g1 = "set_download ?g0 r (Opened p i)"
  let ?g2 = "?g1\<lparr>uploads := st'\<rparr>"
  let ?ts = "timespec_bytes (fs_now (sfs srv))"
  let ?g3 = "set_download ?g2 r (Sending p i ?ts 0 [])"
  let ?sent = "map (content_msg ?ts) (send_chunks BUFSIZE accept_all 0 d)"
  have g1: "greach dg junk ?g0 ?g1"
    by (rule greach.step[OF greach.start gstep.open_file[OF g0(3)]]) (use op g0(1,2) in simp)
  have g2: "greach dg junk ?g1 ?g2"
    by (rule upload_run) (use st'(1) g0(1) in simp)
  have "gstep dg junk ?g2 ?g3"
    by (rule gstep.stat_file) (simp_all add: st'(2) stat[symmetric])
  then have g3: "greach dg junk ?g0 ?g3"
    using greach.step[OF greach_trans[OF g2 g1]] by blast
  have "greach dg junk ?g3 (set_download ?g3 r (Served p True ([] @ map (content_msg ?ts)
      (send_chunks BUFSIZE accept_all 0 (drop 0 (i_data (fs_inodes (gfs ?g3) i)))))))"
    by (rule send_rest) (use keep i(3) st'(2) in \<open>simp_all add: same_inode_def\<close>)
  then have "greach dg junk ?g0 (set_download ?g3 r (Served p True ?sent))"
    using greach_trans[OF _ g3] keep i(2) st'(2) by (simp add: same_inode_def)
  moreover have "concat (map mc_b ?sent) = d"
    by (simp add: content_msg_def comp_def)
  ultimately show ?thesis
    using up p(2) entry st'(2)
    by (intro exI[of _ "set_download ?g3 r (Served p True ?sent)"] exI[of _ ?sent]) (auto simp: content_msg_def)
qed

text \<open>
  C15: a download beside an upload of its file can send the bytes from before the upload with the time
  the server has after it.  A client that gets these messages when it opens the file reads the
  bytes from before, which is its good right; but the copy carries the server's time, so that its
  later opens take it for current, and it goes on reading the old bytes while the server has new ones.
\<close>

theorem download_mislabelled:
  assumes "server_ok srv base" "\<forall>w. length w = 64 \<longrightarrow> \<not> is_dir (sfs srv) (base @ [CACHE, w])" "\<not> lock_held srv"
    and "separate dg jobs" "jobs h = Some (msgs, False)" "msgs \<noteq> []" "\<forall>m \<in> set msgs. fc_filepath m = p"
    and "asks r = Some p" "shared_entry srv base p = Some (File d t)"
    and c: "cache_ok c cb" "time_count e c p = 0" "plain_flags (flags fi)" "o_read (flags fi)" "fs_next_fd (cfs c) < 2 ^ 31"
  shows "\<exists>g sent. greach dg junk (glaunch srv jobs asks) g \<and> downloads g r = Served p True sent
    \<and> world_file base (Some (wsrv (uploads g))) p = Some (concat (map fc_b msgs), fs_now (sfs srv))
    \<and> (\<forall>stub (w :: 'w) w'. rpc_GetContent stub w p = Some (sent, OK, w') \<longrightarrow>
        (\<exists>c1 fi1. afs_open e stub c w p fi = Ret (0, fi1) c1 w' \<and> (fs_next_fd (cfs c1) < 2 ^ 31 \<longrightarrow>
          (\<exists>c2 fi2. afs_open e (server_stub dg junk) c1 (Some (wsrv (uploads g))) p fi = Ret (0, fi2) c2 (Some (wsrv (uploads g)))
             \<and> reads_as c2 (Some (wsrv (uploads g))) p fi2 d))))"
proof -
  from mislabelled_run[where asks = asks and r = r and jobs = jobs and h = h and junk = junk, OF assms(1-9)] obtain g sent where g: "greach dg junk (glaunch srv jobs asks) g"
    "downloads g r = Served p True sent" "world_up base (Some (wsrv (uploads g)))" "no_dotdot p"
    "shared_entry (wsrv (uploads g)) base p = Some (File (concat (map fc_b msgs)) (fs_now (sfs srv)))"
    and sent: "sent \<noteq> [] \<and> concat (map mc_b sent) = d
      \<and> (\<forall>m \<in> set sent. mc_file_exists m \<and> mc_timestamp m = timespec_bytes (fs_now (sfs srv)))" by blast
  let ?w = "Some (wsrv (uploads g))"
  have new: "world_file base ?w p = Some (concat (map fc_b msgs), fs_now (sfs srv))"
    using g(4,5) by simp
  have "\<exists>c1 fi1. afs_open e stub c w p fi = Ret (0, fi1) c1 w' \<and> (fs_next_fd (cfs c1) < 2 ^ 31 \<longrightarrow>
      (\<exists>c2 fi2. afs_open e (server_stub dg junk) c1 ?w p fi = Ret (0, fi2) c2 ?w \<and> reads_as c2 ?w p fi2 d))"
    if r: "rpc_GetContent stub w p = Some (sent, OK, w')" for stub and w w' :: 'w
  proof -
    obtain c1 fi1 where c1: "download e stub c w p fi = Ret (0, fi1) c1 w'" "cache_ok c1 cb"
      "cached e c1 cb p = Some (File d (fs_now (cfs c)))" "time_count e c1 p = 1"
      "time_get e c1 p = timespec_bytes (fs_now (sfs srv))"
      using download_stores[OF c(1) r sent c(3,5), of e] by blast
    have "\<exists>c2 fi2. afs_open e (server_stub dg junk) c1 ?w p fi = Ret (0, fi2) c2 ?w \<and> reads_as c2 ?w p fi2 d"
      if "fs_next_fd (cfs c1) < 2 ^ 31"
      using open_uses_cache[OF c1(2) g(3) new c(3,4) that c1(4,5,3), of dg junk] by blast
    then show ?thesis
      using c1(1) c(2) by (intro exI[of _ c1] exI[of _ fi1]) (simp add: afs_open_def)
  qed
  then show ?thesis using g(1,2) new by blast
qed

subsection \<open>Witnesses\<close>

lemma sample_file_no_cache_dirs: "\<forall>w. length w = 64 \<longrightarrow> \<not> is_dir (sfs sample_file_server) ([] @ [CACHE, w])"
  by (simp add: is_dir_view sample_file_server(3) view_sample_server)

definition sample_downloads :: gstate where
  "sample_downloads = glaunch sample_file_server two_jobs [5 \<mapsto> ''/f'']"

lemma glaunch_asked: "asks r = Some p \<Longrightarrow> downloads (glaunch srv jobs asks) r = Asked p"
  by (simp add: glaunch_def)

lemma glaunch_server: "wsrv (uploads (glaunch srv jobs asks)) = srv"
  by (simp add: glaunch_def launch_def)

lemma sample_asked: "downloads sample_downloads 5 = Asked ''/f''" "wsrv (uploads sample_downloads) = sample_file_server"
  unfolding sample_downloads_def by (rule glaunch_asked, simp) (rule glaunch_server)

lemma sample_file_sent:
  obtains msgs where "srv_GetContent sample_sha2 accept_all (wsrv (uploads sample_downloads)) ''/f'' = Done (OK, msgs, sample_file_server)"
    "concat (map mc_b msgs) = ''hello''"
  by (rule that[unfolded sample_asked(2), OF srv_GetContent_file[OF sample_file_server(1) shared_sample(3)]])
    (simp add: comp_def)


theorem download_mislabelled_witness:
  "\<exists>g sent. greach sample_sha2 sample_clock sample_downloads g \<and> downloads g 5 = Served ''/f'' True sent
    \<and> world_file [] (Some (wsrv (uploads g))) ''/f'' = Some (''aa'', fs_now (sfs sample_file_server))
    \<and> (\<forall>stub (w :: unit) w'. rpc_GetContent stub w ''/f'' = Some (sent, OK, w') \<longrightarrow>
        (\<exists>c1 fi1. afs_open sample_env stub sample_client w ''/f'' sample_fi = Ret (0, fi1) c1 w'))"
proof -
  have job: "two_jobs 1 = Some ([\<lparr>fc_filepath = ''/f'', fc_b = ''aa''\<rparr>], False)" by (simp add: two_jobs_def)
  have c: "plain_flags (flags sample_fi)" "o_read (flags sample_fi)" "fs_next_fd (cfs sample_client) < 2 ^ 31"
    by (simp_all add: sample_fields)
  have msgs: "[\<lparr>fc_filepath = ''/f'', fc_b = ''aa''\<rparr>] \<noteq> []" "\<forall>m \<in> set [\<lparr>fc_filepath = ''/f'', fc_b = ''aa''\<rparr>]. fc_filepath m = ''/f''"
    and ask: "[5 \<mapsto> ''/f''] 5 = Some ''/f''" and bytes: "concat (map fc_b [\<lparr>fc_filepath = ''/f'', fc_b = ''aa''\<rparr>]) = ''aa''"
    by simp_all
  from download_mislabelled[where asks = "[5 \<mapsto> ''/f'']" and r = 5 and jobs = two_jobs and h = 1 and ?'w = unit
      and junk = sample_clock, OF sample_file_server(1) sample_file_no_cache_dirs sample_file_server(2) two_jobs_separate job
      msgs ask shared_sample(3) cache_ok_sample sample_tables(1) c]
  show ?thesis unfolding sample_downloads_def[symmetric] bytes by blast
qed

end
