(* ===== verification/Cache_Apart.thy ===== *)
theory Cache_Apart
  imports Open_Files
begin

section \<open>Calls on other files of the cache directory\<close>

text \<open>
  What a call on one file of the cache directory leaves alone: the directory stays in order, and a
  name that is not the file's keeps its inode and the inode its bytes, whatever descriptor or stream
  holds them.
\<close>

definition apart :: "string list \<Rightarrow> fs \<Rightarrow> fs \<Rightarrow> bool" where
  "apart q s s' \<longleftrightarrow> node s' q = node s q \<and> (\<forall>i. node s q = Some i \<longrightarrow> fs_inodes s' i = fs_inodes s i)
     \<and> (\<forall>fd. links s' fd q \<longrightarrow> links s fd q) \<and> fs_next s \<le> fs_next s'"

lemma apart_refl [simp]: "apart q s s"
  by (simp add: apart_def)

lemma apart_trans: "apart q s s' \<Longrightarrow> apart q s' s'' \<Longrightarrow> apart q s s''"
  by (auto simp: apart_def)

lemma cache_dir_dirs:
  assumes "cache_dir s root cb" "wf_fs s'" "0 \<le> fs_next_fd s'" "is_dir s' = is_dir s"
  shows "cache_dir s' root cb"
proof -
  have "resolve s' root = Inr cb"
    using assms(1) resolve_dirs[of s' s root cb] assms(4) by (simp add: cache_dir_def)
  then show ?thesis
    using assms by (auto simp: cache_dir_def)
qed

lemma cache_dir_fs: "cache_dir s root cb \<Longrightarrow> wf_fs s \<and> 0 \<le> fs_next_fd s"
  by (simp add: cache_dir_def)

lemma cache_dir_parent: "cache_dir s root cb \<Longrightarrow> is_dir s cb"
  by (simp add: cache_dir_def)

lemma fs_next_set_data [simp]: "fs_next (set_data s i d) = fs_next s" "fs_next_fd (set_data s i d) = fs_next_fd s"
  by (simp_all add: set_data_def)

lemma apart_set_data: "node s q \<noteq> Some i \<Longrightarrow> apart q s (set_data s i d)"
  by (simp add: apart_def) (simp add: set_data_def)

lemma cache_dir_set_data [simp]: "cache_dir (set_data s i d) root cb = cache_dir s root cb"
  by (simp add: cache_dir_def)

lemma apart_close [simp]: "apart q s (fst (sys_close s fd))"
proof -
  have "fs_inodes (fst (sys_close s fd)) = fs_inodes s" "fs_next (fst (sys_close s fd)) = fs_next s"
    by (simp_all add: sys_close_def)
  then show ?thesis
    using no_new_links_close[of s fd] by (simp add: apart_def no_new_links_def)
qed

lemma cache_dir_close [simp]: "cache_dir s root cb \<Longrightarrow> cache_dir (fst (sys_close s fd)) root cb"
  by (rule cache_dir_dirs) (simp_all add: cache_dir_fs)

subsection \<open>Removing\<close>

lemma unlink_apart:
  assumes "cache_dir s root cb" "resolve s p = Inr (cb @ [hashpath sha x])"
  shows "cache_dir (fst (sys_unlink s p)) root cb
    \<and> (q \<noteq> cb @ [hashpath sha x] \<longrightarrow> apart q s (fst (sys_unlink s p)))"
proof (cases "node s (cb @ [hashpath sha x])")
  case (Some i)
  let ?q = "cb @ [hashpath sha x]"
  have nd: "\<not> i_isdir (fs_inodes s i)"
    using cache_no_dir[OF assms(1), of sha x] Some by (simp add: is_dir_inode)
  have u: "fst (sys_unlink s p) = drop_name s ?q"
    using assms(2) Some nd by (simp add: sys_unlink_def drop_name_def)
  have f: "fs_inodes (drop_name s ?q) = fs_inodes s" "fs_next (drop_name s ?q) = fs_next s"
    "fs_next_fd (drop_name s ?q) = fs_next_fd s"
    by (simp_all add: drop_name_def)
  have "is_dir (drop_name s ?q) = is_dir s"
    unfolding is_dir_def node_drop f using Some nd by (intro ext) simp
  then have "cache_dir (drop_name s ?q) root cb"
    using cache_dir_dirs[OF assms(1)] wf_unlink[of s p] cache_dir_fs[OF assms(1)] u f by simp
  moreover have "q \<noteq> ?q \<Longrightarrow> apart q s (drop_name s ?q)"
    using no_new_links_drop[of s ?q] by (simp add: apart_def node_drop no_new_links_def f)
  ultimately show ?thesis using u by simp
qed (use assms in \<open>simp add: sys_unlink_def\<close>)

subsection \<open>Opening\<close>

lemma open_node_apart:
  assumes "cache_dir s root cb" "resolve s p = Inr (cb @ [hashpath sha x])" "open_node s p fl mode = (s', r)"
  shows "cache_dir s' root cb \<and> (q \<noteq> cb @ [hashpath sha x] \<longrightarrow> apart q s s')
    \<and> (\<forall>i. r = Inr i \<longrightarrow> node s' (cb @ [hashpath sha x]) = Some i)"
proof (cases r)
  case (Inl err)
  then have "s' = s" using assms(3) by (auto dest: open_node_error)
  then show ?thesis using assms(1) Inl by simp
next
  case (Inr i)
  let ?q = "cb @ [hashpath sha x]"
  note wf = cache_dir_fs[OF assms(1)]
  from assms(3)[unfolded Inr] show ?thesis
  proof (cases rule: open_node_cases)
    case (created cp)
    then have n: "cp = ?q" "node s ?q = None" using assms(2) by auto
    have s': "s' = create_node s ?q False mode" using created n by simp
    have f: "fs_next s' = Suc (fs_next s)" "fs_next_fd s' = fs_next_fd s"
      "j \<noteq> fs_next s \<Longrightarrow> fs_inodes s' j = fs_inodes s j" "\<not> i_isdir (fs_inodes s' (fs_next s))" for j
      by (simp_all add: s' create_node_def new_inode_def)
    have nodes: "node s' = (node s)(?q \<mapsto> fs_next s)"
      using node_create[OF n(2)] s' by simp
    have old: "node s q = Some j \<Longrightarrow> fs_inodes s' j = fs_inodes s j" for q j
      using f(3)[of j] node_less[of s q j] wf by fastforce
    have "is_dir s' z = is_dir s z" for z
      using old[of z] n(2) f(4) by (auto simp: is_dir_def nodes split: option.splits)
    then have "cache_dir s' root cb"
      using wf_open_node[of s p fl mode] wf f(2) assms(3) by (intro cache_dir_dirs[OF assms(1)]) auto
    moreover have "q \<noteq> ?q \<Longrightarrow> apart q s s'"
      using no_new_links_create[OF _ n(2), of False mode] wf old f(1) 
      unfolding apart_def nodes by (simp add: no_new_links_def s')
    ultimately show ?thesis using nodes created(5) Inr by simp
  next
    case (emptied cp)
    then have n: "node s ?q = Some i" using assms(2) by auto
    then have "q \<noteq> ?q \<Longrightarrow> node s q \<noteq> Some i"
      using node_inj wf by blast
    then show ?thesis
      using emptied(5) n assms(1) Inr by (simp add: apart_set_data)
  next
    case (found cp)
    then show ?thesis using assms(1,2) Inr by auto
  qed
qed

lemma sys_open_apart:
  assumes "cache_dir s root cb" "resolve s p = Inr (cb @ [hashpath sha x])"
  shows "cache_dir (fst (sys_open s p fl mode)) root cb
    \<and> (q \<noteq> cb @ [hashpath sha x] \<longrightarrow> apart q s (fst (sys_open s p fl mode)))"
proof (cases "open_node s p fl mode")
  case (Pair s1 r)
  note o = open_node_apart[OF assms Pair]
  show ?thesis
  proof (cases r)
    case (Inl err)
    then show ?thesis using o Pair by (simp add: sys_open_def)
  next
    case (Inr i)
    let ?f = "\<lparr>of_ino = i, of_read = o_read fl, of_write = o_write fl, of_append = o_append fl\<rparr>"
    let ?s = "s1\<lparr>fs_fds := (fs_fds s1)(fs_next_fd s1 \<mapsto> ?f), fs_next_fd := fs_next_fd s1 + 1\<rparr>"
    have d: "cache_dir s1 root cb" and at: "node s1 (cb @ [hashpath sha x]) = Some i"
      using o Inr by blast+
    note wf = cache_dir_fs[OF d]
    have "wf_fs ?s"
      using wf node_less[OF _ at] by (fastforce simp: wf_fs_def)
    then have "cache_dir ?s root cb"
      using wf by (intro cache_dir_dirs[OF d]) auto
    moreover have "q \<noteq> cb @ [hashpath sha x] \<Longrightarrow> apart q s1 ?s"
      using node_inj[of s1 "cb @ [hashpath sha x]" i q] wf at by (auto simp: apart_def links_def split: if_splits)
    ultimately show ?thesis
      using o Pair Inr by (auto simp: sys_open_def intro: apart_trans)
  qed
qed

subsection \<open>Calls on the file itself\<close>

text \<open>The name is given no inode that was there before under another name or none.\<close>

definition adopts_none :: "string list \<Rightarrow> fs \<Rightarrow> fs \<Rightarrow> bool" where
  "adopts_none q s s' \<longleftrightarrow> (\<forall>fd. links s' fd q \<longrightarrow> links s fd q) \<and> fs_next s \<le> fs_next s'
     \<and> (\<forall>i < fs_next s. node s' q = Some i \<longrightarrow> node s q = Some i)"

lemma apart_adopts_none: "apart q s s' \<Longrightarrow> adopts_none q s s'"
  by (simp add: apart_def adopts_none_def)

lemma adopts_none_refl [simp]: "adopts_none q s s"
  by (simp add: adopts_none_def)

lemma adopts_none_trans: "adopts_none q s s' \<Longrightarrow> adopts_none q s' s'' \<Longrightarrow> adopts_none q s s''"
  unfolding adopts_none_def by (meson dual_order.strict_trans1 order_trans)

lemma adopts_none_set_data [simp]: "adopts_none q s (set_data s i d)"
  by (simp add: adopts_none_def)

lemma adopts_none_unlink: "adopts_none q s (fst (sys_unlink s p))"
proof -
  have "fst (sys_unlink s p) = s \<or> (\<exists>cp. fst (sys_unlink s p) = drop_name s cp)"
    by (auto simp: sys_unlink_def drop_name_def split: sum.splits option.splits)
  then show ?thesis
    using no_new_links_drop[of s] 
    by (auto simp: adopts_none_def no_new_links_def node_drop split: if_splits) (simp add: drop_name_def)
qed

lemma adopts_none_open_node:
  assumes "wf_fs s" "open_node s p fl mode = (s', r)"
  shows "adopts_none q s s'"
proof (cases r)
  case (Inl err)
  then show ?thesis using assms(2) by (auto dest: open_node_error)
next
  case (Inr i)
  from assms(2)[unfolded Inr] show ?thesis
  proof (cases rule: open_node_cases)
    case (created cp)
    then show ?thesis
      using no_new_links_create[OF assms(1), of cp False mode]
      by (simp add: adopts_none_def no_new_links_def node_create) (simp add: create_node_def)
  qed simp_all
qed

end
