(* ===== verification/Open_Steps.thy ===== *)
theory Open_Steps
  imports Cache_Apart
begin

section \<open>Opening in steps\<close>

text \<open>
  \<^verbatim>\<open>afs_open\<close> split at its calls: each look into a table, each remote call, each system call and each
  message stored in the cache file is one step on the client, the world and the place the callback has
  reached.  The steps of an undisturbed opening compute \<open>afs_open\<close>; those of an opening of another file
  leave a file's copy and its entries in the tables alone.
\<close>

subsection \<open>Steps\<close>

datatype opener =
    Asking string fuse_file_info
  | Known string fuse_file_info
  | Checking string fuse_file_info
  | Compared string fuse_file_info string
  | Outdated string fuse_file_info
  | Fetching string fuse_file_info
  | Missing string fuse_file_info
  | Receiving string fuse_file_info "MetaContent list" status
  | Storing string fuse_file_info "(nat \<times> nat) option" "MetaContent list" "MetaContent list" status
  | Complete string fuse_file_info string
  | Creating string fuse_file_info
  | Settled string fuse_file_info
  | Filled string fuse_file_info
  | Given int fuse_file_info

text \<open>
  \<open>Storing p fi io msgs rest status\<close> has the stream open at inode \<open>i\<close> and position \<open>pos\<close> if \<open>io\<close> is
  \<open>Some (i, pos)\<close>, and not open if it is \<open>None\<close>; of the messages \<open>msgs\<close>, \<open>rest\<close> are still to be stored.
\<close>

inductive ostep :: "client_env \<Rightarrow> 'w stub \<Rightarrow> client \<times> 'w \<times> opener \<Rightarrow> client \<times> 'w \<times> opener \<Rightarrow> bool"
  for e stub where
  absent: "time_count e c p \<noteq> 1 \<Longrightarrow> ostep e stub (c, w, Asking p fi) (c, w, Fetching p fi)"
| known: "time_count e c p = 1 \<Longrightarrow> ostep e stub (c, w, Asking p fi) (c, w, Known p fi)"
| is_local: "time_get e c p = LOCAL_CREAT_FILE \<Longrightarrow> ostep e stub (c, w, Known p fi) (c, w, Filled p fi)"
| not_local: "time_get e c p \<noteq> LOCAL_CREAT_FILE \<Longrightarrow> ostep e stub (c, w, Known p fi) (c, w, Checking p fi)"
| stats: "rpc_Stat stub w p = Some (sc, w') \<Longrightarrow>
    ostep e stub (c, w, Checking p fi) (c, w', Compared p fi (sc_st_mtim sc))"
| current: "t = time_get e c p \<Longrightarrow> ostep e stub (c, w, Compared p fi t) (c, w, Filled p fi)"
| outdated: "t \<noteq> time_get e c p \<Longrightarrow> ostep e stub (c, w, Compared p fi t) (time_erase e c p, w, Outdated p fi)"
| unlinks: "ostep e stub (c, w, Outdated p fi)
    (c\<lparr>cfs := fst (sys_unlink (cfs c) (cache_file e c p))\<rparr>, w, Fetching p fi)"
| no_answer: "rpc_GetContent stub w p = Some ([], status, w') \<Longrightarrow>
    ostep e stub (c, w, Fetching p fi) (c, w', Given (- EIO) fi)"
| answer: "rpc_GetContent stub w p = Some (m # ms, status, w') \<Longrightarrow> mc_file_exists m \<Longrightarrow>
    ostep e stub (c, w, Fetching p fi) (c, w', Receiving p fi (m # ms) status)"
| no_file: "rpc_GetContent stub w p = Some (m # ms, status, w') \<Longrightarrow> \<not> mc_file_exists m \<Longrightarrow>
    ostep e stub (c, w, Fetching p fi) (c, w', Missing p fi)"
| stream: "ofstream_open (cfs c) (cache_file e c p) = (s, r) \<Longrightarrow>
    ostep e stub (c, w, Receiving p fi msgs status)
      (c\<lparr>cfs := s\<rparr>, w, Storing p fi (case r of Inl err \<Rightarrow> None | Inr i \<Rightarrow> Some (i, 0)) msgs msgs status)"
| stores: "ostep e stub (c, w, Storing p fi (Some (i, pos)) msgs (m # rest) status)
    (c\<lparr>cfs := store_at (cfs c) i pos (mc_b m)\<rparr>, w, Storing p fi (Some (i, pos + length (mc_b m))) msgs rest status)"
| drops: "ostep e stub (c, w, Storing p fi None msgs (m # rest) status) (c, w, Storing p fi None msgs rest status)"
| fails: "status \<noteq> OK \<Longrightarrow> ostep e stub (c, w, Storing p fi io msgs [] status) (c, w, Given (- EIO) fi)"
| closes: "ostep e stub (c, w, Storing p fi io msgs [] OK) (c, w, Complete p fi (mc_timestamp (last msgs)))"
| records: "ostep e stub (c, w, Complete p fi ts) (time_set e c p ts, w, Settled p fi)"
| marks_local: "ostep e stub (c, w, Missing p fi) (time_set e c p LOCAL_CREAT_FILE, w, Creating p fi)"
| creates: "ostep e stub (c, w, Creating p fi)
    (c\<lparr>cfs := close_creat (cfs c) (cache_file e c p) 0x1FF\<rparr>, w, Settled p fi)"
| cleans: "ostep e stub (c, w, Settled p fi) (dirty_set e c p False, w, Filled p fi)"
| opens: "open_cache_file e c w p fi = Ret (rc, fi') c' w' \<Longrightarrow>
    ostep e stub (c, w, Filled p fi) (c', w', Given rc fi')"

abbreviation oreach :: "client_env \<Rightarrow> 'w stub \<Rightarrow> client \<times> 'w \<times> opener \<Rightarrow> client \<times> 'w \<times> opener \<Rightarrow> bool" where
  "oreach e stub \<equiv> rtranclp (ostep e stub)"

inductive_cases ostep_casesE: "ostep e stub x y"

subsection \<open>The steps make up the callback\<close>

lemma then_step: "ostep e stub x y \<Longrightarrow> oreach e stub y z \<Longrightarrow> oreach e stub x z"
  by (rule converse_rtranclp_into_rtranclp)

lemma store_messages:
  "pos = length (i_data (fs_inodes (cfs c) i)) \<Longrightarrow>
     oreach e stub (c, w, Storing p fi (Some (i, pos)) msgs rest status)
       (c\<lparr>cfs := store_more (cfs c) i (concat (map mc_b rest))\<rparr>, w,
        Storing p fi (Some (i, pos + length (concat (map mc_b rest)))) msgs [] status)"
proof (induction rest arbitrary: c pos)
  case (Cons m rest)
  let ?c = "c\<lparr>cfs := store_more (cfs c) i (mc_b m)\<rparr>"
  have "oreach e stub (?c, w, Storing p fi (Some (i, pos + length (mc_b m))) msgs rest status)
      (?c\<lparr>cfs := store_more (cfs ?c) i (concat (map mc_b rest))\<rparr>, w,
       Storing p fi (Some (i, pos + length (mc_b m) + length (concat (map mc_b rest)))) msgs [] status)"
    by (rule Cons.IH) (simp add: Cons.prems)
  moreover note ostep.stores[of e stub c w p fi i pos msgs m rest status, unfolded store_at_end[OF Cons.prems]]
  ultimately have "oreach e stub (c, w, Storing p fi (Some (i, pos)) msgs (m # rest) status)
      (?c\<lparr>cfs := store_more (cfs ?c) i (concat (map mc_b rest))\<rparr>, w,
       Storing p fi (Some (i, pos + length (mc_b m) + length (concat (map mc_b rest)))) msgs [] status)"
    by (rule then_step[rotated])
  then show ?case by (simp add: store_more_twice add.assoc)
qed simp

lemma drop_messages:
  "oreach e stub (c, w, Storing p fi None msgs rest status) (c, w, Storing p fi None msgs [] status)"
  by (induction rest) (auto intro: then_step[OF ostep.drops])

lemma receive_file:
  "\<exists>io. oreach e stub (c, w, Receiving p fi msgs status)
     (c\<lparr>cfs := ofstream_store (cfs c) (cache_file e c p) (concat (map mc_b msgs))\<rparr>, w, Storing p fi io msgs [] status)"
proof (cases "ofstream_open (cfs c) (cache_file e c p)")
  case (Pair s r)
  note one = then_step[OF ostep.stream[OF Pair]]
  show ?thesis
  proof (cases r)
    case (Inl err)
    from one[of stub w fi msgs status] drop_messages[of e stub "c\<lparr>cfs := s\<rparr>" w p fi msgs msgs status] show ?thesis
      using Pair Inl by (auto simp: ofstream_store_def)
  next
    case (Inr i)
    have e: "i_data (fs_inodes s i) = []"
      using opened_empty Pair Inr by blast
    from one[of stub w fi msgs status] store_messages[of 0 "c\<lparr>cfs := s\<rparr>" i e stub w p fi msgs msgs status] show ?thesis
      using Pair Inr store_more_first[OF e] e by (auto simp: ofstream_store_def)
  qed
qed

lemma fill_and_open:
  assumes "open_cache_file e (dirty_set e c p False) w p fi = Ret (rc, fi') c' w'"
  shows "oreach e stub (c, w, Settled p fi) (c', w', Given rc fi')"
  by (rule then_step[OF ostep.cleans then_step[OF ostep.opens[OF assms]]]) simp

lemma fetched_filled:
  assumes "rpc_GetContent stub w p = Some (m # ms, OK, w')" "mc_file_exists m"
  shows "oreach e stub (c, w, Fetching p fi)
    (dirty_set e (time_set e (c\<lparr>cfs := ofstream_store (cfs c) (cache_file e c p) (concat (map mc_b (m # ms)))\<rparr>)
       p (mc_timestamp (last (m # ms)))) p False, w', Filled p fi)"
proof -
  let ?c1 = "c\<lparr>cfs := ofstream_store (cfs c) (cache_file e c p) (concat (map mc_b (m # ms)))\<rparr>"
  obtain io where got: "oreach e stub (c, w, Fetching p fi) (?c1, w', Storing p fi io (m # ms) [] OK)"
    using receive_file[of e stub c w' p fi "m # ms" OK] then_step[OF ostep.answer[OF assms]] by blast
  have "oreach e stub (?c1, w', Storing p fi io (m # ms) [] OK)
      (dirty_set e (time_set e ?c1 p (mc_timestamp (last (m # ms)))) p False, w', Filled p fi)"
    by (rule then_step[OF ostep.closes then_step[OF ostep.records then_step[OF ostep.cleans]]]) simp
  with got show ?thesis by (rule rtranclp_trans)
qed

lemma fetch_steps:
  assumes "download e stub c w p fi = Ret (rc, fi') c' w'"
  shows "oreach e stub (c, w, Fetching p fi) (c', w', Given rc fi')"
proof -
  obtain msgs status w1 where r: "rpc_GetContent stub w p = Some (msgs, status, w1)"
    using assms by (auto simp: download_def split: option.splits)
  show ?thesis
  proof (cases msgs)
    case Nil
    then show ?thesis
      using assms r ostep.no_answer[of stub w p status w1 e c fi] by (auto simp: download_def)
  next
    case (Cons m ms)
    show ?thesis
    proof (cases "mc_file_exists m")
      case False
      have "oreach e stub (c, w1, Missing p fi) (c', w', Given rc fi')"
        using assms r Cons False
        by (intro then_step[OF ostep.marks_local then_step[OF ostep.creates fill_and_open]])
          (simp add: download_def Let_def)
      with then_step[OF ostep.no_file[OF r[unfolded Cons] False]] show ?thesis .
    next
      case True
      show ?thesis
      proof (cases "status = OK")
        case ok: True
        let ?c2 = "dirty_set e (time_set e (c\<lparr>cfs := ofstream_store (cfs c) (cache_file e c p) (concat (map mc_b (m # ms)))\<rparr>)
          p (mc_timestamp (last (m # ms)))) p False"
        have "open_cache_file e ?c2 w1 p fi = Ret (rc, fi') c' w'"
          using assms r Cons True ok by (simp add: download_def Let_def)
        from rtranclp.rtrancl_into_rtrancl[OF fetched_filled[OF r[unfolded Cons ok] True] ostep.opens[OF this]]
        show ?thesis .
      next
        case False
        obtain io where got: "oreach e stub (c, w, Fetching p fi)
            (c\<lparr>cfs := ofstream_store (cfs c) (cache_file e c p) (concat (map mc_b msgs))\<rparr>, w1, Storing p fi io msgs [] status)"
          using receive_file[of e stub c w1 p fi msgs status] then_step[OF ostep.answer[OF r[unfolded Cons] True]] Cons by blast
        show ?thesis
          using assms r Cons True False rtranclp.rtrancl_into_rtrancl[OF got ostep.fails[OF False]]
          by (auto simp: download_def Let_def)
      qed
    qed
  qed
qed

lemma open_steps:
  assumes "afs_open e stub c w p fi = Ret (rc, fi') c' w'"
  shows "oreach e stub (c, w, Asking p fi) (c', w', Given rc fi')"
proof (cases "time_count e c p = 1")
  case False
  then show ?thesis
    using assms by (intro then_step[OF ostep.absent fetch_steps]) (simp_all add: afs_open_def)
next
  case True
  note known = then_step[OF ostep.known[OF True]]
  show ?thesis
  proof (cases "time_get e c p = LOCAL_CREAT_FILE")
    case local: True
    have "open_cache_file e c w p fi = Ret (rc, fi') c' w'"
      using assms True local by (simp add: afs_open_def)
    from known[OF then_step[OF ostep.is_local[OF local] then_step[OF ostep.opens[OF this]]]] show ?thesis by simp
  next
    case False
    obtain sc w1 where r: "rpc_Stat stub w p = Some (sc, w1)"
      using assms True False by (auto simp: afs_open_def split: option.splits)
    note asked = known[OF then_step[OF ostep.not_local[OF False] then_step[OF ostep.stats[OF r]]]]
    show ?thesis
    proof (cases "sc_st_mtim sc = time_get e c p")
      case same: True
      have "open_cache_file e c w1 p fi = Ret (rc, fi') c' w'"
        using assms True False r same by (simp add: afs_open_def)
      from asked[OF then_step[OF ostep.current[OF same] then_step[OF ostep.opens[OF this]]]] show ?thesis by simp
    next
      case other: False
      have "oreach e stub (time_erase e c p, w1, Outdated p fi) (c', w', Given rc fi')"
        using assms True False r other
        by (intro then_step[OF ostep.unlinks fetch_steps]) (simp add: afs_open_def Let_def)
      from asked[OF then_step[OF ostep.outdated[OF other] this]] show ?thesis .
    qed
  qed
qed

subsection \<open>Openings of other files\<close>

fun opener_path :: "opener \<Rightarrow> string option" where
  "opener_path (Asking p fi) = Some p"
| "opener_path (Known p fi) = Some p"
| "opener_path (Checking p fi) = Some p"
| "opener_path (Compared p fi t) = Some p"
| "opener_path (Outdated p fi) = Some p"
| "opener_path (Fetching p fi) = Some p"
| "opener_path (Missing p fi) = Some p"
| "opener_path (Receiving p fi msgs status) = Some p"
| "opener_path (Storing p fi io msgs rest status) = Some p"
| "opener_path (Complete p fi ts) = Some p"
| "opener_path (Creating p fi) = Some p"
| "opener_path (Settled p fi) = Some p"
| "opener_path (Filled p fi) = Some p"
| "opener_path (Given rc fi) = None"

fun stream_of :: "opener \<Rightarrow> nat option" where
  "stream_of (Storing p fi io msgs rest status) = map_option fst io"
| "stream_of _ = None"

definition away :: "client_env \<Rightarrow> string list \<Rightarrow> string \<Rightarrow> fs \<Rightarrow> opener \<Rightarrow> bool" where
  "away e cb p s x \<longleftrightarrow> (\<forall>q. opener_path x = Some q \<longrightarrow> key e q \<noteq> key e p)
     \<and> (\<forall>i. stream_of x = Some i \<longrightarrow> i < fs_next s \<and> node s (cb @ [key e p]) \<noteq> Some i)"

text \<open>A stream that is open on another file stays so when a new file is made under the name.\<close>

lemma away_adopts_none: "away e cb p s x \<Longrightarrow> adopts_none (cb @ [key e p]) s s' \<Longrightarrow> away e cb p s' x"
  by (auto simp: away_def adopts_none_def)

lemma away_apart: "away e cb p s x \<Longrightarrow> apart (cb @ [key e p]) s s' \<Longrightarrow> away e cb p s' x"
  by (rule away_adopts_none[OF _ apart_adopts_none])

definition same_entries :: "client_env \<Rightarrow> string \<Rightarrow> client \<Rightarrow> client \<Rightarrow> bool" where
  "same_entries e p c c' \<longleftrightarrow> time_get e c' p = time_get e c p \<and> time_count e c' p = time_count e c p
     \<and> dirty_get e c' p = dirty_get e c p"

lemma same_entries_cfs [simp]: "same_entries e p c c" "same_entries e p c (c\<lparr>cfs := s\<rparr>)"
  by (simp_all add: same_entries_def)

lemma same_entries_other [simp]:
  assumes "key e q \<noteq> key e p"
  shows "same_entries e p c (time_set e c q v)" "same_entries e p c (time_erase e c q)" "same_entries e p c (dirty_set e c q b)"
  using assms by (simp_all add: same_entries_def)

lemma close_creat_apart:
  assumes "cache_ok c cb"
  shows "cache_ok (c\<lparr>cfs := close_creat (cfs c) (cache_file e c x) mode\<rparr>) cb
    \<and> (q \<noteq> cb @ [key e x] \<longrightarrow> apart q (cfs c) (close_creat (cfs c) (cache_file e c x) mode))"
proof -
  let ?o = "sys_open (cfs c) (cache_file e c x) (O_WRONLY\<lparr>o_creat := True, o_trunc := True\<rparr>) mode"
  have o: "cache_dir (fst ?o) (cache_root c) cb \<and> (q \<noteq> cb @ [key e x] \<longrightarrow> apart q (cfs c) (fst ?o))"
    using assms resolve_cache_file[OF assms] unfolding cache_ok_def by (intro sys_open_apart)
  show ?thesis
  proof (cases ?o)
    case (Pair s r)
    then show ?thesis
      using o apart_trans[OF _ apart_close] by (cases r) (auto simp: close_creat_def cache_ok_def)
  qed
qed

lemma ostep_away:
  assumes "ostep e stub (c, w, x) (c', w', y)" "cache_ok c cb" "away e cb p (cfs c) x"
  shows "cache_ok c' cb \<and> apart (cb @ [key e p]) (cfs c) (cfs c') \<and> away e cb p (cfs c') y \<and> same_entries e p c c'"
proof -
  note dir = assms(2)[unfolded cache_ok_def] and at = resolve_cache_file[OF assms(2)]
  from assms(1) show ?thesis
  proof cases
    case (unlinks q fi)
    then show ?thesis
      using unlink_apart[OF dir at] assms(3) by (auto simp: cache_ok_def away_def)
  next
    case (stream q s r fi msgs status)
    have q: "key e q \<noteq> key e p" using assms(3) stream by (simp add: away_def)
    have o: "cache_dir s (cache_root c) cb" "apart (cb @ [key e p]) (cfs c) s"
      "\<forall>i. r = Inr i \<longrightarrow> node s (cb @ [key e q]) = Some i"
      using open_node_apart[OF dir at stream(5)[unfolded ofstream_open_def]] q by auto
    have "i < fs_next s \<and> node s (cb @ [key e p]) \<noteq> Some i" if "r = Inr i" for i
      using o that q node_less[of s] node_inj[of s] cache_dir_fs[OF o(1)] by blast
    then show ?thesis
      using stream o q by (cases r) (simp_all add: cache_ok_def away_def)
  next
    case (stores q fi i pos msgs m rest status)
    then show ?thesis
      using assms(2,3) by (auto simp: store_at_def cache_ok_def away_def apart_set_data)
  next
    case (creates q fi)
    then show ?thesis
      using close_creat_apart[OF assms(2)] assms(3) by (auto simp: away_def)
  next
    case (opens q fi rc fi')
    then show ?thesis
      using sys_open_apart[OF dir at, of e q "flags fi" 0 "cb @ [key e p]"] assms(3)
      by (auto simp: open_cache_file_zero cache_ok_def away_def split: prod.splits)
  qed (use assms(2,3) in \<open>auto simp: away_def\<close>)
qed

text \<open>Until it opens the copy, an opening gives no open descriptor its name.\<close>

lemma adopts_none_close_creat:
  assumes "wf_fs s"
  shows "adopts_none q s (close_creat s p mode)"
proof (cases "open_node s p (O_WRONLY\<lparr>o_creat := True, o_trunc := True\<rparr>) mode")
  case (Pair s1 r)
  note a = adopts_none_open_node[OF assms Pair, of q]
  have n: "fs_fds s1 = fs_fds s" "fs_next_fd s1 = fs_next_fd s"
    using Pair by (auto simp: open_node_def create_node_def set_data_def split: sum.splits option.splits if_splits)
  have fresh: "fs_fds s (fs_next_fd s) = None"
  proof (rule ccontr)
    assume "fs_fds s (fs_next_fd s) \<noteq> None"
    then show False using assms by (auto simp: wf_fs_def)
  qed
  show ?thesis
  proof (cases r)
    case (Inl err)
    then show ?thesis using a Pair by (simp add: close_creat_def sys_open_def)
  next
    case (Inr i)
    have "fs_fds (close_creat s p mode) = fs_fds s1"
      using Pair Inr n fresh by (auto simp: close_creat_def sys_open_def sys_close_def)
    moreover have "fs_names (close_creat s p mode) = fs_names s1" "fs_next (close_creat s p mode) = fs_next s1"
      using Pair Inr by (auto simp: close_creat_def sys_open_def sys_close_def)
    ultimately have "adopts_none q s1 (close_creat s p mode)"
      by (simp add: adopts_none_def links_def node_def)
    then show ?thesis by (rule adopts_none_trans[OF a])
  qed
qed

lemma ostep_adopts_none:
  assumes "ostep e stub (c, w, x) (c', w', y)" "wf_fs (cfs c)" "\<nexists>rc fi. y = Given rc fi"
  shows "adopts_none q (cfs c) (cfs c')"
  using assms(1)
proof cases
  case (opens q fi rc fi')
  then show ?thesis using assms(3) by blast
next
  case (stream q s r fi msgs status)
  then show ?thesis
    using adopts_none_open_node[OF assms(2)] unfolding ofstream_open_def by simp
qed (auto simp: store_at_def intro: adopts_none_unlink adopts_none_close_creat[OF assms(2)])

end
