(* ===== verification/Client_Race.thy ===== *)
theory Client_Race
  imports Client_Samples Open_Steps
begin

section \<open>Concurrent callbacks of one client\<close>

text \<open>
  \<^verbatim>\<open>main\<close> never hands FUSE the option for a single thread, so callbacks of one client run beside each
  other.  Here \<^verbatim>\<open>afs_release\<close> and \<^verbatim>\<open>afs_write\<close> are split at their calls, and run beside openings, which
  \<open>Open_Steps\<close> has split.  Proved: undisturbed, the steps compute what the callbacks run to their end
  do; a release uploads its copy whole however it interleaves with writes to and openings of other files; a write to the same file that comes after its piece was read
  is acknowledged, marked clean by the release and never uploaded.

  The tables' operations are single steps.  In the source they are not protected either; what the C++
  library does on unsynchronised access is not modelled.
\<close>

subsection \<open>Steps\<close>

datatype thread =
    Resting
  | Releasing string fuse_file_info
  | Fd_closed string
  | Found_dirty string
  | Reading string nat nat "FilepathContent list"
  | Sent_all string "FilepathContent list"
  | Uploaded string Meta
  | Marked string Meta
  | Writing string byte_string int fuse_file_info
  | Written_mark string byte_string int fuse_file_info
  | Opening opener
  | Finished int
  | Ended

text \<open>
  \<open>Reading p i pos msgs\<close> has the stream open at inode \<open>i\<close> of the copy and has sent \<open>msgs\<close>, the bytes
  before \<open>pos\<close>.  When one thread exits, all end.
\<close>

record 'w tstate =
  tclient :: client
  tworld :: 'w
  threads :: "nat \<Rightarrow> thread"

definition set_thread :: "'w tstate \<Rightarrow> nat \<Rightarrow> thread \<Rightarrow> 'w tstate" where
  "set_thread st r x = st\<lparr>threads := (threads st)(r := x)\<rparr>"

definition set_client :: "'w tstate \<Rightarrow> client \<Rightarrow> 'w tstate" where
  "set_client st c = st\<lparr>tclient := c\<rparr>"

definition set_world :: "'w tstate \<Rightarrow> 'w \<Rightarrow> 'w tstate" where
  "set_world st w = st\<lparr>tworld := w\<rparr>"

abbreviation inode_of :: "'w tstate \<Rightarrow> nat \<Rightarrow> inode" where
  "inode_of st i \<equiv> fs_inodes (cfs (tclient st)) i"

abbreviation unread :: "'w tstate \<Rightarrow> nat \<Rightarrow> nat \<Rightarrow> byte_string" where
  "unread st i pos \<equiv> drop pos (i_data (inode_of st i))"

inductive tstep :: "client_env \<Rightarrow> 'w stub \<Rightarrow> 'w tstate \<Rightarrow> 'w tstate \<Rightarrow> bool"
  for e stub where
  closes: "threads st r = Releasing p fi \<Longrightarrow>
    tstep e stub st (set_thread (set_client st ((tclient st)\<lparr>cfs := fst (sys_close (cfs (tclient st)) (fd_of fi))\<rparr>))
      r (Fd_closed p))"
| clean: "threads st r = Fd_closed p \<Longrightarrow> \<not> dirty_get e (tclient st) p \<Longrightarrow>
    tstep e stub st (set_thread st r (Finished 0))"
| dirty: "threads st r = Fd_closed p \<Longrightarrow> dirty_get e (tclient st) p \<Longrightarrow>
    tstep e stub st (set_thread st r (Found_dirty p))"
| exits: "threads st r = Found_dirty p \<Longrightarrow>
    open_node (cfs (tclient st)) (cache_file e (tclient st) p) O_RDONLY 0 = (s, Inl err) \<Longrightarrow>
    tstep e stub st ((set_world st (rpc_Write_killed stub (tworld st) []))\<lparr>threads := (\<lambda>_. Ended)\<rparr>)"
| opens: "threads st r = Found_dirty p \<Longrightarrow>
    open_node (cfs (tclient st)) (cache_file e (tclient st) p) O_RDONLY 0 = (s, Inr i) \<Longrightarrow>
    tstep e stub st (set_thread st r (Reading p i 0 []))"
| no_data: "threads st r = Reading p i pos msgs \<Longrightarrow> i_isdir (inode_of st i) \<Longrightarrow>
    tstep e stub st (set_thread st r (Sent_all p msgs))"
| piece: "threads st r = Reading p i pos msgs \<Longrightarrow> \<not> i_isdir (inode_of st i) \<Longrightarrow>
    BUFSIZE \<le> length (unread st i pos) \<Longrightarrow> rpc_accepts stub (tworld st) (length msgs) \<Longrightarrow>
    tstep e stub st (set_thread st r (Reading p i (pos + BUFSIZE)
      (msgs @ [\<lparr>fc_filepath = p, fc_b = take BUFSIZE (unread st i pos)\<rparr>])))"
| refused: "threads st r = Reading p i pos msgs \<Longrightarrow> \<not> i_isdir (inode_of st i) \<Longrightarrow>
    \<not> rpc_accepts stub (tworld st) (length msgs) \<Longrightarrow>
    tstep e stub st (set_thread st r (Sent_all p msgs))"
| rest: "threads st r = Reading p i pos msgs \<Longrightarrow> \<not> i_isdir (inode_of st i) \<Longrightarrow>
    length (unread st i pos) < BUFSIZE \<Longrightarrow> rpc_accepts stub (tworld st) (length msgs) \<Longrightarrow>
    tstep e stub st (set_thread st r (Sent_all p (msgs @ [\<lparr>fc_filepath = p, fc_b = unread st i pos\<rparr>])))"
| stored: "threads st r = Sent_all p msgs \<Longrightarrow> rpc_Write stub (tworld st) msgs = Some (OK, meta, w) \<Longrightarrow>
    tstep e stub st (set_thread (set_world st w) r (Uploaded p meta))"
| not_stored: "threads st r = Sent_all p msgs \<Longrightarrow> rpc_Write stub (tworld st) msgs = Some (status, meta, w) \<Longrightarrow>
    status \<noteq> OK \<Longrightarrow> tstep e stub st (set_thread (set_world st w) r (Finished EIO))"
| marks_clean: "threads st r = Uploaded p meta \<Longrightarrow>
    tstep e stub st (set_thread (set_client st (dirty_set e (tclient st) p False)) r (Marked p meta))"
| records: "threads st r = Marked p meta \<Longrightarrow>
    tstep e stub st (set_thread (set_client st (time_set e (tclient st) p (meta_timestamp meta))) r (Finished 0))"
| marks_dirty: "threads st r = Writing p buf off fi \<Longrightarrow>
    tstep e stub st (set_thread (set_client st (dirty_set e (tclient st) p True)) r (Written_mark p buf off fi))"
| writes: "threads st r = Written_mark p buf off fi \<Longrightarrow>
    sys_pwrite (cfs (tclient st)) (fd_of fi) buf off = (s, res) \<Longrightarrow>
    tstep e stub st (set_thread (set_client st ((tclient st)\<lparr>cfs := s\<rparr>)) r
      (Finished (case res of Inl err \<Rightarrow> - err | Inr n \<Rightarrow> int_of_ssize n)))"
| advances: "threads st r = Opening x \<Longrightarrow> ostep e stub (tclient st, tworld st, x) (c, w, y) \<Longrightarrow>
    tstep e stub st (set_thread (set_client (set_world st w) c) r (Opening y))"
| elsewhere: "tstep e stub st (set_world st w)"

inductive treach :: "client_env \<Rightarrow> 'w stub \<Rightarrow> 'w tstate \<Rightarrow> 'w tstate \<Rightarrow> bool"
  for e stub st0 where
  start: "treach e stub st0 st0"
| step: "treach e stub st0 st \<Longrightarrow> tstep e stub st st' \<Longrightarrow> treach e stub st0 st'"

lemma treach_trans: "treach e stub b c \<Longrightarrow> treach e stub a b \<Longrightarrow> treach e stub a c"
  by (induction rule: treach.induct) (auto intro: treach.step)

lemma set_fields [simp]:
  "tclient (set_thread st r x) = tclient st" "tworld (set_thread st r x) = tworld st"
  "threads (set_thread st r x) = (threads st)(r := x)"
  "tclient (set_client st c) = c" "tworld (set_client st c) = tworld st" "threads (set_client st c) = threads st"
  "tclient (set_world st w) = tclient st" "tworld (set_world st w) = w" "threads (set_world st w) = threads st"
  by (simp_all add: set_thread_def set_client_def set_world_def)

lemma set_order [simp]:
  "set_thread (set_thread st r x) r y = set_thread st r y"
  "set_client (set_thread st r x) c = set_thread (set_client st c) r x"
  "set_client (set_client st c) c' = set_client st c'"
  "set_world (set_thread st r x) w = set_thread (set_world st w) r x"
  "set_world (set_client st c) w = set_client (set_world st w) c"
  "set_world (set_world st w) w' = set_world st w'"
  "set_world st (tworld st) = st" "set_client st (tclient st) = st"
  "set_client (set_world st w) (tclient st) = set_world st w"
  by (simp_all add: set_thread_def set_client_def set_world_def)

subsection \<open>The callbacks are their steps\<close>

lemma send_copy:
  assumes "threads st r = Reading p i pos msgs" "\<not> i_isdir (inode_of st i)"
  shows "treach e stub st (set_thread st r (Sent_all p
    (msgs @ map (\<lambda>b. \<lparr>fc_filepath = p, fc_b = b\<rparr>)
       (send_chunks BUFSIZE (rpc_accepts stub (tworld st)) (length msgs) (unread st i pos)))))"
  using assms
proof (induction "length (unread st i pos)" arbitrary: st pos msgs rule: less_induct)
  case less
  let ?d = "unread st i pos"
  let ?m = "\<lambda>b. \<lparr>fc_filepath = p, fc_b = b\<rparr>"
  show ?case
  proof (cases "rpc_accepts stub (tworld st) (length msgs)")
    case acc: True
    show ?thesis
    proof (cases "length ?d < BUFSIZE")
      case True
      then have "send_chunks BUFSIZE (rpc_accepts stub (tworld st)) (length msgs) ?d = [?d]"
        using acc by (subst send_chunks.simps) simp
      then show ?thesis
        using treach.step[OF treach.start tstep.rest[OF less.prems True acc]] by simp
    next
      case False
      let ?st = "set_thread st r (Reading p i (pos + BUFSIZE) (msgs @ [?m (take BUFSIZE ?d)]))"
      have b: "0 < BUFSIZE" by (simp add: BUFSIZE_def)
      have one: "treach e stub st ?st"
        by (rule treach.step[OF treach.start tstep.piece[OF less.prems _ acc]]) (use False in simp)
      have "treach e stub ?st (set_thread ?st r (Sent_all p ((msgs @ [?m (take BUFSIZE ?d)])
          @ map ?m (send_chunks BUFSIZE (rpc_accepts stub (tworld ?st)) (length (msgs @ [?m (take BUFSIZE ?d)]))
              (unread ?st i (pos + BUFSIZE))))))"
        by (rule less.hyps) (use less.prems(2) b False in auto)
      from treach_trans[OF this one] show ?thesis
        using False b acc by (subst send_chunks.simps) (simp add: add.commute)
    qed
  next
    case False
    then have "send_chunks BUFSIZE (rpc_accepts stub (tworld st)) (length msgs) ?d = []"
      by (subst send_chunks.simps) simp
    then show ?thesis
      using treach.step[OF treach.start tstep.refused[OF less.prems False]] by simp
  qed
qed

text \<open>From the closed descriptor of a dirty file to the upload's last message.\<close>

lemma release_to_sent:
  assumes "threads st r = Releasing p fi" "dirty_get e (tclient st) p"
    and "ifstream_read (fst (sys_close (cfs (tclient st)) (fd_of fi))) (cache_file e (tclient st) p) = Some content"
  shows "treach e stub st (set_thread (set_client st ((tclient st)\<lparr>cfs := fst (sys_close (cfs (tclient st)) (fd_of fi))\<rparr>))
    r (Sent_all p (upload_messages stub (tworld st) p content)))"
proof -
  let ?c = "(tclient st)\<lparr>cfs := fst (sys_close (cfs (tclient st)) (fd_of fi))\<rparr>"
  let ?st = "\<lambda>x. set_thread (set_client st ?c) r x"
  obtain cp i where o: "open_node (cfs ?c) (cache_file e ?c p) O_RDONLY 0 = (cfs ?c, Inr i)"
      "content = (if i_isdir (fs_inodes (cfs ?c) i) then None else Some (i_data (fs_inodes (cfs ?c) i)))"
    using assms(3)
    by (cases rule: open_rdonly_cases[of "cfs ?c" "cache_file e ?c p"]) (auto simp: ifstream_read_def)
  have "treach e stub st (?st (Fd_closed p))"
    by (rule treach.step[OF treach.start tstep.closes[OF assms(1)]])
  then have "treach e stub st (set_thread (?st (Fd_closed p)) r (Found_dirty p))"
    by (rule treach.step[OF _ tstep.dirty]) (use assms(2) in simp_all)
  moreover have "tstep e stub (?st (Found_dirty p)) (set_thread (?st (Found_dirty p)) r (Reading p i 0 []))"
    by (rule tstep.opens) (use o(1) in simp_all)
  ultimately have r: "treach e stub st (?st (Reading p i 0 []))"
    unfolding set_order by (rule treach.step)
  show ?thesis
  proof (cases "i_isdir (fs_inodes (cfs ?c) i)")
    case True
    then have "treach e stub st (set_thread (?st (Reading p i 0 [])) r (Sent_all p []))"
      by (intro treach.step[OF r tstep.no_data]) simp_all
    then show ?thesis using True o(2) by (simp add: upload_messages_def)
  next
    case False
    from treach_trans[OF send_copy[of "?st (Reading p i 0 [])" r p i 0 "[]" e stub] r] show ?thesis
      using False o(2) by (simp add: upload_messages_def)
  qed
qed

lemma sent_to_finished:
  assumes "threads st r = Sent_all p msgs" "rpc_Write stub (tworld st) msgs = Some (OK, meta, w')"
  shows "treach e stub st (set_thread (set_client (set_world st w')
    (time_set e (dirty_set e (tclient st) p False) p (meta_timestamp meta))) r (Finished 0))"
proof -
  let ?st = "\<lambda>c x. set_thread (set_client (set_world st w') c) r x"
  let ?c1 = "dirty_set e (tclient st) p False"
  let ?c2 = "time_set e ?c1 p (meta_timestamp meta)"
  have "tstep e stub st (?st (tclient st) (Uploaded p meta))"
    using tstep.stored[OF assms, of e] by simp
  moreover have "tstep e stub (?st (tclient st) (Uploaded p meta)) (?st ?c1 (Marked p meta))"
    using tstep.marks_clean[of "?st (tclient st) (Uploaded p meta)" r p meta e stub] by simp
  moreover have "tstep e stub (?st ?c1 (Marked p meta)) (?st ?c2 (Finished 0))"
    using tstep.records[of "?st ?c1 (Marked p meta)" r p meta e stub] by simp
  ultimately show ?thesis
    using treach.step[OF treach.step[OF treach.step[OF treach.start]]] by blast
qed

text \<open>
  Undisturbed, the steps of a release compute what \<^verbatim>\<open>afs_release\<close> run to its end does: the same
  result, client and world.
\<close>

lemma release_steps_compose:
  assumes "threads st r = Releasing p fi" "failure_point e = 3"
    and "afs_release e stub (tclient st) (tworld st) p fi = Ret rc c' w'"
  shows "treach e stub st (set_thread (set_client (set_world st w') c') r (Finished rc))"
proof -
  let ?c = "(tclient st)\<lparr>cfs := fst (sys_close (cfs (tclient st)) (fd_of fi))\<rparr>"
  let ?st = "\<lambda>x. set_thread (set_client st ?c) r x"
  show ?thesis
  proof (cases "dirty_get e (tclient st) p")
    case False
    have one: "treach e stub st (?st (Fd_closed p))"
      by (rule treach.step[OF treach.start tstep.closes[OF assms(1)]])
    have "tstep e stub (?st (Fd_closed p)) (set_thread (?st (Fd_closed p)) r (Finished 0))"
      by (rule tstep.clean) (use False in simp_all)
    from treach.step[OF one this] show ?thesis
      using assms(3) False by (auto simp: afs_release_def Let_def)
  next
    case True
    obtain content where c: "ifstream_read (cfs ?c) (cache_file e ?c p) = Some content"
      using assms(3) True by (auto simp: afs_release_def Let_def split: option.splits)
    let ?msgs = "upload_messages stub (tworld st) p content"
    have sent: "treach e stub st (?st (Sent_all p ?msgs))"
      using release_to_sent[OF assms(1) True] c by simp
    obtain status meta where w: "rpc_Write stub (tworld st) ?msgs = Some (status, meta, w')"
      using assms True c by (auto simp: afs_release_def Let_def split: option.splits if_splits)
    show ?thesis
    proof (cases "status = OK")
      case ok: True
      have "rpc_Write stub (tworld (?st (Sent_all p ?msgs))) ?msgs = Some (OK, meta, w')"
        using w ok by simp
      from treach_trans[OF sent_to_finished[OF _ this, of r p e] sent] show ?thesis
        using assms True c w ok by (simp add: afs_release_def Let_def)
    next
      case False
      have "tstep e stub (?st (Sent_all p ?msgs)) (set_thread (set_world (?st (Sent_all p ?msgs)) w') r (Finished EIO))"
        by (rule tstep.not_stored[OF _ _ False]) (use w in simp_all)
      from treach.step[OF sent this] show ?thesis
        using assms True c w False by (auto simp: afs_release_def Let_def)
    qed
  qed
qed

lemma write_to_finished:
  assumes "threads st r = Writing p buf off fi" "afs_write e (tclient st) (tworld st) p buf off fi = Ret rc c' w'"
  shows "treach e stub st (set_thread (set_client st c') r (Finished rc)) \<and> w' = tworld st"
proof -
  let ?c = "dirty_set e (tclient st) p True"
  let ?st = "set_thread (set_client st ?c) r (Written_mark p buf off fi)"
  obtain s res where w: "sys_pwrite (cfs ?c) (fd_of fi) buf off = (s, res)"
    by (cases "sys_pwrite (cfs ?c) (fd_of fi) buf off")
  have "tstep e stub ?st (set_thread (set_client ?st ((tclient ?st)\<lparr>cfs := s\<rparr>)) r
      (Finished (case res of Inl err \<Rightarrow> - err | Inr n \<Rightarrow> int_of_ssize n)))"
    by (rule tstep.writes) (use w in simp_all)
  from treach.step[OF treach.step[OF treach.start tstep.marks_dirty[OF assms(1)]] this] show ?thesis
    using assms(2) w by (auto simp: afs_write_def Let_def split: sum.splits)
qed

subsection \<open>A release beside writes to other files\<close>

definition copy_at :: "client_env \<Rightarrow> string list \<Rightarrow> string \<Rightarrow> nat \<Rightarrow> byte_string \<Rightarrow> client \<Rightarrow> bool" where
  "copy_at e cb p i d c \<longleftrightarrow> cache_ok c cb
     \<and> node (cfs c) (cb @ [key e p]) = Some i \<and> i_data (fs_inodes (cfs c) i) = d \<and> \<not> i_isdir (fs_inodes (cfs c) i)"

fun sends_copy :: "client_env \<Rightarrow> 'w stub \<Rightarrow> string list \<Rightarrow> string \<Rightarrow> nat \<Rightarrow> byte_string \<Rightarrow> fs \<Rightarrow> thread \<Rightarrow> bool" where
  "sends_copy e stub cb p i d s (Reading q j pos msgs) =
     (q = p \<longrightarrow> j = i \<and> concat (map fc_b msgs) = take pos d \<and> (\<forall>m \<in> set msgs. fc_filepath m = p))"
| "sends_copy e stub cb p i d s (Sent_all q msgs) =
     (q = p \<longrightarrow> (\<exists>k. concat (map fc_b msgs) = take k d) \<and> (\<forall>m \<in> set msgs. fc_filepath m = p)
        \<and> ((\<forall>w n. rpc_accepts stub w n) \<longrightarrow> concat (map fc_b msgs) = d))"
| "sends_copy e stub cb p i d s (Writing q buf off fi) = (\<not> links s (fd_of fi) (cb @ [key e p]))"
| "sends_copy e stub cb p i d s (Written_mark q buf off fi) = (\<not> links s (fd_of fi) (cb @ [key e p]))"
| "sends_copy e stub cb p i d s (Opening x) = away e cb p s x"
| "sends_copy e stub cb p i d s _ = True"

lemma sends_copy_step:
  assumes "sends_copy e stub cb p i d s x" "apart (cb @ [key e p]) s s'"
  shows "sends_copy e stub cb p i d s' x"
  using assms by (cases x) (auto simp: away_apart, auto simp: apart_def)

definition copy_inv :: "client_env \<Rightarrow> 'w stub \<Rightarrow> string list \<Rightarrow> string \<Rightarrow> nat \<Rightarrow> byte_string \<Rightarrow> 'w tstate \<Rightarrow> bool" where
  "copy_inv e stub cb p i d st \<longleftrightarrow> copy_at e cb p i d (tclient st)
     \<and> (\<forall>r. sends_copy e stub cb p i d (cfs (tclient st)) (threads st r))"

lemma copy_at_frame [simp]:
  "copy_at e cb p i d (dirty_set e c q b) = copy_at e cb p i d c"
  "copy_at e cb p i d (time_set e c q v) = copy_at e cb p i d c"
  by (simp_all add: copy_at_def)

lemma copy_at_apart:
  assumes "copy_at e cb p i d c" "cache_ok c' cb" "apart (cb @ [key e p]) (cfs c) (cfs c')"
  shows "copy_at e cb p i d c'"
  using assms by (simp add: copy_at_def apart_def)

lemma copy_inv_thread:
  assumes "copy_inv e stub cb p i d st" "cache_ok c cb" "apart (cb @ [key e p]) (cfs (tclient st)) (cfs c)"
    "sends_copy e stub cb p i d (cfs c) x"
  shows "copy_inv e stub cb p i d (set_thread (set_client st c) r x)"
proof -
  have "sends_copy e stub cb p i d (cfs c) (threads st r')" for r'
    by (rule sends_copy_step[OF _ assms(3)]) (use assms(1) in \<open>simp add: copy_inv_def\<close>)
  moreover have "copy_at e cb p i d c"
    using copy_at_apart[OF _ assms(2,3)] assms(1) by (simp add: copy_inv_def)
  ultimately show ?thesis using assms(4) by (simp add: copy_inv_def)
qed

lemma copy_inv_only:
  "copy_inv e stub cb p i d st \<Longrightarrow> sends_copy e stub cb p i d (cfs (tclient st)) x \<Longrightarrow>
     copy_inv e stub cb p i d (set_thread st r x)"
  by (simp add: copy_inv_def)

lemma pwrite_apart:
  assumes "cache_ok c cb" "\<not> links (cfs c) fd q" "sys_pwrite (cfs c) fd buf off = (s, res)"
  shows "cache_ok (c\<lparr>cfs := s\<rparr>) cb \<and> apart q (cfs c) s"
proof (cases "s = cfs c")
  case False
  then obtain f d' where f: "fs_fds (cfs c) fd = Some f" "s = set_data (cfs c) (of_ino f) d'"
    using assms(3) by (auto simp: sys_pwrite_def Let_def split: option.splits if_splits)
  then have "node (cfs c) q \<noteq> Some (of_ino f)"
    using assms(2) by (simp add: links_def)
  then show ?thesis
    using f(2) assms(1) by (simp add: cache_ok_def apart_set_data)
qed (use assms(1) in simp)

lemma copy_step:
  assumes "tstep e stub st st'" "copy_inv e stub cb p i d st"
  shows "copy_inv e stub cb p i d st'"
proof -
  have at: "copy_at e cb p i d (tclient st)"
    and sends: "sends_copy e stub cb p i d (cfs (tclient st)) (threads st r)" for r
    using assms(2) by (simp_all add: copy_inv_def)
  then have ok: "cache_ok (tclient st) cb" by (simp add: copy_at_def)
  note only = copy_inv_only[OF assms(2)] and changed = copy_inv_thread[OF assms(2)]
  from assms(1) show ?thesis
  proof cases
    case (closes r q fi)
    show ?thesis
      unfolding closes(1) by (rule changed) (use ok in \<open>simp_all add: cache_ok_def\<close>)
  next
    case (opens r q s j)
    have "q = p \<Longrightarrow> j = i"
      using opens(3) at resolve_cache_file[OF ok, of e p]
      by (cases rule: open_node_cases) (auto simp: copy_at_def O_RDONLY_def)
    then show ?thesis unfolding opens(1) by (intro only) simp
  next
    case (no_data r q j pos msgs)
    then show ?thesis using sends[of r] at unfolding no_data(1) by (intro only) (auto simp: copy_at_def)
  next
    case (piece r q j pos msgs)
    then show ?thesis using sends[of r] at unfolding piece(1) by (intro only) (auto simp: copy_at_def take_add)
  next
    case (refused r q j pos msgs)
    then show ?thesis using sends[of r] at unfolding refused(1) by (intro only) (auto simp: copy_at_def)
  next
    case (rest r q j pos msgs)
    have "\<exists>k. d = take k d" by (rule exI[of _ "length d"]) simp
    then show ?thesis
      using rest sends[of r] at unfolding rest(1) by (intro only) (auto simp: copy_at_def)
  next
    case (marks_clean r q meta)
    show ?thesis unfolding marks_clean(1) by (rule changed) (use ok in simp_all)
  next
    case (records r q meta)
    show ?thesis unfolding records(1) by (rule changed) (use ok in simp_all)
  next
    case (marks_dirty r q buf off fi)
    show ?thesis unfolding marks_dirty(1) by (rule changed) (use ok sends[of r] marks_dirty(2) in simp_all)
  next
    case (writes r q buf off fi s res)
    have "\<not> links (cfs (tclient st)) (fd_of fi) (cb @ [key e p])"
      using sends[of r] writes(2) by simp
    from pwrite_apart[OF ok this writes(3)] show ?thesis
      unfolding writes(1) by (intro changed) simp_all
  next
    case (advances r x c w y)
    have "away e cb p (cfs (tclient st)) x"
      using sends[of r] advances(2) by simp
    from ostep_away[OF advances(3) ok this] have "copy_inv e stub cb p i d (set_thread (set_client st c) r (Opening y))"
      by (intro changed) simp_all
    then show ?thesis unfolding advances(1) by (simp add: copy_inv_def)
  next
    case (exits r q s err)
    then show ?thesis using at by (simp add: copy_inv_def)
  next
    case (elsewhere w)
    then show ?thesis using assms(2) by (simp add: copy_inv_def)
  qed (use only assms(2) in \<open>auto simp: copy_inv_def\<close>)
qed

lemma copy_reach: "treach e stub st0 st \<Longrightarrow> copy_inv e stub cb p i d st0 \<Longrightarrow> copy_inv e stub cb p i d st"
  by (induction rule: treach.induct) (auto intro: copy_step)

text \<open>
  The callbacks that begin: releases, writes through descriptors that are not the copy's, and openings
  of other files.
\<close>

fun begins :: "client_env \<Rightarrow> string list \<Rightarrow> string \<Rightarrow> fs \<Rightarrow> thread \<Rightarrow> bool" where
  "begins e cb p s Resting = True"
| "begins e cb p s (Releasing q fi) = True"
| "begins e cb p s (Writing q buf off fi) = (\<not> links s (fd_of fi) (cb @ [key e p]))"
| "begins e cb p s (Opening (Asking q fi)) = (key e q \<noteq> key e p)"
| "begins e cb p s _ = False"


subsection \<open>A write during the upload of its file\<close>

text \<open>
  C16: a program writes to a file through a second descriptor while the release of the first is
  uploading, after the release has read the copy.  The write returns its length; the release then
  marks the file clean and records the server's new time.  The written bytes are in the copy only:
  closing the second descriptor uploads nothing and returns 0, and the copy, having the server's
  time, is what later opens take.
\<close>

theorem write_during_upload_lost:
  assumes st: "tclient st = c" "tworld st = w" "threads st r = Releasing p fi" "threads st v = Writing p buf off fi'" "r \<noteq> v"
    and c: "cache_ok c cb" "dirty_get e c p" "cached e c cb p = Some (File d t)"
    and w: "world_up sb w" "world_file sb w p \<noteq> None \<or> world_free sb w p"
    and fi': "open_on e c cb p fi'" "fd_of fi' \<noteq> fd_of fi" "o_write (flags fi')" "\<not> o_append (flags fi')"
    and buf: "0 \<le> off" "buf \<noteq> []" "length buf < 2 ^ 31"
  shows "\<exists>st' t' c''. treach e (server_stub dg junk) st st'
    \<and> threads st' r = Finished 0 \<and> threads st' v = Finished (int (length buf))
    \<and> cached e (tclient st') cb p = Some (File (put_bytes d (nat off) buf) t') \<and> \<not> dirty_get e (tclient st') p
    \<and> world_file sb (tworld st') p = Some (d, world_now w) \<and> time_get e (tclient st') p = timespec_bytes (world_now w)
    \<and> afs_release e (server_stub dg junk) (tclient st') (tworld st') p fi' = Ret 0 c'' (tworld st')"
proof -
  let ?stub = "server_stub dg junk"
  let ?c1 = "c\<lparr>cfs := fst (sys_close (cfs c) (fd_of fi))\<rparr>"
  let ?msgs = "upload_messages ?stub w p (Some d)"
  let ?st1 = "set_thread (set_client st ?c1) r (Sent_all p ?msgs)"
  have s1: "treach e ?stub st ?st1"
    using release_to_sent[of st r p fi e "Some d" ?stub] st c(2) link.release_file[OF c(1,3)] by simp
  have "open_on e ?c1 cb p fi'"
    using fi'(1,2) by (auto simp: open_on_def fd_at_def) (simp add: sys_close_def)
  moreover have "cached e ?c1 cb p = Some (File d t)"
    using c(3) by (simp add: cached_def)
  ultimately obtain s where wr: "afs_write e ?c1 w p buf off fi' = Ret (int (length buf)) ((dirty_set e ?c1 p True)\<lparr>cfs := s\<rparr>) w"
    "cached e ((dirty_set e ?c1 p True)\<lparr>cfs := s\<rparr>) cb p = Some (File (put_bytes d (nat off) buf) (fs_now (cfs ?c1)))"
    using afs_write_copy[OF link.release_closed[OF c(1)] _ _ fi'(3,4) buf, of e "fd_of fi" p d t w] by metis
  let ?c2 = "(dirty_set e ?c1 p True)\<lparr>cfs := s\<rparr>"
  let ?st2 = "set_thread (set_client ?st1 ?c2) v (Finished (int (length buf)))"
  have s2: "treach e ?stub ?st1 ?st2"
    using write_to_finished[of ?st1 v p buf off fi' e "int (length buf)" ?c2 w ?stub] st wr(1) by simp
  note u = link.upload_messages_ok[OF w(1), of dg junk p d]
  obtain meta w' where up: "rpc_Write ?stub w ?msgs = Some (OK, meta, w')"
    "meta_timestamp meta = timespec_bytes (world_now w)"
    "world_file sb w' = (\<lambda>q. if world_same sb w p q then Some (d, world_now w) else world_file sb w q)"
    using link_write[OF w u(1,2), of dg junk, unfolded u(3)] by blast
  let ?c3 = "time_set e (dirty_set e ?c2 p False) p (meta_timestamp meta)"
  let ?st3 = "set_thread (set_client (set_world ?st2 w') ?c3) r (Finished 0)"
  have s3: "treach e ?stub ?st2 ?st3"
    using sent_to_finished[of ?st2 r p ?msgs ?stub meta w' e] up(1) st(2,5) by simp
  have "treach e ?stub st ?st3"
    by (rule treach_trans[OF s3 treach_trans[OF s2 s1]])
  moreover have "cached e ?c3 cb p = Some (File (put_bytes d (nat off) buf) (fs_now (cfs ?c1)))"
    using wr(2) by simp
  moreover have "world_file sb w' p = Some (d, world_now w)"
    using up(3) link_same_refl[OF w(2)] by simp
  moreover have "\<not> dirty_get e ?c3 p" "time_get e ?c3 p = timespec_bytes (world_now w)"
    using up(2) by simp_all
  moreover note release_clean[OF calculation(4), of ?stub w' fi']
  ultimately show ?thesis
    using st(5)
    by (intro exI[of _ ?st3] exI[of _ "fs_now (cfs ?c1)"] exI[of _ "?c3\<lparr>cfs := fst (sys_close (cfs ?c3) (fd_of fi'))\<rparr>"])
      (simp add: conj_commute)
qed

subsection \<open>Witnesses\<close>

definition race_client :: client where
  "race_client = dirty_set sample_env open_client ''/f'' True"

lemma race_client:
  "cache_ok race_client []" "open_on sample_env race_client [] ''/f'' open_fi" "dirty_get sample_env race_client ''/f''"
  "cached sample_env race_client [] ''/f'' = Some (File ''hello'' sample_clock)"
  using open_client by (simp_all add: race_client_def open_on_def)

lemma race_fds: "fd_of open_fi = 3" "fd_of sample_fi = 0"
  by (simp add: open_fi_def fd_of_fh) (simp add: fd_of_def sample_fi_def)

definition sample_race :: "(nat \<Rightarrow> thread) \<Rightarrow> server option tstate" where
  "sample_race ths = \<lparr>tclient = race_client, tworld = sample_world, threads = ths\<rparr>"

lemma sample_race [simp]:
  "tclient (sample_race ths) = race_client" "tworld (sample_race ths) = sample_world" "threads (sample_race ths) = ths"
  by (simp_all add: sample_race_def)


theorem write_during_upload_witness:
  "\<exists>st t. treach sample_env (server_stub sample_sha sample_clock)
      (sample_race ((\<lambda>_. Resting)(1 := Releasing ''/f'' sample_fi, 2 := Writing ''/f'' ''J'' 0 open_fi))) st
    \<and> threads st 2 = Finished 1 \<and> \<not> dirty_get sample_env (tclient st) ''/f''
    \<and> cached sample_env (tclient st) [] ''/f'' = Some (File ''Jello'' t)
    \<and> world_file [] (tworld st) ''/f'' = Some (''hello'', sample_clock)"
proof -
  let ?st0 = "sample_race ((\<lambda>_. Resting)(1 := Releasing ''/f'' sample_fi, 2 := Writing ''/f'' ''J'' 0 open_fi))"
  have fl: "o_write (flags open_fi)" "\<not> o_append (flags open_fi)"
    by (simp_all add: open_fi_def sample_fields)
  have fds: "fd_of open_fi \<noteq> fd_of sample_fi" by (simp add: race_fds)
  from write_during_upload_lost[of ?st0 race_client sample_world 1 "''/f''" sample_fi 2 "''J''" 0 open_fi,
      OF _ _ _ _ _ race_client(1,3,4) sample_world_up(1) sample_known race_client(2) fds fl, of sample_sha sample_clock]
  show ?thesis unfolding sample_world_now by (auto simp: put_bytes_def)
qed

end
