(* ===== verification/Open_Race.thy ===== *)
theory Open_Race
  imports Client_Race
begin

section \<open>Openings beside other callbacks\<close>

text \<open>
  Openings in the threads of \<open>Client_Race\<close>.  Proved: undisturbed, the steps of an opening compute
  \<^verbatim>\<open>afs_open\<close>; beside callbacks on other files an opening comes to open either the copy it found or all
  the bytes of one download under its time; of two openings of one file that is not cached the second
  empties the copy the first has handed out, and a write to it in between is lost.
\<close>

subsection \<open>The callback is its steps\<close>

lemma oreach_threads:
  assumes "oreach e stub (c, w, x) (c', w', y)" "threads st r = Opening x" "tclient st = c" "tworld st = w"
  shows "treach e stub st (set_thread (set_client (set_world st w') c') r (Opening y))"
  using assms
proof (induction "(c, w, x)" arbitrary: c w x st rule: converse_rtranclp_induct)
  case base
  then have "set_thread (set_client (set_world st w') c') r (Opening y) = st"
    by (simp add: set_thread_def set_client_def set_world_def fun_upd_idem)
  then show ?case by (simp add: treach.start)
next
  case (step z)
  obtain c1 w1 x1 where z: "z = (c1, w1, x1)" by (cases z)
  let ?st = "set_thread (set_client (set_world st w1) c1) r (Opening x1)"
  have "tstep e stub st ?st"
    by (rule tstep.advances[OF step.prems(1)]) (use step z in simp)
  from treach_trans[OF step.hyps(3)[OF z, of ?st] treach.step[OF treach.start this]] show ?case
    by simp
qed


subsection \<open>Beside callbacks on other files\<close>

definition content :: "fs \<Rightarrow> string list \<Rightarrow> byte_string option" where
  "content s q = map_option (\<lambda>i. i_data (fs_inodes s i)) (node s q)"

lemma content_apart: "apart q s s' \<Longrightarrow> content s' q = content s q"
  by (cases "node s q") (simp_all add: content_def apart_def)

definition answered :: "'w stub \<Rightarrow> string \<Rightarrow> MetaContent list \<Rightarrow> status \<Rightarrow> bool" where
  "answered stub p msgs status \<longleftrightarrow>
     (\<exists>w w' m ms. rpc_GetContent stub w p = Some (msgs, status, w') \<and> msgs = m # ms \<and> mc_file_exists m)"

definition answered_none :: "'w stub \<Rightarrow> string \<Rightarrow> bool" where
  "answered_none stub p \<longleftrightarrow>
     (\<exists>w w' m ms status. rpc_GetContent stub w p = Some (m # ms, status, w') \<and> \<not> mc_file_exists m)"

definition server_time :: "'w stub \<Rightarrow> string \<Rightarrow> string \<Rightarrow> bool" where
  "server_time stub p t \<longleftrightarrow> (\<exists>w w' sc. rpc_Stat stub w p = Some (sc, w') \<and> sc_st_mtim sc = t)"

definition fetched :: "client_env \<Rightarrow> 'w stub \<Rightarrow> string list \<Rightarrow> string \<Rightarrow> client \<Rightarrow> bool" where
  "fetched e stub cb p c \<longleftrightarrow>
     (\<exists>msgs. answered stub p msgs OK \<and> content (cfs c) (cb @ [key e p]) = Some (concat (map mc_b msgs))
        \<and> time_count e c p = 1 \<and> time_get e c p = mc_timestamp (last msgs))
     \<or> (answered_none stub p \<and> content (cfs c) (cb @ [key e p]) = Some []
        \<and> time_count e c p = 1 \<and> time_get e c p = LOCAL_CREAT_FILE)"

definition usable :: "client_env \<Rightarrow> 'w stub \<Rightarrow> string \<Rightarrow> client \<Rightarrow> bool" where
  "usable e stub p c \<longleftrightarrow> time_count e c p = 1
     \<and> (time_get e c p = LOCAL_CREAT_FILE \<or> server_time stub p (time_get e c p))"

definition as_before :: "client_env \<Rightarrow> string list \<Rightarrow> string \<Rightarrow> client \<Rightarrow> client \<Rightarrow> bool" where
  "as_before e cb p c0 c \<longleftrightarrow> content (cfs c) (cb @ [key e p]) = content (cfs c0) (cb @ [key e p]) \<and> same_entries e p c0 c"

text \<open>What an opening has achieved when it has reached a place.\<close>

fun achieved :: "client_env \<Rightarrow> 'w stub \<Rightarrow> string list \<Rightarrow> string \<Rightarrow> client \<Rightarrow> client \<Rightarrow> opener \<Rightarrow> bool" where
  "achieved e stub cb p c0 c (Asking q fi) = as_before e cb p c0 c"
| "achieved e stub cb p c0 c (Known q fi) = (as_before e cb p c0 c \<and> time_count e c0 p = 1)"
| "achieved e stub cb p c0 c (Checking q fi) = (as_before e cb p c0 c \<and> time_count e c0 p = 1)"
| "achieved e stub cb p c0 c (Compared q fi t) =
     (as_before e cb p c0 c \<and> time_count e c0 p = 1 \<and> server_time stub p t)"
| "achieved e stub cb p c0 c (Missing q fi) = answered_none stub p"
| "achieved e stub cb p c0 c (Creating q fi) =
     (answered_none stub p \<and> time_count e c p = 1 \<and> time_get e c p = LOCAL_CREAT_FILE)"
| "achieved e stub cb p c0 c (Receiving q fi msgs status) = answered stub p msgs status"
| "achieved e stub cb p c0 c (Storing q fi io msgs rest status) =
     (answered stub p msgs status \<and> (\<exists>i before. io = Some (i, length (concat (map mc_b before))) \<and> msgs = before @ rest
        \<and> node (cfs c) (cb @ [key e p]) = Some i \<and> i_data (fs_inodes (cfs c) i) = concat (map mc_b before)))"
| "achieved e stub cb p c0 c (Complete q fi ts) =
     (\<exists>msgs. answered stub p msgs OK \<and> ts = mc_timestamp (last msgs)
        \<and> content (cfs c) (cb @ [key e p]) = Some (concat (map mc_b msgs)))"
| "achieved e stub cb p c0 c (Settled q fi) = fetched e stub cb p c"
| "achieved e stub cb p c0 c (Filled q fi) =
     (as_before e cb p c0 c \<and> usable e stub p c0 \<or> fetched e stub cb p c \<and> \<not> dirty_get e c p)"
| "achieved e stub cb p c0 c _ = True"

lemma achieved_apart:
  assumes "achieved e stub cb p c0 c x" "apart (cb @ [key e p]) (cfs c) (cfs c')" "same_entries e p c c'"
  shows "achieved e stub cb p c0 c' x"
proof -
  have "as_before e cb p c0 c' = as_before e cb p c0 c" "fetched e stub cb p c' = fetched e stub cb p c"
    using assms(3) content_apart[OF assms(2)] by (simp_all add: as_before_def fetched_def same_entries_def)
  then show ?thesis
    using assms content_apart[OF assms(2)]
    by (cases x) (auto simp: same_entries_def, auto simp: apart_def)
qed

lemma made_empty:
  assumes "cache_ok c cb"
  shows "content (close_creat (cfs c) (cache_file e c p) mode) (cb @ [key e p]) = Some []"
proof -
  let ?q = "cb @ [key e p]"
  let ?fl = "O_WRONLY\<lparr>o_creat := True, o_trunc := True\<rparr>"
  have dir: "cache_dir (cfs c) (cache_root c) cb" using assms by (simp add: cache_ok_def)
  note at = resolve_cache_file[OF assms, of e p]
  have fl: "\<not> o_excl ?fl" "o_creat ?fl" "o_trunc ?fl" by (simp_all add: O_WRONLY_def O_RDONLY_def)
  have nd: "node (cfs c) ?q = Some j \<Longrightarrow> \<not> i_isdir (fs_inodes (cfs c) j)" for j
    using cache_no_dir[OF dir, of "sha256 e" p] by (simp add: is_dir_inode)
  obtain s i where o: "open_node (cfs c) (cache_file e c p) ?fl mode = (s, Inr i)"
    using at fl nd by (cases "node (cfs c) ?q") (auto simp: open_node_def)
  have n: "node s ?q = Some i" using open_node_apart[OF dir at o] by blast
  have d: "i_data (fs_inodes s i) = []"
    using o at fl nd
    by (cases rule: open_node_cases) (auto simp: create_node_def new_inode_def set_data_def)
  show ?thesis
    using o n d by (simp add: close_creat_def sys_open_def content_def) (simp add: sys_close_def)
qed

lemma achieved_step:
  assumes "ostep e stub (c, w, x) (c', w', y)" "cache_ok c cb" "opener_path x = Some p" "achieved e stub cb p c0 c x"
  shows "achieved e stub cb p c0 c' y \<and> cache_ok c' cb \<and> (opener_path y = Some p \<or> (\<exists>rc fi. y = Given rc fi))"
proof -
  note dir = assms(2)[unfolded cache_ok_def] and at = resolve_cache_file[OF assms(2), of e p]
  from assms(1) show ?thesis
  proof cases
    case (unlinks q fi)
    then show ?thesis
      using unlink_apart[OF dir at] assms(3) by (simp add: cache_ok_def)
  next
    case (stream q s r fi msgs status)
    have q: "q = p" using assms(3) stream by simp
    have "\<not> is_dir (cfs c) (cb @ [key e p])" by (rule cache_no_dir[OF dir])
    then obtain i where r: "r = Inr i"
      using ofstream_open_succeeds[OF at] stream(5) q by fastforce
    have "cache_dir s (cache_root c) cb" "node s (cb @ [key e p]) = Some i"
      using open_node_apart[OF dir at stream(5)[unfolded ofstream_open_def q]] r by auto
    moreover have "i_data (fs_inodes s i) = []"
      using opened_empty stream(5) r by blast
    ultimately show ?thesis
      using stream r q assms(3,4) by (auto simp: cache_ok_def)
  next
    case (stores q fi i pos msgs m rest status)
    obtain before where b: "pos = length (concat (map mc_b before))" "msgs = before @ m # rest"
      "node (cfs c) (cb @ [key e p]) = Some i" "i_data (fs_inodes (cfs c) i) = concat (map mc_b before)"
      using assms(4) stores by auto
    have "store_at (cfs c) i pos (mc_b m) = store_more (cfs c) i (mc_b m)"
      using b by (intro store_at_end) simp
    then show ?thesis
      using stores b assms(2-4)
      by (auto simp: cache_ok_def store_more_def intro!: exI[of _ "before @ [m]"], simp_all add: set_data_def)
  next
    case (closes q fi io msgs)
    then show ?thesis
      using assms(2-4) by (auto simp: content_def)
  next
    case (creates q fi)
    then show ?thesis
      using close_creat_apart[OF assms(2)] made_empty[OF assms(2)] assms(3,4) by (auto simp: fetched_def)
  next
    case (no_file q m ms status fi)
    moreover from this have "q = p" using assms(3) by simp
    ultimately have "answered_none stub p"
      unfolding answered_none_def by blast
    then show ?thesis using no_file assms(2,3) by simp
  next
    case (records q fi ts)
    then obtain msgs where "answered stub p msgs OK" "ts = mc_timestamp (last msgs)"
      "content (cfs c) (cb @ [key e p]) = Some (concat (map mc_b msgs))"
      using assms(4) by auto
    then have "fetched e stub cb p c'"
      using records assms(3) by (auto simp: fetched_def)
    then show ?thesis using records assms(2,3) by simp
  next
    case (cleans q fi)
    then show ?thesis
      using assms(2-4) by (auto simp: fetched_def)
  next
    case (opens q fi rc fi')
    then show ?thesis
      using sys_open_apart[OF dir at, of "flags fi" 0] assms(3)
      by (auto simp: open_cache_file_zero cache_ok_def split: prod.splits)
  qed (use assms(2-4) in \<open>auto simp: answered_def answered_none_def fetched_def usable_def server_time_def
      as_before_def same_entries_def\<close>)
qed

text \<open>The other threads: callbacks on other files.\<close>

fun on_others :: "client_env \<Rightarrow> string list \<Rightarrow> string \<Rightarrow> fs \<Rightarrow> thread \<Rightarrow> bool" where
  "on_others e cb p s (Releasing q fi) = (key e q \<noteq> key e p)"
| "on_others e cb p s (Fd_closed q) = (key e q \<noteq> key e p)"
| "on_others e cb p s (Found_dirty q) = (key e q \<noteq> key e p)"
| "on_others e cb p s (Reading q i pos msgs) = (key e q \<noteq> key e p)"
| "on_others e cb p s (Sent_all q msgs) = (key e q \<noteq> key e p)"
| "on_others e cb p s (Uploaded q meta) = (key e q \<noteq> key e p)"
| "on_others e cb p s (Marked q meta) = (key e q \<noteq> key e p)"
| "on_others e cb p s (Writing q buf off fi) = (key e q \<noteq> key e p \<and> \<not> links s (fd_of fi) (cb @ [key e p]))"
| "on_others e cb p s (Written_mark q buf off fi) = (key e q \<noteq> key e p \<and> \<not> links s (fd_of fi) (cb @ [key e p]))"
| "on_others e cb p s (Opening x) = away e cb p s x"
| "on_others e cb p s _ = True"

lemma on_others_stay: "on_others e cb p s x \<Longrightarrow> adopts_none (cb @ [key e p]) s s' \<Longrightarrow> on_others e cb p s' x"
  by (cases x) (auto simp: away_adopts_none, auto simp: adopts_none_def)

definition opening_inv :: "client_env \<Rightarrow> 'w stub \<Rightarrow> string list \<Rightarrow> string \<Rightarrow> nat \<Rightarrow> client \<Rightarrow> 'w tstate \<Rightarrow> bool" where
  "opening_inv e stub cb p r c0 st \<longleftrightarrow>
     threads st r = Ended \<or> (\<exists>rc fi. threads st r = Opening (Given rc fi))
     \<or> cache_ok (tclient st) cb \<and> (\<forall>r'. r' \<noteq> r \<longrightarrow> on_others e cb p (cfs (tclient st)) (threads st r'))
       \<and> (\<exists>x. threads st r = Opening x \<and> opener_path x = Some p \<and> achieved e stub cb p c0 (tclient st) x)"

lemma opening_other_step:
  assumes "opening_inv e stub cb p r c0 st" "r' \<noteq> r" "cache_ok c cb" "apart (cb @ [key e p]) (cfs (tclient st)) (cfs c)"
    and "same_entries e p (tclient st) c" "on_others e cb p (cfs c) y"
  shows "opening_inv e stub cb p r c0 (set_thread (set_client st c) r' y)"
  using assms on_others_stay[OF _ apart_adopts_none[OF assms(4)]] achieved_apart[OF _ assms(4,5)]
  unfolding opening_inv_def by auto

lemma opening_world: "opening_inv e stub cb p r c0 (set_world st w) = opening_inv e stub cb p r c0 st"
  by (simp add: opening_inv_def)

lemma set_world_thread: "set_thread (set_client (set_world st w) c) r y = set_world (set_thread (set_client st c) r y) w"
  by simp

lemma opening_own_step:
  assumes "opening_inv e stub cb p r c0 st" "threads st r = Opening x" "ostep e stub (tclient st, tworld st, x) (c, w, y)"
  shows "opening_inv e stub cb p r c0 (set_thread (set_client (set_world st w) c) r (Opening y))"
proof (cases "\<exists>rc fi. y = Given rc fi")
  case False
  have "\<nexists>rc fi. x = Given rc fi"
    using assms(3) by (auto elim: ostep.cases)
  then have inv: "cache_ok (tclient st) cb" "\<forall>r'. r' \<noteq> r \<longrightarrow> on_others e cb p (cfs (tclient st)) (threads st r')"
    "opener_path x = Some p" "achieved e stub cb p c0 (tclient st) x"
    using assms(1,2) by (auto simp: opening_inv_def)
  have "wf_fs (cfs (tclient st))"
    using inv(1) by (simp add: cache_ok_def cache_dir_def)
  from ostep_adopts_none[OF assms(3) this False] have "\<forall>r'. r' \<noteq> r \<longrightarrow> on_others e cb p (cfs c) (threads st r')"
    using inv(2) on_others_stay by blast
  then show ?thesis
    using achieved_step[OF assms(3) inv(1,3,4)] False by (auto simp: opening_inv_def)
qed (auto simp: opening_inv_def)

lemma opening_step:
  assumes "tstep e stub st st'" "opening_inv e stub cb p r c0 st"
  shows "opening_inv e stub cb p r c0 st'"
proof (cases "threads st r = Ended \<or> (\<exists>rc fi. threads st r = Opening (Given rc fi))")
  case True
  have "threads st' r = Ended \<or> threads st' r = threads st r"
    using assms(1) by cases (use True in \<open>auto elim: ostep.cases\<close>)
  then show ?thesis using True by (auto simp: opening_inv_def)
next
  case False
  then obtain x where x: "threads st r = Opening x"
    and others: "\<And>r'. r' \<noteq> r \<Longrightarrow> on_others e cb p (cfs (tclient st)) (threads st r')"
    and ok: "cache_ok (tclient st) cb"
    using assms(2) by (auto simp: opening_inv_def)
  have foreign: "v \<noteq> r \<and> on_others e cb p (cfs (tclient st)) (threads st v)" if "\<forall>z. threads st v \<noteq> Opening z" for v
    using others[of v] x that by auto
  note other = opening_other_step[OF assms(2)]
  have only: "opening_inv e stub cb p r c0 (set_thread st r' y)"
    if "r' \<noteq> r" "on_others e cb p (cfs (tclient st)) y" for r' y
    using other[OF that(1) ok, of y] that(2) by simp
  from assms(1) show ?thesis
  proof cases
    case (closes v q fi)
    show ?thesis
      unfolding closes(1) by (rule other) (use closes(2) foreign[of v] ok in \<open>auto simp: cache_ok_def\<close>)
  next
    case (marks_clean v q meta)
    show ?thesis
      unfolding marks_clean(1) by (rule other) (use marks_clean(2) foreign[of v] ok in auto)
  next
    case (records v q meta)
    show ?thesis
      unfolding records(1) by (rule other) (use records(2) foreign[of v] ok in auto)
  next
    case (marks_dirty v q buf off fi)
    show ?thesis
      unfolding marks_dirty(1) by (rule other) (use marks_dirty(2) foreign[of v] ok in auto)
  next
    case (writes v q buf off fi s res)
    have v: "v \<noteq> r" using writes(2) x by auto
    then have "\<not> links (cfs (tclient st)) (fd_of fi) (cb @ [key e p])"
      using others[OF v] writes(2) by simp
    from pwrite_apart[OF ok this writes(3)] show ?thesis
      unfolding writes(1) by (intro other[OF v]) simp_all
  next
    case (advances v y c w z)
    show ?thesis
    proof (cases "v = r")
      case True
      then show ?thesis
        using opening_own_step[OF assms(2)] advances by blast
    next
      case v: False
      have "away e cb p (cfs (tclient st)) y"
        using others[OF v] advances(2) by simp
      from ostep_away[OF advances(3) ok this] have "opening_inv e stub cb p r c0 (set_thread (set_client st c) v (Opening z))"
        by (intro other[OF v]) simp_all
      then show ?thesis
        unfolding advances(1) by (simp only: set_world_thread opening_world)
    qed
  next
    case (exits v q s err)
    then show ?thesis by (simp add: opening_inv_def)
  next
    case (stored v q msgs meta w)
    show ?thesis unfolding stored(1) set_order(4)[symmetric] opening_world
      by (rule only) (use stored(2) foreign[of v] in auto)
  next
    case (not_stored v q msgs status meta w)
    show ?thesis unfolding not_stored(1) set_order(4)[symmetric] opening_world
      by (rule only) (use not_stored(2) foreign[of v] in auto)
  next
    case (elsewhere w)
    then show ?thesis using assms(2) by (simp add: opening_world)
  next
    case (clean v q)
    show ?thesis unfolding clean(1) by (rule only) (use clean(2) foreign[of v] in auto)
  next
    case (dirty v q)
    show ?thesis unfolding dirty(1) by (rule only) (use dirty(2) foreign[of v] in auto)
  next
    case (opens v q s i)
    show ?thesis unfolding opens(1) by (rule only) (use opens(2) foreign[of v] in auto)
  next
    case (no_data v q i pos msgs)
    show ?thesis unfolding no_data(1) by (rule only) (use no_data(2) foreign[of v] in auto)
  next
    case (piece v q i pos msgs)
    show ?thesis unfolding piece(1) by (rule only) (use piece(2) foreign[of v] in auto)
  next
    case (refused v q i pos msgs)
    show ?thesis unfolding refused(1) by (rule only) (use refused(2) foreign[of v] in auto)
  next
    case (rest v q i pos msgs)
    show ?thesis unfolding rest(1) by (rule only) (use rest(2) foreign[of v] in auto)
  qed
qed

lemma opening_reach: "treach e stub st0 st \<Longrightarrow> opening_inv e stub cb p r c0 st0 \<Longrightarrow> opening_inv e stub cb p r c0 st"
  by (induction rule: treach.induct) (auto intro: opening_step)



subsection \<open>Two openings of one file\<close>

lemma opened_next_fd:
  assumes "open_cache_file e c w p fi = Ret (rc, fi') c' w'"
  shows "fs_next_fd (cfs c') \<le> fs_next_fd (cfs c) + 1"
proof -
  have "fs_next_fd s' = fs_next_fd s" if "open_node s q fl mode = (s', r)" for s q fl mode s' r
    using that by (auto simp: open_node_def create_node_def split: sum.splits option.splits if_splits)
  then show ?thesis
    using assms by (fastforce simp: open_cache_file_zero sys_open_def split: prod.splits sum.splits)
qed

lemma download_next_fd:
  assumes "cache_ok c cb" "rpc_GetContent stub w p = Some (m # ms, OK, w1)" "mc_file_exists m"
    and "download e stub c w p fi = Ret (rc, fi') c' w'"
  shows "fs_next_fd (cfs c') \<le> fs_next_fd (cfs c) + 1"
proof -
  let ?d = "concat (map mc_b (m # ms))"
  have "fs_next_fd (ofstream_store (cfs c) (cache_file e c p) ?d) = fs_next_fd (cfs c)"
    using ofstream_store_cache[OF assms(1), of e p ?d] by blast
  then show ?thesis
    using assms(2-4) opened_next_fd[of e "dirty_set e (time_set e (c\<lparr>cfs := ofstream_store (cfs c) (cache_file e c p) ?d\<rparr>) p
        (mc_timestamp (last (m # ms)))) p False" w1 p fi rc fi' c' w']
    by (simp add: download_def Let_def)
qed

lemma written_next_fd:
  assumes "afs_write e c w p buf off fi = Ret rc c' w'"
  shows "fs_next_fd (cfs c') = fs_next_fd (cfs c)"
proof -
  have "fs_next_fd (fst (sys_pwrite s fd buf off)) = fs_next_fd s" for s fd
    by (simp add: sys_pwrite_def Let_def split: option.splits)
  from this[of "cfs c" "fd_of fi"] show ?thesis
    using assms by (cases "sys_pwrite (cfs c) (fd_of fi) buf off") (auto simp: afs_write_def Let_def split: sum.splits)
qed

text \<open>The first of two openings runs to its end after the second has found no entry.\<close>

lemma first_opening:
  assumes st: "tclient st = c" "tworld st = w" "threads st r = Opening (Asking p fi1)"
      "threads st v = Opening (Asking p fi2)" "r \<noteq> v"
    and c: "cache_ok c cb" "time_count e c p \<noteq> 1" "fs_next_fd (cfs c) + 1 < 2 ^ 31"
    and w: "world_up sb w" "world_file sb w p = Some (d, t)" and fl: "plain_flags (flags fi1)"
  shows "\<exists>c1 fi' td. treach e (server_stub dg junk) st (set_thread (set_client (set_world
        (set_thread st v (Opening (Fetching p fi2))) w) c1) r (Opening (Given 0 fi')))
    \<and> flags fi' = flags fi1 \<and> cache_ok c1 cb \<and> open_on e c1 cb p fi' \<and> cached e c1 cb p = Some (File d td)
    \<and> fs_next_fd (cfs c1) < 2 ^ 31"
proof -
  let ?stub = "server_stub dg junk"
  let ?sta = "set_thread st v (Opening (Fetching p fi2))"
  have "set_client (set_world st w) c = st"
    using st(1,2) by (metis set_order(7,8))
  with tstep.advances[OF st(4), unfolded st(1,2), OF ostep.absent[OF c(2)]]
  have s0: "treach e ?stub st ?sta"
    using treach.step[OF treach.start] by metis
  have fd: "fs_next_fd (cfs c) < 2 ^ 31" using c(3) by simp
  obtain c1 fi' where dl: "download e ?stub c w p fi1 = Ret (0, fi') c1 w" "flags fi' = flags fi1" "cache_ok c1 cb"
    "open_on e c1 cb p fi'" "cached e c1 cb p = Some (File d (fs_now (cfs c)))"
    using link.download_ok[OF c(1) w fl fd, of e dg junk] by blast
  obtain m ms where g: "rpc_GetContent ?stub w p = Some (m # ms, OK, w)" "mc_file_exists m"
    using link.get_file[OF w, of dg junk] by (metis list.set_intros(1) neq_Nil_conv)
  have fd1: "fs_next_fd (cfs c1) < 2 ^ 31"
    using download_next_fd[OF c(1) g dl(1)] c(3) by simp
  have "afs_open e ?stub c w p fi1 = Ret (0, fi') c1 w"
    using dl(1) c(2) by (simp add: afs_open_def)
  from oreach_threads[OF open_steps[OF this], of ?sta r]
  have "treach e ?stub ?sta (set_thread (set_client (set_world ?sta w) c1) r (Opening (Given 0 fi')))"
    using st by simp
  from treach_trans[OF this s0] show ?thesis
    using dl fd1 by blast
qed

text \<open>
  C17: two programs open a file that is not cached; both openings find no entry.  The first downloads
  and is given its descriptor, and writes; its write returns its length.  The second then opens the
  cache file truncated, fills it with the server's bytes and clears the dirty mark: the written bytes are
  nowhere, and closing the first descriptor uploads nothing and returns 0.
\<close>

theorem concurrent_opens_lose_write:
  assumes st: "tclient st = c" "tworld st = w" "threads st r = Opening (Asking p fi1)"
      "threads st v = Opening (Asking p fi2)" "r \<noteq> v"
    and c: "cache_ok c cb" "time_count e c p \<noteq> 1" "fs_next_fd (cfs c) + 1 < 2 ^ 31"
    and w: "world_up sb w" "world_file sb w p = Some (d, t)"
    and fl: "plain_flags (flags fi1)" "plain_flags (flags fi2)" "o_write (flags fi1)" "\<not> o_append (flags fi1)"
    and buf: "0 \<le> off" "buf \<noteq> []" "length buf < 2 ^ 31"
  shows "\<exists>st1 fi' st2 fi'' td c3. treach e (server_stub dg junk) st st1 \<and> threads st1 r = Opening (Given 0 fi')
    \<and> treach e (server_stub dg junk) (set_thread st1 r (Writing p buf off fi')) st2
    \<and> threads st2 r = Finished (int (length buf)) \<and> threads st2 v = Opening (Given 0 fi'')
    \<and> cached e (tclient st2) cb p = Some (File d td) \<and> \<not> dirty_get e (tclient st2) p
    \<and> tworld st2 = w \<and> afs_release e (server_stub dg junk) (tclient st2) w p fi' = Ret 0 c3 w"
proof -
  let ?stub = "server_stub dg junk"
  obtain c1 fi' td where s1: "treach e ?stub st (set_thread (set_client (set_world
        (set_thread st v (Opening (Fetching p fi2))) w) c1) r (Opening (Given 0 fi')))"
    and fi': "flags fi' = flags fi1"
    and c1: "cache_ok c1 cb" "open_on e c1 cb p fi'" "cached e c1 cb p = Some (File d td)" "fs_next_fd (cfs c1) < 2 ^ 31"
    using first_opening[OF st c w fl(1), of dg junk] by blast
  let ?st1 = "set_thread (set_client (set_world (set_thread st v (Opening (Fetching p fi2))) w) c1) r (Opening (Given 0 fi'))"
  obtain s where wr: "afs_write e c1 w p buf off fi' = Ret (int (length buf)) ((dirty_set e c1 p True)\<lparr>cfs := s\<rparr>) w"
    "cache_ok ((dirty_set e c1 p True)\<lparr>cfs := s\<rparr>) cb"
    using afs_write_copy[OF c1(1-3) _ _ buf, of w] fl(3,4) fi' by metis
  let ?c2 = "(dirty_set e c1 p True)\<lparr>cfs := s\<rparr>"
  have fd2: "fs_next_fd (cfs ?c2) < 2 ^ 31"
    using written_next_fd[OF wr(1)] c1(4) by simp
  let ?from = "set_thread ?st1 r (Writing p buf off fi')"
  let ?stb = "set_thread (set_client ?from ?c2) r (Finished (int (length buf)))"
  have s2: "treach e ?stub ?from ?stb"
    using write_to_finished[of ?from r p buf off fi' e "int (length buf)" ?c2 w ?stub] wr(1) by simp
  obtain c3 fi'' where dl2: "download e ?stub ?c2 w p fi2 = Ret (0, fi'') c3 w"
    "cached e c3 cb p = Some (File d (fs_now (cfs ?c2)))" "\<not> dirty_get e c3 p"
    using link.download_ok[OF wr(2) w fl(2) fd2, of e dg junk] by blast
  let ?st2 = "set_thread (set_client (set_world ?stb w) c3) v (Opening (Given 0 fi''))"
  have "treach e ?stub ?stb ?st2"
    using oreach_threads[OF fetch_steps[OF dl2(1)], of ?stb v] st(5) by simp
  then have "treach e ?stub ?from ?st2"
    by (rule treach_trans[OF _ s2])
  then show ?thesis
    using s1 st dl2(2) release_clean[OF dl2(3), of ?stub w fi'] dl2(3)
    by (intro exI[of _ ?st1] exI[of _ fi'] exI[of _ ?st2] exI[of _ fi''] exI conjI) simp_all
qed

subsection \<open>Witnesses\<close>

definition sample_openers :: "(nat \<Rightarrow> thread) \<Rightarrow> server option tstate" where
  "sample_openers ths = \<lparr>tclient = sample_client, tworld = sample_world, threads = ths\<rparr>"

lemma sample_openers [simp]:
  "tclient (sample_openers ths) = sample_client" "tworld (sample_openers ths) = sample_world"
  "threads (sample_openers ths) = ths"
  by (simp_all add: sample_openers_def)

definition two_openers :: "nat \<Rightarrow> thread" where
  "two_openers = (\<lambda>_. Resting)(1 := Opening (Asking ''/f'' sample_fi), 2 := Opening (Asking ''/f'' sample_fi))"

lemma sample_fi: "plain_flags (flags sample_fi)" "o_write (flags sample_fi)" "\<not> o_append (flags sample_fi)"
  by (simp_all add: sample_fields)



theorem concurrent_opens_witness:
  "\<exists>st1 fi' st2 td. treach sample_env (server_stub sample_sha sample_clock) (sample_openers two_openers) st1
    \<and> treach sample_env (server_stub sample_sha sample_clock) (set_thread st1 1 (Writing ''/f'' ''J'' 0 fi')) st2
    \<and> threads st2 1 = Finished 1 \<and> cached sample_env (tclient st2) [] ''/f'' = Some (File ''hello'' td)
    \<and> \<not> dirty_get sample_env (tclient st2) ''/f''"
proof -
  have fd: "fs_next_fd (cfs sample_client) + 1 < 2 ^ 31" by (simp add: sample_fields)
  have n: "time_count sample_env sample_client ''/f'' \<noteq> 1" by (simp add: sample_tables)
  have "\<exists>st1 fi' st2 fi'' td c3. treach sample_env (server_stub sample_sha sample_clock) (sample_openers two_openers) st1
      \<and> threads st1 1 = Opening (Given 0 fi')
      \<and> treach sample_env (server_stub sample_sha sample_clock) (set_thread st1 1 (Writing ''/f'' ''J'' 0 fi')) st2
      \<and> threads st2 1 = Finished (int (length ''J'')) \<and> threads st2 2 = Opening (Given 0 fi'')
      \<and> cached sample_env (tclient st2) [] ''/f'' = Some (File ''hello'' td) \<and> \<not> dirty_get sample_env (tclient st2) ''/f''
      \<and> tworld st2 = sample_world
      \<and> afs_release sample_env (server_stub sample_sha sample_clock) (tclient st2) sample_world ''/f'' fi' = Ret 0 c3 sample_world"
    by (rule concurrent_opens_lose_write[OF _ _ _ _ _ cache_ok_sample n fd sample_world_up(1) sample_world_file sample_fi(1,1,2,3)])
      (simp_all add: two_openers_def)
  then show ?thesis by force
qed

end
