(* ===== verification/Client_Oper.thy ===== *)
theory Client_Oper
  imports Client_Samples
begin

section \<open>The table of callbacks\<close>

text \<open>
  What \<^verbatim>\<open>main\<close> registers in \<^verbatim>\<open>afs_oper\<close> for FUSE to call: one constructor per registered operation
  with the arguments FUSE passes, and the dispatch to the callback.  Operations that are not
  registered (\<^verbatim>\<open>rename\<close>, \<^verbatim>\<open>chmod\<close>, \<^verbatim>\<open>flush\<close> and others) never reach the program.  Proved: whatever is called
  in whatever order, and whatever the server answers, the client keeps its cache directory in order
  and changes no file outside it.
\<close>

subsection \<open>Calls and their dispatch\<close>

datatype fuse_call =
    Getattr string stat_buf
  | Mknod string "32 word"
  | Mkdir string "32 word"
  | Unlink string
  | Rmdir string
  | Open string fuse_file_info
  | Read string nat int fuse_file_info
  | Write string byte_string int fuse_file_info
  | Release string fuse_file_info
  | Fsync string int fuse_file_info
  | Readdir string "string list" "string list \<Rightarrow> string \<Rightarrow> string list \<times> int"
  | Ftruncate string int fuse_file_info
  | Truncate string int

text \<open>The return value, and what the call leaves in the buffer or structure it was given.\<close>

datatype answer =
    Code int
  | Attributes int stat_buf
  | Opened int fuse_file_info
  | Data int byte_string
  | Listing int "string list"

fun afs_oper :: "client_env \<Rightarrow> 'w stub \<Rightarrow> client \<Rightarrow> 'w \<Rightarrow> fuse_call \<Rightarrow> (answer, 'w) outcome" where
  "afs_oper e stub c w (Getattr p buf) = map_outcome (\<lambda>(r, b). Attributes r b) id (afs_getattr stub c w p buf)"
| "afs_oper e stub c w (Mknod p mode) = map_outcome Code id (afs_mknod e stub c w p mode)"
| "afs_oper e stub c w (Mkdir p mode) = map_outcome Code id (afs_mkdir stub c w p mode)"
| "afs_oper e stub c w (Unlink p) = map_outcome Code id (afs_unlink e stub c w p)"
| "afs_oper e stub c w (Rmdir p) = map_outcome Code id (afs_rmdir stub c w p)"
| "afs_oper e stub c w (Open p fi) = map_outcome (\<lambda>(r, fi'). Opened r fi') id (afs_open e stub c w p fi)"
| "afs_oper e stub c w (Read p n off fi) = map_outcome (\<lambda>(r, d). Data r d) id (afs_read c w p n off fi)"
| "afs_oper e stub c w (Write p buf off fi) = map_outcome Code id (afs_write e c w p buf off fi)"
| "afs_oper e stub c w (Release p fi) = map_outcome Code id (afs_release e stub c w p fi)"
| "afs_oper e stub c w (Fsync p datasync fi) = map_outcome Code id (afs_fsync c w p datasync fi)"
| "afs_oper e stub c w (Readdir p buf filler) = map_outcome (\<lambda>(r, ns). Listing r ns) id (afs_readdir stub c w p buf filler)"
| "afs_oper e stub c w (Ftruncate p off fi) = map_outcome Code id (afs_ftruncate c w p off fi)"
| "afs_oper e stub c w (Truncate p off) = map_outcome Code id (afs_truncate e c w p off)"

text \<open>Calls one after the other; the first that does not return is the last.\<close>

fun afs_session :: "client_env \<Rightarrow> 'w stub \<Rightarrow> client \<Rightarrow> 'w \<Rightarrow> fuse_call list \<Rightarrow> (answer list, 'w) outcome" where
  "afs_session e stub c w [] = Ret [] c w"
| "afs_session e stub c w (k # calls) =
     (case afs_oper e stub c w k of
        Ret a c' w' \<Rightarrow> map_outcome (Cons a) id (afs_session e stub c' w' calls)
      | Died c' w' \<Rightarrow> Died c' w'
      | Hang \<Rightarrow> Hang
      | Undef \<Rightarrow> Undef)"

text \<open>The client a call leaves, also when the process ends.\<close>

fun left_client :: "('a, 'w) outcome \<Rightarrow> client option" where
  "left_client (Ret a c w) = Some c"
| "left_client (Died c w) = Some c"
| "left_client _ = None"

lemma left_map [simp]: "left_client (map_outcome f id x) = left_client x"
  by (cases x) simp_all

subsection \<open>Steps within the cache directory\<close>

definition slots :: "string list \<Rightarrow> string list set" where
  "slots cb = {cb @ [w] | w. length w = 64}"

definition within :: "string \<Rightarrow> string list \<Rightarrow> fs \<Rightarrow> bool" where
  "within root cb s \<longleftrightarrow> cache_dir s root cb \<and> (\<forall>fd q. links s fd q \<longrightarrow> q \<in> slots cb)"

definition outside_same :: "string list \<Rightarrow> fs \<Rightarrow> fs \<Rightarrow> bool" where
  "outside_same cb s s' \<longleftrightarrow> (\<forall>q. q \<notin> slots cb \<longrightarrow> view s' q = view s q)"

definition keeps :: "string \<Rightarrow> string list \<Rightarrow> fs \<Rightarrow> fs \<Rightarrow> bool" where
  "keeps root cb s s' \<longleftrightarrow> (within root cb s \<longrightarrow> within root cb s' \<and> outside_same cb s s')"

named_theorems keeps_intros \<open>calls that stay within the cache directory\<close>

lemma keeps_refl [simp, keeps_intros]: "keeps root cb s s"
  by (simp add: keeps_def outside_same_def)

lemma keeps_trans: "keeps root cb s s' \<Longrightarrow> keeps root cb s' s'' \<Longrightarrow> keeps root cb s s''"
  by (auto simp: keeps_def outside_same_def)

lemma key_slot [simp]: "cb @ [key e p] \<in> slots cb"
  by (simp add: slots_def)

lemma keeps_same:
  assumes "within root cb s" "wf_fs s'" "0 \<le> fs_next_fd s'" "view s' = view s"
    and "\<And>fd q. links s' fd q \<Longrightarrow> links s fd q \<or> q \<in> slots cb"
  shows "within root cb s' \<and> outside_same cb s s'"
  using assms cache_dir_same[of s root cb s'] unfolding within_def outside_same_def by auto

lemma keeps_slot:
  assumes "within root cb s" "wf_fs s'" "0 \<le> fs_next_fd s'" "view s' = (view s)(q0 := x)" "q0 \<in> slots cb" "x \<noteq> Some Folder"
    and "\<And>fd q. links s' fd q \<Longrightarrow> links s fd q \<or> q \<in> slots cb"
  shows "within root cb s' \<and> outside_same cb s s'"
proof -
  obtain w where "q0 = cb @ [w]" "length w = 64"
    using assms(5) by (auto simp: slots_def)
  then have "cache_dir s' root cb"
    using cache_dir_slot[of s root cb s' w x] assms(1-4,6) by (simp add: within_def)
  moreover have "q \<in> slots cb" if "links s' fd q" for fd q
    using assms(1,7) that unfolding within_def by blast
  ultimately show ?thesis
    using assms(4,5) by (auto simp: within_def outside_same_def)
qed

lemma within_fs: "within root cb s \<Longrightarrow> wf_fs s \<and> 0 \<le> fs_next_fd s"
  by (simp add: within_def cache_dir_def)

lemma slot_no_dir: "within root cb s \<Longrightarrow> q \<in> slots cb \<Longrightarrow> \<not> is_dir s q"
  by (auto simp: within_def cache_dir_def slots_def)

lemma within_tables: "within (cache_root c) cb (cfs c) \<Longrightarrow> cache_ok c cb"
  by (simp add: within_def cache_ok_def)

lemma keeps_close [keeps_intros]: "keeps root cb s (fst (sys_close s fd))"
  unfolding keeps_def
  by (intro impI keeps_same) (use no_new_links_close in \<open>auto simp: no_new_links_def dest: within_fs\<close>)

lemma keeps_set_data:
  assumes "(\<exists>fd f. fs_fds s fd = Some f \<and> of_ino f = i) \<or> (\<exists>q \<in> slots cb. node s q = Some i)"
  shows "keeps root cb s (set_data s i d)"
  unfolding keeps_def
proof
  assume w: "within root cb s"
  have fs: "wf_fs (set_data s i d)" "0 \<le> fs_next_fd (set_data s i d)"
    using within_fs[OF w] by simp_all (simp add: set_data_def)
  show "within root cb (set_data s i d) \<and> outside_same cb s (set_data s i d)"
  proof (cases "\<exists>q. node s q = Some i")
    case True
    then obtain q where q: "node s q = Some i" by blast
    have slot: "q \<in> slots cb"
      using assms
    proof
      assume "\<exists>fd f. fs_fds s fd = Some f \<and> of_ino f = i"
      then show ?thesis using q w unfolding within_def links_def by metis
    next
      assume "\<exists>q' \<in> slots cb. node s q' = Some i"
      then show ?thesis using q node_inj[of s] within_fs[OF w] by metis
    qed
    then have "\<not> i_isdir (fs_inodes s i)"
      using slot_no_dir[OF w slot] q by (simp add: is_dir_inode)
    from keeps_slot[OF w fs view_set_data[OF _ q this] slot] within_fs[OF w] show ?thesis by simp
  next
    case False
    then have "view (set_data s i d) = view s"
      by (intro view_set_data_unlinked) blast
    from keeps_same[OF w fs this] show ?thesis by simp
  qed
qed

lemma keeps_pwrite [keeps_intros]: "keeps root cb s (fst (sys_pwrite s fd buf off))"
  by (auto simp: sys_pwrite_def Let_def split: option.splits intro: keeps_set_data)

lemma keeps_ftruncate [keeps_intros]: "keeps root cb s (fst (sys_ftruncate s fd n))"
  by (auto simp: sys_ftruncate_def split: option.splits intro: keeps_set_data)

lemma keeps_truncate:
  assumes "\<And>q. resolve s p = Inr q \<Longrightarrow> q \<in> slots cb"
  shows "keeps root cb s (fst (sys_truncate s p n))"
  using assms by (auto simp: sys_truncate_def split: sum.splits option.splits intro: keeps_set_data)

lemma keeps_unlink:
  assumes "\<And>q. resolve s p = Inr q \<Longrightarrow> q \<in> slots cb"
  shows "keeps root cb s (fst (sys_unlink s p))"
proof -
  have "within root cb (fst (sys_unlink s p)) \<and> outside_same cb s (fst (sys_unlink s p))"
    if w: "within root cb s" and r: "resolve s p = Inr q" "node s q = Some i" "\<not> i_isdir (fs_inodes s i)" for q i
  proof (rule keeps_slot[OF w wf_unlink])
    show "view (fst (sys_unlink s p)) = (view s)(q := None)"
      using r view_drop[of s q] by (simp add: sys_unlink_def drop_name_def)
    show "0 \<le> fs_next_fd (fst (sys_unlink s p))"
      using r within_fs[OF w] by (simp add: sys_unlink_def)
    show "links (fst (sys_unlink s p)) fd q' \<Longrightarrow> links s fd q' \<or> q' \<in> slots cb" for fd q'
      using no_new_links_unlink[of s p] unfolding no_new_links_def by blast
  qed (use assms r within_fs[OF w] in simp_all)
  then show ?thesis
    by (auto simp: keeps_def sys_unlink_def outside_same_def split: sum.splits option.splits)
qed

text \<open>Opening a file of the directory, and what it makes or empties.\<close>

lemma keeps_open_node:
  assumes w: "within root cb s" and r: "resolve s p = Inr q" "q \<in> slots cb"
    and op: "open_node s p fl mode = (s', Inr i)"
  shows "within root cb s' \<and> outside_same cb s s' \<and> node s' q = Some i"
  using op
proof (cases rule: open_node_cases)
  case (created cp)
  have q: "cp = q" "node s q = None" using created r by simp_all
  have parent: "q = [] \<or> is_dir s (butlast q)"
    using r(2) w by (auto simp: slots_def within_def cache_dir_def)
  have "within root cb s' \<and> outside_same cb s s'"
  proof (rule keeps_slot[OF w])
    show "wf_fs s'" using wf_create[OF _ q(2) parent] within_fs[OF w] created(4) q(1) by simp
    show "0 \<le> fs_next_fd s'" using within_fs[OF w] created(4) by (simp add: create_node_def)
    show "view s' = (view s)(q := Some (File [] (fs_now s)))"
      using view_create[OF _ q(2)] within_fs[OF w] created(4) q(1) by simp
    show "links s' fd q' \<Longrightarrow> links s fd q' \<or> q' \<in> slots cb" for fd q'
      using no_new_links_create[of s q] within_fs[OF w] q created(4) unfolding no_new_links_def by blast
  qed (use r(2) in simp_all)
  then show ?thesis using created q node_create[OF q(2)] by simp
next
  case (emptied cp)
  then have "node s q = Some i" using r by simp
  moreover from this have "keeps root cb s s'"
    using keeps_set_data[of s i cb root "[]"] emptied(5) r(2) by blast
  ultimately show ?thesis using w emptied(5) by (simp add: keeps_def)
next
  case (found cp)
  then show ?thesis using w r by (simp add: outside_same_def)
qed

lemma keeps_sys_open:
  assumes "within root cb s \<Longrightarrow> resolve s p = Inr q" "q \<in> slots cb"
  shows "keeps root cb s (fst (sys_open s p fl mode))"
  unfolding keeps_def
proof
  assume w: "within root cb s"
  show "within root cb (fst (sys_open s p fl mode)) \<and> outside_same cb s (fst (sys_open s p fl mode))"
  proof (cases "open_node s p fl mode")
    case (Pair s1 res)
    show ?thesis
    proof (cases res)
      case (Inl err)
      then have "fst (sys_open s p fl mode) = s"
        using Pair open_node_error by (fastforce simp: sys_open_def)
      then show ?thesis using w by (simp add: outside_same_def)
    next
      case (Inr i)
      let ?f = "\<lparr>of_ino = i, of_read = o_read fl, of_write = o_write fl, of_append = o_append fl\<rparr>"
      let ?s = "s1\<lparr>fs_fds := (fs_fds s1)(fs_next_fd s1 \<mapsto> ?f), fs_next_fd := fs_next_fd s1 + 1\<rparr>"
      note o = keeps_open_node[OF w assms(1)[OF w] assms(2) Pair[unfolded Inr]]
      have fs: "wf_fs s1" "0 \<le> fs_next_fd s1" using within_fs o by blast+
      have less: "i < fs_next s1" using node_less[OF fs(1)] o by blast
      have "within root cb ?s \<and> outside_same cb s1 ?s"
      proof (rule keeps_same)
        show "wf_fs ?s" using fs less by (fastforce simp: wf_fs_def)
        show "links ?s fd q' \<Longrightarrow> links s1 fd q' \<or> q' \<in> slots cb" for fd q'
          using o assms(2) node_inj[OF fs(1)] by (auto simp: links_def split: if_splits)
      qed (use o fs in simp_all)
      then show ?thesis
        using o Pair Inr by (auto simp: sys_open_def outside_same_def)
    qed
  qed
qed

subsection \<open>Callbacks\<close>

definition stays :: "string list \<Rightarrow> client \<Rightarrow> client \<Rightarrow> bool" where
  "stays cb c c' \<longleftrightarrow> cache_root c' = cache_root c \<and> keeps (cache_root c) cb (cfs c) (cfs c')"

named_theorems stays_intros \<open>steps of a client that stay within its cache directory\<close>

lemma stays_trans: "stays cb c c' \<Longrightarrow> stays cb c' c'' \<Longrightarrow> stays cb c c''"
  by (auto simp: stays_def intro: keeps_trans)

lemma stays_refl [simp, stays_intros]: "stays cb c c"
  by (simp add: stays_def)

lemma stays_cfs: "keeps (cache_root c) cb (cfs c) s \<Longrightarrow> stays cb c (c\<lparr>cfs := s\<rparr>)"
  by (simp add: stays_def)

lemma stays_tables [simp]:
  "stays cb c (dirty_set e c' p b) = stays cb c c'" "stays cb c (dirty_erase e c' p) = stays cb c c'"
  "stays cb c (time_set e c' p v) = stays cb c c'" "stays cb c (time_erase e c' p) = stays cb c c'"
  by (simp_all add: stays_def)

lemma keepsI: "(within root cb s \<Longrightarrow> keeps root cb s s') \<Longrightarrow> keeps root cb s s'"
  by (simp add: keeps_def)

lemma within_cache_file:
  "within (cache_root c) cb (cfs c) \<Longrightarrow> resolve (cfs c) (cache_file e c p) = Inr (cb @ [key e p])"
  by (rule resolve_cache_file[OF within_tables])

lemma keeps_open_cache: "keeps (cache_root c) cb (cfs c) (fst (sys_open (cfs c) (cache_file e c p) fl mode))"
  by (rule keeps_sys_open[OF within_cache_file key_slot])

lemma stays_unlink [stays_intros]: "stays cb c (c\<lparr>cfs := fst (sys_unlink (cfs c) (cache_file e c p))\<rparr>)"
  by (rule stays_cfs, rule keepsI, rule keeps_unlink) (auto simp: within_cache_file)

lemma stays_truncate [stays_intros]: "stays cb c (c\<lparr>cfs := fst (sys_truncate (cfs c) (cache_file e c p) n)\<rparr>)"
  by (rule stays_cfs, rule keepsI, rule keeps_truncate) (auto simp: within_cache_file)

lemma stays_close [stays_intros]: "stays cb c (c\<lparr>cfs := fst (sys_close (cfs c) fd)\<rparr>)"
  by (intro stays_cfs keeps_close)

lemma keeps_store: "keeps (cache_root c) cb (cfs c) (ofstream_store (cfs c) (cache_file e c p) d)"
proof (rule keepsI)
  assume w: "within (cache_root c) cb (cfs c)"
  show "keeps (cache_root c) cb (cfs c) (ofstream_store (cfs c) (cache_file e c p) d)"
  proof (cases "ofstream_open (cfs c) (cache_file e c p)")
    case (Pair s res)
    show ?thesis
    proof (cases res)
      case (Inl err)
      then show ?thesis
        using Pair ofstream_open_error by (fastforce simp: ofstream_store_def)
    next
      case (Inr i)
      note o = keeps_open_node[OF w within_cache_file[OF w] key_slot Pair[unfolded ofstream_open_def Inr]]
      have "keeps (cache_root c) cb s (stream_write s i d)"
        unfolding stream_write_def using keeps_set_data[of s i cb "cache_root c" d] o key_slot[of cb] by (metis keeps_refl)
      then show ?thesis
        using o w Pair Inr by (auto simp: ofstream_store_def keeps_def outside_same_def)
    qed
  qed
qed

lemma keeps_close_creat: "keeps (cache_root c) cb (cfs c) (close_creat (cfs c) (cache_file e c p) mode)"
  using keeps_open_cache[of c cb e p "O_WRONLY\<lparr>o_creat := True, o_trunc := True\<rparr>" mode]
    keeps_trans[OF _ keeps_close]
  by (auto simp: close_creat_def split: prod.splits sum.splits)

lemma stays_open_cache:
  "left_client (open_cache_file e c w p fi) = Some c' \<Longrightarrow> stays cb c c'"
  using keeps_open_cache[of c cb e p "flags fi" 0]
  by (auto simp: open_cache_file_zero intro!: stays_cfs split: prod.splits)

lemma stays_download:
  assumes "left_client (download e stub c w p fi) = Some c'"
  shows "stays cb c c'"
proof -
  have store: "stays cb c (c\<lparr>cfs := ofstream_store (cfs c) (cache_file e c p) d\<rparr>)" for d
    by (rule stays_cfs[OF keeps_store])
  have create: "stays cb c ((time_set e c p v)\<lparr>cfs := close_creat (cfs c) (cache_file e c p) m\<rparr>)" for v m
    using keeps_close_creat[of c cb e p m] by (simp add: stays_def)
  have opened: "stays cb c c'" if "stays cb c c1" "left_client (open_cache_file e (dirty_set e c1 p False) w' p fi) = Some c'" for c1 w'
    using stays_trans[OF _ stays_open_cache[OF that(2)]] that(1) by simp
  obtain msgs status w1 where r: "rpc_GetContent stub w p = Some (msgs, status, w1)"
    using assms by (auto simp: download_def split: option.splits)
  show ?thesis
  proof (cases msgs)
    case Nil
    then show ?thesis using assms r by (simp add: download_def)
  next
    case (Cons m ms)
    let ?stored = "c\<lparr>cfs := ofstream_store (cfs c) (cache_file e c p) (concat (map mc_b (m # ms)))\<rparr>"
    let ?made = "(time_set e c p LOCAL_CREAT_FILE)\<lparr>cfs := close_creat (cfs c) (cache_file e c p) 0x1FF\<rparr>"
    consider "\<not> mc_file_exists m" | "mc_file_exists m" "status \<noteq> OK" | "mc_file_exists m" "status = OK" by blast
    then show ?thesis
    proof cases
      case 1
      then show ?thesis using assms r Cons by (intro opened[OF create, of _ _ w1]) (simp add: download_def Let_def)
    next
      case 2
      then show ?thesis using assms r Cons store by (simp add: download_def Let_def) (metis concat.simps(2) list.simps(9))
    next
      case 3
      have "stays cb c (time_set e ?stored p (mc_timestamp (last (m # ms))))"
        using store by simp
      from opened[OF this, of w1] show ?thesis
        using assms r Cons 3 by (simp add: download_def Let_def)
    qed
  qed
qed

lemma afs_open_cases:
  assumes "left_client (afs_open e (stub :: 'w stub) c w p fi) = Some c'"
  obtains (cached) w1 :: 'w where "left_client (open_cache_file e c w1 p fi) = Some c'"
    | (new) w1 where "left_client (download e stub c w1 p fi) = Some c'"
    | (stale) w1 where "left_client (download e stub
        ((time_erase e c p)\<lparr>cfs := fst (sys_unlink (cfs c) (cache_file e c p))\<rparr>) w1 p fi) = Some c'"
proof (cases "time_count e c p = 1 \<and> time_get e c p \<noteq> LOCAL_CREAT_FILE")
  case True
  then obtain sc w1 where r: "rpc_Stat stub w p = Some (sc, w1)"
    using assms by (auto simp: afs_open_def split: option.splits)
  show thesis
    using assms r True cached[of w1] stale[of w1]
    by (cases "sc_st_mtim sc = time_get e c p") (simp_all add: afs_open_def Let_def)
next
  case False
  then show thesis
    using assms cached[of w] new[of w] by (auto simp: afs_open_def split: if_splits)
qed

lemma stays_afs_open:
  assumes "left_client (afs_open e stub c w p fi) = Some c'"
  shows "stays cb c c'"
  using assms
proof (cases rule: afs_open_cases)
  case (cached w1)
  then show ?thesis by (rule stays_open_cache)
next
  case (new w1)
  then show ?thesis by (rule stays_download)
next
  case (stale w1)
  have "stays cb c ((time_erase e c p)\<lparr>cfs := fst (sys_unlink (cfs c) (cache_file e c p))\<rparr>)"
    using stays_unlink[of cb c e p] by (simp add: stays_def)
  then show ?thesis
    by (rule stays_trans[OF _ stays_download[OF stale]])
qed

lemma stays_afs_release: "left_client (afs_release e stub c w p fi) = Some c' \<Longrightarrow> stays cb c c'"
  by (auto simp: afs_release_def Let_def intro: stays_intros split: option.splits prod.splits if_splits)

lemma stays_afs_mknod:
  assumes "left_client (afs_mknod e stub c w p mode) = Some c'"
  shows "stays cb c c'"
proof -
  let ?fl = "O_WRONLY\<lparr>o_creat := True, o_excl := True\<rparr>"
  let ?open = "sys_open (cfs c) (cache_file e c p) ?fl mode"
  let ?made = "case snd ?open of Inl err \<Rightarrow> fst ?open | Inr fd \<Rightarrow> fst (sys_close (fst ?open) fd)"
  have "keeps (cache_root c) cb (cfs c) ?made"
    using keeps_open_cache keeps_trans[OF keeps_open_cache keeps_close] by (auto split: sum.splits)
  then have made: "stays cb c (c\<lparr>cfs := ?made\<rparr>)" by (rule stays_cfs)
  obtain sc w1 where r: "rpc_Stat stub w p = Some (sc, w1)"
    using assms by (auto simp: afs_mknod_def split: option.splits)
  have "c' = c \<or> cfs c' = ?made \<and> cache_root c' = cache_root c"
    using assms r by (cases ?open)
      (auto simp: afs_mknod_def Let_def split: option.splits prod.splits sum.splits if_splits)
  then show ?thesis
    using made by (auto simp: stays_def)
qed

lemma stays_afs_unlink: "left_client (afs_unlink e stub c w p) = Some c' \<Longrightarrow> stays cb c c'"
  using stays_unlink[of cb c e p] by (auto simp: afs_unlink_def Let_def split: option.splits)

lemma stays_afs_write: "left_client (afs_write e c w p buf off fi) = Some c' \<Longrightarrow> stays cb c c'"
  using keeps_pwrite[of "cache_root c" cb "cfs c" "fd_of fi" buf off]
  by (auto simp: afs_write_def Let_def stays_def split: prod.splits sum.splits)

lemma stays_afs_ftruncate: "left_client (afs_ftruncate c w p off fi) = Some c' \<Longrightarrow> stays cb c c'"
  using keeps_ftruncate[of "cache_root c" cb "cfs c" "fd_of fi" off]
  by (auto simp: afs_ftruncate_def intro: stays_cfs split: prod.splits sum.splits)

lemma stays_afs_truncate: "left_client (afs_truncate e c w p off) = Some c' \<Longrightarrow> stays cb c c'"
  using stays_truncate[of cb c e p off] by (auto simp: afs_truncate_def split: prod.splits sum.splits)

lemma stays_unchanged:
  "left_client (afs_getattr stub c w p buf) = Some c' \<Longrightarrow> stays cb c c'"
  "left_client (afs_mkdir stub c w p mode) = Some c' \<Longrightarrow> stays cb c c'"
  "left_client (afs_rmdir stub c w p) = Some c' \<Longrightarrow> stays cb c c'"
  "left_client (afs_read c w p n off fi) = Some c' \<Longrightarrow> stays cb c c'"
  "left_client (afs_fsync c w p datasync fi) = Some c' \<Longrightarrow> stays cb c c'"
  "left_client (afs_readdir stub c w p b filler) = Some c' \<Longrightarrow> stays cb c c'"
  by (auto simp: afs_getattr_def Let_def afs_mkdir_def afs_rmdir_def afs_read_def afs_fsync_def afs_readdir_def
      split: option.splits sum.splits if_splits)

lemma stays_oper: "left_client (afs_oper e stub c w k) = Some c' \<Longrightarrow> stays cb c c'"
  by (cases k) (auto intro: stays_unchanged stays_afs_open stays_afs_release stays_afs_mknod stays_afs_unlink
      stays_afs_write stays_afs_ftruncate stays_afs_truncate)

lemma stays_session: "left_client (afs_session e stub c w ks) = Some c' \<Longrightarrow> stays cb c c'"
proof (induction ks arbitrary: c w)
  case (Cons k ks)
  show ?case
  proof (cases "afs_oper e stub c w k")
    case (Ret a c1 w1)
    then have "stays cb c c1" using stays_oper[of e stub c w k c1] by simp
    then show ?thesis
      using Cons.prems Cons.IH[of c1 w1] Ret stays_trans by auto
  next
    case (Died c1 w1)
    then show ?thesis using Cons.prems stays_oper[of e stub c w k c1] by simp
  qed (use Cons.prems in simp_all)
qed simp


subsection \<open>Any session survives a restart\<close>

text \<open>
  The times of the server have sixteen bytes and are not the mark of an erasure, and only files it has
  are opened: the marker of a file that exists on the client only is what the next start stumbles on.
\<close>

definition stamps_ok :: "'w stub \<Rightarrow> bool" where
  "stamps_ok stub \<longleftrightarrow>
     (\<forall>w p msgs status w'. rpc_GetContent stub w p = Some (msgs, status, w') \<longrightarrow>
        (\<forall>m \<in> set msgs. mc_file_exists m \<and> good_stamp (mc_timestamp m)))
     \<and> (\<forall>w msgs meta w'. rpc_Write stub w msgs = Some (OK, meta, w') \<longrightarrow> good_stamp (meta_timestamp meta))"

lemma synced_open_cache: "left_client (open_cache_file e c w p fi) = Some c' \<Longrightarrow> tables_synced c \<Longrightarrow> tables_synced c'"
  by (auto simp: open_cache_file_zero split: prod.splits)

lemma synced_download:
  assumes "durable_env e" "stamps_ok stub" "tables_synced c" "left_client (download e stub c w p fi) = Some c'"
  shows "tables_synced c'"
proof -
  obtain msgs status w1 where r: "rpc_GetContent stub w p = Some (msgs, status, w1)"
    using assms(4) by (auto simp: download_def split: option.splits)
  show ?thesis
  proof (cases msgs)
    case Nil
    then show ?thesis using assms r by (simp add: download_def)
  next
    case (Cons m ms)
    have stamp: "good_stamp (mc_timestamp (last (m # ms)))" "mc_file_exists m"
      using assms(2) r Cons last_in_set[of "m # ms"] unfolding stamps_ok_def by (blast intro: list.set_intros)+
    let ?s = "ofstream_store (cfs c) (cache_file e c p) (concat (map mc_b (m # ms)))"
    have "tables_synced (dirty_set e (time_set e (c\<lparr>cfs := ?s\<rparr>) p (mc_timestamp (last (m # ms)))) p False)"
      using assms(1,3) stamp(1) by (intro tables_synced_dirty_set tables_synced_time_set) simp_all
    note opened = synced_open_cache[OF _ this, where e = e and w = w1 and p = p and fi = fi and c' = c']
    show ?thesis
    proof (cases "status = OK")
      case True
      then show ?thesis
        using assms(4) r Cons stamp(2) by (intro opened) (simp add: download_def Let_def)
    next
      case False
      then show ?thesis
        using assms(3,4) r Cons stamp(2) by (auto simp: download_def Let_def)
    qed
  qed
qed

lemma synced_afs_open:
  assumes "durable_env e" "stamps_ok stub" "tables_synced c" "left_client (afs_open e stub c w p fi) = Some c'"
  shows "tables_synced c'"
  using assms(4)
proof (cases rule: afs_open_cases)
  case (cached w1)
  then show ?thesis using assms(3) by (rule synced_open_cache)
next
  case (new w1)
  then show ?thesis by (rule synced_download[OF assms(1-3)])
next
  case (stale w1)
  then show ?thesis
    by (rule synced_download[OF assms(1,2), rotated]) (simp add: assms(3) tables_synced_time_erase)
qed

lemma stamps_write: "stamps_ok stub \<Longrightarrow> rpc_Write stub w msgs = Some (OK, meta, w') \<Longrightarrow> good_stamp (meta_timestamp meta)"
  unfolding stamps_ok_def by blast

lemma synced_afs_release:
  "durable_env e \<Longrightarrow> stamps_ok stub \<Longrightarrow> tables_synced c \<Longrightarrow> left_client (afs_release e stub c w p fi) = Some c' \<Longrightarrow>
     tables_synced c'"
  by (auto simp: afs_release_def Let_def intro!: tables_synced_time_set tables_synced_dirty_set dest: stamps_write
      split: option.splits prod.splits if_splits)

lemma synced_afs_mknod:
  "durable_env e \<Longrightarrow> stamps_ok stub \<Longrightarrow> tables_synced c \<Longrightarrow> left_client (afs_mknod e stub c w p mode) = Some c' \<Longrightarrow>
     tables_synced c'"
  by (auto simp: afs_mknod_def Let_def intro!: tables_synced_time_set dest: stamps_write
      split: option.splits prod.splits sum.splits if_splits)

lemma synced_others:
  "durable_env e \<Longrightarrow> tables_synced c \<Longrightarrow> left_client (afs_write e c w p buf off fi) = Some c' \<Longrightarrow> tables_synced c'"
  "tables_synced c \<Longrightarrow> left_client (afs_unlink e stub c w p) = Some c' \<Longrightarrow> tables_synced c'"
  "tables_synced c \<Longrightarrow> left_client (afs_ftruncate c w p off fi) = Some c' \<Longrightarrow> tables_synced c'"
  "tables_synced c \<Longrightarrow> left_client (afs_truncate e c w p off) = Some c' \<Longrightarrow> tables_synced c'"
  by (auto simp: afs_write_def afs_unlink_def afs_ftruncate_def afs_truncate_def Let_def
      intro!: tables_synced_dirty_set tables_synced_dirty_erase tables_synced_time_erase
      split: option.splits prod.splits sum.splits)

lemma same_client:
  "left_client (afs_getattr stub c w p buf) = Some c' \<Longrightarrow> c' = c"
  "left_client (afs_mkdir stub c w p mode) = Some c' \<Longrightarrow> c' = c"
  "left_client (afs_rmdir stub c w p) = Some c' \<Longrightarrow> c' = c"
  "left_client (afs_read c w p n off fi) = Some c' \<Longrightarrow> c' = c"
  "left_client (afs_fsync c w p datasync fi) = Some c' \<Longrightarrow> c' = c"
  "left_client (afs_readdir stub c w p b filler) = Some c' \<Longrightarrow> c' = c"
  by (auto simp: afs_getattr_def Let_def afs_mkdir_def afs_rmdir_def afs_read_def afs_fsync_def afs_readdir_def
      split: option.splits sum.splits if_splits)

lemma synced_oper:
  assumes "durable_env e" "stamps_ok stub" "tables_synced c" "left_client (afs_oper e stub c w k) = Some c'"
  shows "tables_synced c'"
  using assms
  by (cases k) (auto dest: same_client synced_afs_open synced_afs_release synced_afs_mknod synced_others)

lemma synced_session:
  "durable_env e \<Longrightarrow> stamps_ok stub \<Longrightarrow> tables_synced c \<Longrightarrow> left_client (afs_session e stub c w ks) = Some c' \<Longrightarrow>
     tables_synced c'"
proof (induction ks arbitrary: c w)
  case (Cons k ks)
  show ?case
  proof (cases "afs_oper e stub c w k")
    case (Ret a c1 w1)
    then show ?thesis using Cons.prems Cons.IH[of c1 w1] synced_oper[of e stub c w k c1] by simp
  next
    case (Died c1 w1)
    then show ?thesis using Cons.prems synced_oper[of e stub c w k c1] by simp
  qed (use Cons.prems in simp_all)
qed simp


subsection \<open>Witnesses\<close>

lemma sample_no_links: "\<not> links (cfs sample_client) fd q"
  by (simp add: links_def sample_fields) (simp add: sample_fs_def)

lemma sample_session:
  obtains c' where "left_client (afs_session sample_env (server_stub sample_sha sample_clock) sample_client sample_world
    [Open ''/f'' sample_fi, Truncate ''/f'' 2]) = Some c'"
proof -
  obtain c1 fi' where o: "afs_open sample_env (server_stub sample_sha sample_clock) sample_client sample_world ''/f'' sample_fi
      = Ret (0, fi') c1 sample_world"
    using link.open_fetch[OF cache_ok_sample sample_world_up(1) sample_world_file, of sample_fi sample_env sample_sha sample_clock]
    by (auto simp: sample_fields sample_tables)
  obtain r s where "afs_truncate sample_env c1 sample_world ''/f'' 2 = Ret r (c1\<lparr>cfs := s\<rparr>) sample_world"
    by (cases "sys_truncate (cfs c1) (cache_file sample_env c1 ''/f'') 2"; cases "snd (sys_truncate (cfs c1) (cache_file sample_env c1 ''/f'') 2)")
      (auto simp: afs_truncate_def)
  then show thesis
    using o by (intro that[of "c1\<lparr>cfs := s\<rparr>"]) simp
qed


text \<open>A server whose files are all alike.\<close>

definition canned_stub :: "server option stub" where
  "canned_stub = (server_stub sample_sha sample_clock)
     \<lparr>rpc_GetContent := (\<lambda>w p. Some ([\<lparr>mc_file_exists = True, mc_timestamp = timespec_bytes sample_clock, mc_b = ''x''\<rparr>], OK, w)),
      rpc_Write := (\<lambda>w msgs. Some (OK, \<lparr>meta_file_exists = True, meta_timestamp = timespec_bytes sample_clock\<rparr>, w))\<rparr>"

lemma canned_stamps: "stamps_ok canned_stub"
  using sample_clock_mark by (auto simp: stamps_ok_def canned_stub_def good_stamp_def)


end
