(* ===== verification/Remote.thy ===== *)
theory Remote
  imports Link
begin

section \<open>Calls that pass through\<close>

text \<open>
  The callbacks that keep nothing on the client: \<^verbatim>\<open>getattr\<close>, \<^verbatim>\<open>mkdir\<close>, \<^verbatim>\<open>rmdir\<close> and \<^verbatim>\<open>readdir\<close> against the
  modelled server.  Proved: they give the caller what the system call gave the server, every field
  of the \<^verbatim>\<open>struct stat\<close> and every error number surviving the encoding into messages and back.
\<close>

subsection \<open>Error numbers fit the messages\<close>

definition errno_ok :: "'a sysres \<Rightarrow> bool" where
  "errno_ok r \<longleftrightarrow> (\<forall>e. r = Inl e \<longrightarrow> 0 < e \<and> e < 2 ^ 31)"

lemma errno_ok_Inr [simp]: "errno_ok (Inr x)"
  by (simp add: errno_ok_def)

lemma errno_ok_Inl [simp]: "errno_ok (Inl e) \<longleftrightarrow> 0 < e \<and> e < 2 ^ 31"
  by (simp add: errno_ok_def)

lemma errno_walk: "errno_ok (walk s cur cs)"
  by (induction s cur cs rule: walk.induct) simp_all

lemma errno_resolve: "errno_ok (resolve s p)"
  using errno_walk by (auto simp: resolve_def)

lemma errno_calls:
  "errno_ok (sys_stat s p)" "errno_ok (snd (sys_mkdir s p mode))" "errno_ok (snd (sys_rmdir s p))"
  "errno_ok (snd (sys_unlink s p))"
  using errno_resolve[of s p]
  by (auto simp: sys_stat_def sys_mkdir_def sys_rmdir_def sys_unlink_def split: sum.split option.split)

lemma sint_errno: "0 < e \<Longrightarrow> e < 2 ^ 31 \<Longrightarrow> sint (word_of_int e :: 32 word) = e"
  by (simp add: signed_of_int signed_take_bit_int_eq_self)

text \<open>A system call with its result as FUSE wants it: zero or the negated error number.\<close>

definition fuse_result :: "unit sysres \<Rightarrow> int" where
  "fuse_result r = (case r of Inl e \<Rightarrow> - e | Inr _ \<Rightarrow> 0)"

lemma response_roundtrip:
  assumes "errno_ok (snd r)"
  shows "\<exists>res. sys_response r srv = Done (OK, res, srv\<lparr>sfs := fst r\<rparr>) \<and> response_result res = fuse_result (snd r)"
proof (cases r)
  case (Pair s x)
  show ?thesis
  proof (cases x)
    case (Inl e)
    then have "0 < e" "e < 2 ^ 31" using assms Pair by simp_all
    from sint_errno[OF this] show ?thesis
      using Pair Inl by (simp add: sys_response_def response_result_def fuse_result_def)
  next
    case (Inr u)
    then show ?thesis
      using Pair by (simp add: sys_response_def response_result_def fuse_result_def default_Response_def)
  qed
qed

subsection \<open>Attributes\<close>

lemma bytes_timespec_c_str: "bytes_timespec (timespec_bytes t @ [CHR 0x00]) = Some t"
  using bytes_timespec_inverse[of t] by (simp add: bytes_timespec_def)

text \<open>
  C34: what \<^verbatim>\<open>getattr\<close> fills in is the \<^verbatim>\<open>struct stat\<close> the server's \<^verbatim>\<open>stat\<close> returned, field by field; where
  \<^verbatim>\<open>stat\<close> failed it returns the negated error number and fills in nothing.
\<close>

theorem getattr_roundtrip:
  "afs_getattr (server_stub dg junk) c (Some srv) path stbuf =
     (case sys_stat (sfs srv) (getServerFilepath dg srv path False) of
        Inl e \<Rightarrow> Ret (- e, stbuf) c (Some srv)
      | Inr sb \<Rightarrow> Ret (0, sb) c (Some srv))"
proof (cases "sys_stat (sfs srv) (getServerFilepath dg srv path False)")
  case (Inl e)
  then have "0 < e" "e < 2 ^ 31"
    using errno_calls(1)[of "sfs srv" "getServerFilepath dg srv path False"] by simp_all
  from sint_errno[OF this] show ?thesis
    using Inl by (simp add: afs_getattr_def server_stub_def call_def srv_Stat_def default_StatContent_def)
next
  case (Inr sb)
  have "ucast (ucast (w :: 32 word) :: 64 word) = w" for w
    by (rule ucast_up_ucast_id) (simp add: is_up)
  with Inr show ?thesis
    by (simp add: afs_getattr_def server_stub_def call_def srv_Stat_def bytes_timespec_c_str)
qed

subsection \<open>Directories\<close>

text \<open>A buffer that is never full takes every name, up to a NUL.\<close>

lemma fill_names_all: "fill_names (\<lambda>b n. (b @ [n], 0)) buf ns = (0, buf @ map c_str ns)"
  by (induction ns arbitrary: buf) simp_all

text \<open>
  C35: \<^verbatim>\<open>mkdir\<close> and \<^verbatim>\<open>rmdir\<close> at a client are the system calls at the server: the same change of the tree,
  and zero or the negated error number of the call.  \<^verbatim>\<open>mkdir\<close> does not send the mode, every directory
  is made with 0777.  \<^verbatim>\<open>readdir\<close> hands the names of the directory on; for a path that is no directory the
  server dies and \<^verbatim>\<open>readdir\<close> reports success.
\<close>

theorem directory_calls_pass_through:
  "afs_mkdir (server_stub dg junk) c (Some srv) path mode =
      (case sys_mkdir (sfs srv) (getServerFilepath dg srv path False) 0x1FF of
         (s, r) \<Rightarrow> Ret (fuse_result r) c (Some (srv\<lparr>sfs := s\<rparr>)))
   \<and> afs_rmdir (server_stub dg junk) c (Some srv) path =
      (case sys_rmdir (sfs srv) (getServerFilepath dg srv path False) of
         (s, r) \<Rightarrow> Ret (fuse_result r) c (Some (srv\<lparr>sfs := s\<rparr>)))
   \<and> afs_readdir (server_stub dg junk) c (Some srv) path buf (\<lambda>b n. (b @ [n], 0)) =
      (case read_dir (sfs srv) (getServerFilepath dg srv path False) of
         Some names \<Rightarrow> Ret (0, buf @ map c_str names) c (Some srv)
       | None \<Rightarrow> Ret (0, buf) c None)"
proof (intro conjI)
  let ?p = "getServerFilepath dg srv path False"
  obtain res where "srv_Mkdir dg srv path = Done (OK, res, srv\<lparr>sfs := fst (sys_mkdir (sfs srv) ?p 0x1FF)\<rparr>)"
    "response_result res = fuse_result (snd (sys_mkdir (sfs srv) ?p 0x1FF))"
    using response_roundtrip[OF errno_calls(2)] unfolding srv_Mkdir_def by blast
  then show "afs_mkdir (server_stub dg junk) c (Some srv) path mode =
      (case sys_mkdir (sfs srv) ?p 0x1FF of (s, r) \<Rightarrow> Ret (fuse_result r) c (Some (srv\<lparr>sfs := s\<rparr>)))"
    by (simp add: afs_mkdir_def server_stub_def call_def split: prod.split)
  obtain res where "srv_Rmdir dg srv path = Done (OK, res, srv\<lparr>sfs := fst (sys_rmdir (sfs srv) ?p)\<rparr>)"
    "response_result res = fuse_result (snd (sys_rmdir (sfs srv) ?p))"
    using response_roundtrip[OF errno_calls(3)] unfolding srv_Rmdir_def by blast
  then show "afs_rmdir (server_stub dg junk) c (Some srv) path =
      (case sys_rmdir (sfs srv) ?p of (s, r) \<Rightarrow> Ret (fuse_result r) c (Some (srv\<lparr>sfs := s\<rparr>)))"
    by (simp add: afs_rmdir_def server_stub_def call_def split: prod.split)
  show "afs_readdir (server_stub dg junk) c (Some srv) path buf (\<lambda>b n. (b @ [n], 0)) =
      (case read_dir (sfs srv) ?p of
         Some names \<Rightarrow> Ret (0, buf @ map c_str names) c (Some srv) | None \<Rightarrow> Ret (0, buf) c None)"
    by (cases "read_dir (sfs srv) ?p")
      (simp_all add: afs_readdir_def server_stub_def call_def srv_Ls_def fill_names_all)
qed

end
