(* ===== verification/Times.thy ===== *)
theory Times
  imports Afs_Prelude
begin

section \<open>The order of times\<close>

text \<open>
  A \<^verbatim>\<open>struct timespec\<close> is ordered by its signed seconds, then its nanoseconds.  The programs only
  compare times for equality; the order states what they rely on, that every version of a file
  gets a later time than the ones before it.
\<close>

instantiation timespec_ext :: (linorder) linorder
begin

definition less_eq_timespec_ext :: "'a timespec_scheme \<Rightarrow> 'a timespec_scheme \<Rightarrow> bool" where
  "less_eq_timespec_ext x y \<longleftrightarrow>
     sint (tv_sec x) < sint (tv_sec y)
     \<or> sint (tv_sec x) = sint (tv_sec y)
       \<and> (sint (tv_nsec x) < sint (tv_nsec y)
          \<or> sint (tv_nsec x) = sint (tv_nsec y) \<and> timespec.more x \<le> timespec.more y)"

definition less_timespec_ext :: "'a timespec_scheme \<Rightarrow> 'a timespec_scheme \<Rightarrow> bool" where
  "less_timespec_ext x y \<longleftrightarrow> x \<le> y \<and> \<not> y \<le> x"

instance
proof
  fix x y z :: "'a timespec_scheme"
  show "x < y \<longleftrightarrow> x \<le> y \<and> \<not> y \<le> x"
    by (rule less_timespec_ext_def)
  show "x \<le> x"
    by (simp add: less_eq_timespec_ext_def)
  show "x \<le> y \<Longrightarrow> y \<le> z \<Longrightarrow> x \<le> z"
    by (auto simp: less_eq_timespec_ext_def)
  show "x \<le> y \<Longrightarrow> y \<le> x \<Longrightarrow> x = y"
    by (rule timespec.equality) (auto simp: less_eq_timespec_ext_def intro: signed_word_eqI)
  show "x \<le> y \<or> y \<le> x"
    by (auto simp: less_eq_timespec_ext_def)
qed

end

lemma time_less_sec: "sint (tv_sec x) < sint (tv_sec y) \<Longrightarrow> x < (y :: timespec)"
  by (auto simp: less_timespec_ext_def less_eq_timespec_ext_def)

end
