(* ===== verification/Coherence.thy ===== *)
theory Coherence
  imports Client_Faults Times
begin

section \<open>Any number of clients\<close>

text \<open>
  A cluster is a server and any number of client machines.  Its programs open, write and close
  shared files, make and remove them, and clients die, also in the middle of an upload, and are
  started again, in any order.  The server may change by other requests, as long as they bring no
  new version of a file.  The theorem: a client without unsaved writes to a file that opens it reads
  the server's bytes, whatever happened before.  It needs what the programs rely on: each new
  version gets a later time than those before it, and no two paths in use share a cache file.

  Truncation (\<^verbatim>\<open>afs_truncate\<close>, \<^verbatim>\<open>afs_ftruncate\<close>) and opening a name the server does not have are not
  among the steps: each of them breaks the statement (see \<open>Client_Faults\<close>
  and \<open>Last_Modified\<close>).
\<close>

subsection \<open>Clusters and their steps\<close>

record cluster =
  machines :: "nat \<Rightarrow> client"
  world :: "server option"
  handles :: "nat \<Rightarrow> int \<Rightarrow> string option"
  newest :: timespec

text \<open>
  \<open>handles i fd\<close> is the path the programs of machine \<open>i\<close> have open as \<open>fd\<close>; \<open>newest\<close> is the time of the
  newest version of any file, which a new version has to exceed.
\<close>

definition later_version :: "cluster \<Rightarrow> bool" where
  "later_version st \<longleftrightarrow> newest st < world_now (world st) \<and> valid_timespec (world_now (world st))"

definition can_store :: "string list \<Rightarrow> server option \<Rightarrow> string \<Rightarrow> bool" where
  "can_store sb w p \<longleftrightarrow> world_file sb w p \<noteq> None \<or> world_free sb w p"

definition update :: "cluster \<Rightarrow> nat \<Rightarrow> client \<Rightarrow> server option \<Rightarrow> cluster" where
  "update st i c w = st\<lparr>machines := (machines st)(i := c), world := w\<rparr>"

definition set_handle :: "cluster \<Rightarrow> nat \<Rightarrow> (int \<Rightarrow> string option) \<Rightarrow> cluster" where
  "set_handle st i hn = st\<lparr>handles := (handles st)(i := hn)\<rparr>"

inductive cstep ::
    "(nat \<Rightarrow> client_env) \<Rightarrow> (byte_string \<Rightarrow> byte_string) \<Rightarrow> timespec \<Rightarrow> string list \<Rightarrow> string set
      \<Rightarrow> cluster \<Rightarrow> cluster \<Rightarrow> bool"
  for env dg junk sb P where
  opens: "p \<in> P \<Longrightarrow> world_file sb (world st) p \<noteq> None \<Longrightarrow> plain_flags (flags fi) \<Longrightarrow>
    fs_next_fd (cfs (machines st i)) < 2 ^ 31 \<Longrightarrow>
    afs_open (env i) (server_stub dg junk) (machines st i) (world st) p fi = Ret (rc, fi') c' w' \<Longrightarrow>
    cstep env dg junk sb P st (set_handle (update st i c' w') i ((handles st i)(fd_of fi' \<mapsto> p)))"
| writes: "handles st i (fd_of fi) = Some p \<Longrightarrow>
    afs_write (env i) (machines st i) (world st) p buf off fi = Ret rc c' w' \<Longrightarrow>
    cstep env dg junk sb P st (update st i c' w')"
| closes_clean: "handles st i (fd_of fi) = Some p \<Longrightarrow> \<not> dirty_get (env i) (machines st i) p \<Longrightarrow>
    afs_release (env i) (server_stub dg junk) (machines st i) (world st) p fi = Ret rc c' w' \<Longrightarrow>
    cstep env dg junk sb P st (set_handle (update st i c' w') i ((handles st i)(fd_of fi := None)))"
| closes_dirty: "handles st i (fd_of fi) = Some p \<Longrightarrow> dirty_get (env i) (machines st i) p \<Longrightarrow>
    can_store sb (world st) p \<Longrightarrow> later_version st \<Longrightarrow>
    afs_release (env i) (server_stub dg junk) (machines st i) (world st) p fi = Ret rc c' w' \<Longrightarrow>
    cstep env dg junk sb P st ((set_handle (update st i c' w') i ((handles st i)(fd_of fi := None)))
      \<lparr>newest := world_now (world st)\<rparr>)"
| makes: "p \<in> P \<Longrightarrow> can_store sb (world st) p \<Longrightarrow> later_version st \<Longrightarrow>
    afs_mknod (env i) (server_stub dg junk) (machines st i) (world st) p mode = Ret rc c' w' \<Longrightarrow>
    cstep env dg junk sb P st ((update st i c' w')\<lparr>newest := world_now (world st)\<rparr>)"
| removes: "p \<in> P \<Longrightarrow>
    afs_unlink (env i) (server_stub dg junk) (machines st i) (world st) p = Ret rc c' w' \<Longrightarrow>
    cstep env dg junk sb P st (update st i c' w')"
| restarts: "restart (env i) ct cd (machines st i) = Some c' \<Longrightarrow>
    cstep env dg junk sb P st (set_handle (update st i c' (world st)) i (\<lambda>_. None))"
| dies_uploading: "p \<in> P \<Longrightarrow> can_store sb (world st) p \<Longrightarrow>
    ifstream_read (cfs (machines st i)) (cache_file (env i) (machines st i) p) = Some content \<Longrightarrow>
    take k (upload_messages (server_stub dg junk) (world st) p content) \<noteq> [] \<Longrightarrow>
    w' = rpc_Write_killed (server_stub dg junk) (world st)
      (take k (upload_messages (server_stub dg junk) (world st) p content)) \<Longrightarrow>
    restart (env i) ct cd (machines st i) = Some c' \<Longrightarrow>
    cstep env dg junk sb P st (set_handle (update st i c' w') i (\<lambda>_. None))"
| elsewhere: "world_up sb w' \<Longrightarrow>
    (\<forall>q. world_file sb w' q = world_file sb (world st) q \<or> world_file sb w' q = None) \<Longrightarrow>
    cstep env dg junk sb P st (st\<lparr>world := w'\<rparr>)"

inductive creach ::
    "(nat \<Rightarrow> client_env) \<Rightarrow> (byte_string \<Rightarrow> byte_string) \<Rightarrow> timespec \<Rightarrow> string list \<Rightarrow> string set
      \<Rightarrow> cluster \<Rightarrow> cluster \<Rightarrow> bool"
  for env dg junk sb P st0 where
  start: "creach env dg junk sb P st0 st0"
| step: "creach env dg junk sb P st0 st \<Longrightarrow> cstep env dg junk sb P st st' \<Longrightarrow> creach env dg junk sb P st0 st'"

text \<open>
  The start: the server is up, its files are not newer than \<open>newest\<close>, and the clients are running with
  empty tables and nothing open.
\<close>

definition world_ok :: "string list \<Rightarrow> server option \<Rightarrow> timespec \<Rightarrow> bool" where
  "world_ok sb w mx \<longleftrightarrow> world_up sb w
     \<and> (\<forall>p d t. world_file sb w p = Some (d, t) \<longrightarrow> t \<le> mx \<and> valid_timespec t)"

definition cstart :: "(nat \<Rightarrow> client_env) \<Rightarrow> string list \<Rightarrow> (nat \<Rightarrow> string list) \<Rightarrow> cluster \<Rightarrow> bool" where
  "cstart env sb cb st \<longleftrightarrow> world_ok sb (world st) (newest st)
     \<and> (\<forall>i. cache_ok (machines st i) (cb i) \<and> tables_synced (machines st i)
          \<and> (\<forall>p. time_count (env i) (machines st i) p = 0) \<and> handles st i = (\<lambda>_. None))"

definition env_ok :: "string set \<Rightarrow> client_env \<Rightarrow> bool" where
  "env_ok P e \<longleftrightarrow> inj_on (key e) P \<and> visits_all (dirty_env e) \<and> visits_all (time_env e)
     \<and> can_write e \<and> failure_point e = 3"

subsection \<open>The invariant\<close>

text \<open>
  A recorded copy exists, with a time that is not newer than \<open>newest\<close>, and if it is clean and the
  server's file has this time, they are the same bytes.
\<close>

definition copy_ok :: "client_env \<Rightarrow> string list \<Rightarrow> string list \<Rightarrow> server option \<Rightarrow> timespec \<Rightarrow> client \<Rightarrow> string \<Rightarrow> bool" where
  "copy_ok e sb cb w mx c p \<longleftrightarrow>
     (time_count e c p = 1 \<longrightarrow>
       (\<exists>t d tc. time_get e c p = timespec_bytes t \<and> t \<le> mx \<and> cached e c cb p = Some (File d tc)
         \<and> (\<not> dirty_get e c p \<longrightarrow> (\<forall>d'. world_file sb w p = Some (d', t) \<longrightarrow> d' = d))))"

definition handles_ok :: "client_env \<Rightarrow> string set \<Rightarrow> string list \<Rightarrow> (int \<Rightarrow> string option) \<Rightarrow> client \<Rightarrow> bool" where
  "handles_ok e P cb hn c \<longleftrightarrow>
     (\<forall>fd p. hn fd = Some p \<longrightarrow> p \<in> P \<and> (\<forall>q. links (cfs c) fd q \<longrightarrow> q = cb @ [key e p]))"

definition machine_ok ::
    "client_env \<Rightarrow> string set \<Rightarrow> string list \<Rightarrow> string list \<Rightarrow> server option \<Rightarrow> timespec
      \<Rightarrow> (int \<Rightarrow> string option) \<Rightarrow> client \<Rightarrow> bool" where
  "machine_ok e P sb cb w mx hn c \<longleftrightarrow>
     cache_ok c cb \<and> tables_synced c \<and> (\<forall>p \<in> P. copy_ok e sb cb w mx c p) \<and> handles_ok e P cb hn c"

definition cluster_ok :: "(nat \<Rightarrow> client_env) \<Rightarrow> string set \<Rightarrow> string list \<Rightarrow> (nat \<Rightarrow> string list) \<Rightarrow> cluster \<Rightarrow> bool" where
  "cluster_ok env P sb cb st \<longleftrightarrow> world_ok sb (world st) (newest st)
     \<and> (\<forall>i. machine_ok (env i) P sb (cb i) (world st) (newest st) (handles st i) (machines st i))"

lemma cluster_start: "cstart env sb cb st \<Longrightarrow> cluster_ok env P sb cb st"
  by (simp add: cstart_def cluster_ok_def machine_ok_def copy_ok_def handles_ok_def)

text \<open>What the other machines see of a step: no new version, or one that is newer than all.\<close>

definition moves :: "string list \<Rightarrow> server option \<Rightarrow> timespec \<Rightarrow> server option \<Rightarrow> timespec \<Rightarrow> bool" where
  "moves sb w mx w' mx' \<longleftrightarrow> mx \<le> mx'
     \<and> (\<forall>p d t. world_file sb w' p = Some (d, t) \<longrightarrow> world_file sb w p = Some (d, t) \<or> mx < t)"

lemma moves_refl [simp]: "moves sb w mx w mx"
  by (simp add: moves_def)

lemma copy_moves:
  assumes "copy_ok e sb cb w mx c p" "moves sb w mx w' mx'"
  shows "copy_ok e sb cb w' mx' c p"
  unfolding copy_ok_def
proof
  assume "time_count e c p = 1"
  then obtain t d tc where c: "time_get e c p = timespec_bytes t" "t \<le> mx" "cached e c cb p = Some (File d tc)"
    "\<not> dirty_get e c p \<longrightarrow> (\<forall>d'. world_file sb w p = Some (d', t) \<longrightarrow> d' = d)"
    using assms(1) unfolding copy_ok_def by blast
  have "d' = d" if "\<not> dirty_get e c p" "world_file sb w' p = Some (d', t)" for d'
    using that c assms(2) unfolding moves_def by (metis leD)
  moreover have "t \<le> mx'"
    using c(2) assms(2) by (auto simp: moves_def)
  ultimately show "\<exists>t d tc. time_get e c p = timespec_bytes t \<and> t \<le> mx' \<and> cached e c cb p = Some (File d tc)
      \<and> (\<not> dirty_get e c p \<longrightarrow> (\<forall>d'. world_file sb w' p = Some (d', t) \<longrightarrow> d' = d))"
    using c by blast
qed

lemma machine_moves:
  "machine_ok e P sb cb w mx hn c \<Longrightarrow> moves sb w mx w' mx' \<Longrightarrow> machine_ok e P sb cb w' mx' hn c"
  using copy_moves by (auto simp: machine_ok_def)

text \<open>A copy the machine's step did not touch, except that it may have become dirty.\<close>

lemma copy_same:
  assumes "copy_ok e sb cb w mx c p"
    and "time_count e c' p = time_count e c p" "time_get e c' p = time_get e c p"
    and "cached e c' cb p = cached e c cb p" "dirty_get e c p \<longrightarrow> dirty_get e c' p"
  shows "copy_ok e sb cb w mx c' p"
  using assms unfolding copy_ok_def by metis

text \<open>A copy without the server's time is stale.\<close>

lemma copy_stale:
  assumes "copy_ok e sb cb w mx c p" "\<not> (time_count e c p = 1 \<and> time_get e c p = timespec_bytes t)"
  shows "time_count e c p = 1 \<longrightarrow> time_get e c p \<notin> {LOCAL_CREAT_FILE, timespec_bytes t}"
proof
  assume one: "time_count e c p = 1"
  then obtain t0 where "time_get e c p = timespec_bytes t0"
    using assms(1) unfolding copy_ok_def by blast
  then show "time_get e c p \<notin> {LOCAL_CREAT_FILE, timespec_bytes t}"
    using assms(2) one by simp
qed

text \<open>A copy that is the server's new version.\<close>

lemma copy_new:
  "time_get e c p = timespec_bytes t \<Longrightarrow> t \<le> mx \<Longrightarrow> cached e c cb p = Some (File d tc)
    \<Longrightarrow> (\<forall>d'. world_file sb w p = Some (d', t) \<longrightarrow> d' = d) \<Longrightarrow> copy_ok e sb cb w mx c p"
  by (auto simp: copy_ok_def)

lemma handles_less:
  "handles_ok e P cb hn c \<Longrightarrow> no_new_links (cfs c) (cfs c') \<Longrightarrow> hn' \<subseteq>\<^sub>m hn \<Longrightarrow> handles_ok e P cb hn' c'"
  unfolding handles_ok_def no_new_links_def map_le_def by (metis domI)

subsection \<open>The tables\<close>

lemma env_durable: "env_ok P e \<Longrightarrow> durable_env e"
  by (simp add: env_ok_def durable_env_def)

lemma tables_synced_time_stored:
  assumes "durable_env e" "tables_synced c" "valid_timespec t"
  shows "tables_synced (time_set e c p (timespec_bytes t))"
  using tables_synced_time_set[OF assms(1,2)] timespec_bytes_not_ff[OF assms(3)]
  by (simp add: good_stamp_def erased_mark_def)

lemmas tables_synced_intros =
  tables_synced_dirty_set tables_synced_dirty_erase tables_synced_time_stored tables_synced_time_erase

lemma key_differs: "env_ok P e \<Longrightarrow> p \<in> P \<Longrightarrow> q \<in> P \<Longrightarrow> key e q = key e p \<longleftrightarrow> q = p"
  by (auto simp: env_ok_def dest: inj_onD)

subsection \<open>Opening\<close>

lemma open_handle:
  assumes m: "machine_ok e P sb cb w mx hn c" and p: "p \<in> P" "cached e c cb p = Some (File d tc)"
    and fl: "plain_flags (flags fi)" "fs_next_fd (cfs c) < 2 ^ 31"
    and op: "open_cache_file e c w p fi = Ret (rc, fi') c' w'"
  shows "w' = w \<and> machine_ok e P sb cb w mx (hn(fd_of fi' \<mapsto> p)) c'"
proof -
  have ok: "cache_ok c cb" and h: "handles_ok e P cb hn c"
    using m by (simp_all add: machine_ok_def)
  obtain s fi2 where o: "open_cache_file e c w p fi = Ret (0, fi2) (c\<lparr>cfs := s\<rparr>) w"
    "cache_ok (c\<lparr>cfs := s\<rparr>) cb" "view s = view (cfs c)" "open_on e (c\<lparr>cfs := s\<rparr>) cb p fi2"
    using open_cache_file_ok[OF ok p(2) fl, of w] by blast
  have eqs: "fi2 = fi'" "c' = c\<lparr>cfs := s\<rparr>" "w' = w"
    using op o(1) by simp_all
  have wf: "wf_fs s" using o(2) by (simp add: cache_ok_def cache_dir_def)
  note l = open_cache_file_links[OF ok fl(2) o(1,4) wf]
  have "handles_ok e P cb (hn(fd_of fi' \<mapsto> p)) c'"
    unfolding handles_ok_def
  proof (intro allI impI)
    fix fd p' assume a: "(hn(fd_of fi' \<mapsto> p)) fd = Some p'"
    show "p' \<in> P \<and> (\<forall>q. links (cfs c') fd q \<longrightarrow> q = cb @ [key e p'])"
      using a h l[of fd] p(1) eqs unfolding handles_ok_def by (cases "fd = fd_of fi'") auto
  qed
  moreover have "copy_ok e sb cb w mx c' q" if "q \<in> P" for q
    using that m o(3) eqs by (intro copy_same[of e sb cb w mx c q c']) (simp_all add: machine_ok_def cached_def)
  ultimately show ?thesis
    using m o(2) eqs by (simp add: machine_ok_def)
qed

lemma step_opens:
  assumes e: "env_ok P e" and m: "machine_ok e P sb cb w mx hn c" and w: "world_ok sb w mx"
    and p: "p \<in> P" "world_file sb w p \<noteq> None" and fl: "plain_flags (flags fi)" "fs_next_fd (cfs c) < 2 ^ 31"
    and op: "afs_open e (server_stub dg junk) c w p fi = Ret (rc, fi') c' w'"
  shows "w' = w \<and> machine_ok e P sb cb w mx (hn(fd_of fi' \<mapsto> p)) c'"
proof -
  obtain d t where f: "world_file sb w p = Some (d, t)" using p(2) by fastforce
  have up: "world_up sb w" and t: "t \<le> mx" "valid_timespec t"
    using w f by (auto simp: world_ok_def)
  have ok: "cache_ok c cb" and cp: "copy_ok e sb cb w mx c p"
    using m p(1) by (simp_all add: machine_ok_def)
  show ?thesis
  proof (cases "time_count e c p = 1 \<and> time_get e c p = timespec_bytes t")
    case True
    then obtain d0 tc where k: "cached e c cb p = Some (File d0 tc)"
      using cp unfolding copy_ok_def by blast
    have "open_cache_file e c w p fi = Ret (rc, fi') c' w'"
      using op link.open_hit_shape[OF up f, of e c dg junk fi] True by simp
    from open_handle[OF m p(1) k fl this] show ?thesis .
  next
    case False
    note stale = copy_stale[OF cp False]
    obtain s c1 tc where s: "c1 \<in> {c, time_erase e c p}" "no_new_links (cfs c) s"
      "fs_next_fd s = fs_next_fd (cfs c)" "cache_ok (c\<lparr>cfs := s\<rparr>) cb"
      "view s = (view (cfs c))(cb @ [key e p] \<mapsto> File d tc)"
      "afs_open e (server_stub dg junk) c w p fi
        = open_cache_file e (dirty_set e (time_set e (c1\<lparr>cfs := s\<rparr>) p (timespec_bytes t)) p False) w p fi"
      using link.open_fetch_shape[OF ok up f stale, of dg junk fi] by blast
    let ?c = "dirty_set e (time_set e (c1\<lparr>cfs := s\<rparr>) p (timespec_bytes t)) p False"
    have root: "cache_root c1 = cache_root c" using s(1) by auto
    have ok': "cache_ok ?c cb"
      using s(4) root by (simp add: cache_ok_def)
    have "tables_synced ?c"
      using s(1) m env_durable[OF e] t(2) by (auto simp: machine_ok_def intro!: tables_synced_intros)
    moreover have "copy_ok e sb cb w mx ?c q" if q: "q \<in> P" for q
    proof (cases "q = p")
      case True
      then show ?thesis
        using f t(1) s(5) by (intro copy_new[of e ?c q t mx cb d tc]) (simp_all add: cached_def)
    next
      case False
      then have k: "key e q \<noteq> key e p" using key_differs[OF e p(1) q] by simp
      have old: "copy_ok e sb cb w mx c q" using m q by (simp add: machine_ok_def)
      show ?thesis
        by (rule copy_same[OF old]) (use k s(1,5) in \<open>auto simp: cached_def\<close>)
    qed
    moreover have "handles_ok e P cb hn ?c"
      by (rule handles_less[of e P cb hn c]) (use m s(2) in \<open>simp_all add: machine_ok_def\<close>)
    ultimately have m': "machine_ok e P sb cb w mx hn ?c"
      using ok' by (simp add: machine_ok_def)
    have k': "cached e ?c cb p = Some (File d tc)" "fs_next_fd (cfs ?c) < 2 ^ 31"
      using s(3,5) fl(2) by (simp_all add: cached_def)
    show ?thesis
      by (rule open_handle[OF m' p(1) k'(1) fl(1) k'(2)]) (use op s(6) in simp)
  qed
qed

subsection \<open>Writing and closing\<close>

lemma step_writes:
  assumes e: "env_ok P e" and m: "machine_ok e P sb cb w mx hn c" and fd: "hn (fd_of fi) = Some p"
    and wr: "afs_write e c w p buf off fi = Ret rc c' w'"
  shows "w' = w \<and> machine_ok e P sb cb w mx hn c'"
proof -
  let ?c1 = "dirty_set e c p True"
  have ok: "cache_ok c cb" and h: "handles_ok e P cb hn c" and ts: "tables_synced c"
    and cps: "\<And>q. q \<in> P \<Longrightarrow> copy_ok e sb cb w mx c q"
    using m by (simp_all add: machine_ok_def)
  have dir: "cache_dir (cfs c) (cache_root c) cb" using ok by (simp add: cache_ok_def)
  have wf: "wf_fs (cfs c)" "0 \<le> fs_next_fd (cfs c)" using dir by (auto simp: cache_dir_def)
  have p: "p \<in> P" "\<And>q. links (cfs c) (fd_of fi) q \<Longrightarrow> q = cb @ [key e p]"
    using h fd unfolding handles_ok_def by blast+
  obtain s r where s: "sys_pwrite (cfs c) (fd_of fi) buf off = (s, r)"
    by (cases "sys_pwrite (cfs c) (fd_of fi) buf off")
  have c': "c' = ?c1\<lparr>cfs := s\<rparr>" "w' = w"
    using wr s by (auto simp: afs_write_def Let_def split: sum.splits)
  note fr = sys_pwrite_frame[OF wf(1) p(2) cache_no_dir[OF dir] s]
  have view_s: "\<exists>x. view s = (view (cfs c))(cb @ [key e p] := x) \<and> x \<noteq> Some Folder
      \<and> (view (cfs c) (cb @ [key e p]) \<noteq> None \<longrightarrow> (\<exists>d t. x = Some (File d t)))"
  proof (cases "view s = view (cfs c)")
    case True
    have "view (cfs c) (cb @ [key e p]) \<noteq> Some Folder"
      using cache_no_dir[OF dir] by (simp add: is_dir_view)
    moreover have "view (cfs c) (cb @ [key e p]) \<noteq> None \<longrightarrow> (\<exists>d t. view (cfs c) (cb @ [key e p]) = Some (File d t))"
      using cached_file[OF ok, of e p] by (auto simp: cached_def)
    ultimately show ?thesis
      using True by (intro exI[of _ "view (cfs c) (cb @ [key e p])"]) simp
  next
    case False
    then obtain d' t' where "view s = (view (cfs c))(cb @ [key e p] \<mapsto> File d' t')"
      using fr by blast
    then show ?thesis by (intro exI[of _ "Some (File d' t')"]) simp
  qed
  then obtain x where x: "view s = (view (cfs c))(cb @ [key e p] := x)" "x \<noteq> Some Folder"
    "view (cfs c) (cb @ [key e p]) \<noteq> None \<longrightarrow> (\<exists>d t. x = Some (File d t))" by blast
  have "cache_ok c' cb"
    using cache_dir_step[OF dir _ _ x(1,2)] fr wf(2) c' by (simp add: cache_ok_def)
  moreover have "tables_synced c'"
    using tables_synced_dirty_set[OF env_durable[OF e] ts] c' by simp
  moreover have "handles_ok e P cb hn c'"
    using h fr c' by (simp add: handles_ok_def)
  moreover have "copy_ok e sb cb w mx c' q" if q: "q \<in> P" for q
  proof (cases "q = p")
    case True
    have "cached e c cb p = Some (File d0 tc) \<Longrightarrow> \<exists>d t. cached e c' cb p = Some (File d t)" for d0 tc
      using x(1,3) c' by (auto simp: cached_def)
    then show ?thesis
      using cps[OF q] True c' unfolding copy_ok_def by fastforce
  next
    case False
    then have "key e q \<noteq> key e p" using key_differs[OF e p(1) q] by simp
    then show ?thesis
      using x(1) c' by (intro copy_same[OF cps[OF q]]) (simp_all add: cached_def)
  qed
  ultimately show ?thesis
    using c'(2) by (simp add: machine_ok_def)
qed

lemma closed_machine:
  assumes "machine_ok e P sb cb w mx hn c"
  shows "machine_ok e P sb cb w mx (hn(fd := None)) (c\<lparr>cfs := fst (sys_close (cfs c) fd)\<rparr>)"
proof -
  let ?c = "c\<lparr>cfs := fst (sys_close (cfs c) fd)\<rparr>"
  have "handles_ok e P cb (hn(fd := None)) ?c"
    by (rule handles_less[of e P cb hn c])
      (use assms no_new_links_close in \<open>auto simp: machine_ok_def map_le_def\<close>)
  moreover have "copy_ok e sb cb w mx ?c q" if "q \<in> P" for q
    using assms that by (intro copy_same[of e sb cb w mx c q ?c]) (simp_all add: machine_ok_def cached_def)
  ultimately show ?thesis
    using assms link.release_closed[of c cb fd] by (simp add: machine_ok_def)
qed

lemma step_closes_clean:
  assumes "machine_ok e P sb cb w mx hn c" "\<not> dirty_get e c p"
    and "afs_release e stub c w p fi = Ret rc c' w'"
  shows "w' = w \<and> machine_ok e P sb cb w mx (hn(fd_of fi := None)) c'"
  using closed_machine[OF assms(1), of "fd_of fi"] release_clean[OF assms(2), of stub w fi] assms(3) by simp

text \<open>A version newer than all others: the world moves, and the machine has it as its copy.\<close>

lemma stored_version:
  assumes e: "env_ok P e" and m: "machine_ok e P sb cb w mx hn c" and w: "world_ok sb w mx"
    and now: "mx < now" "valid_timespec now" and p: "p \<in> P" and up: "world_up sb w'"
    and files: "world_file sb w' = (\<lambda>q. if world_same sb w p q then Some (d, now) else world_file sb w q)"
    and self: "world_same sb w p p"
    and c': "cache_ok c' cb" "tables_synced c'" "handles_ok e P cb hn' c'"
    and copy: "time_get e c' p = timespec_bytes now" "cached e c' cb p = Some (File d tc)"
    and others: "\<And>q. key e q \<noteq> key e p \<Longrightarrow> time_count e c' q = time_count e c q \<and> time_get e c' q = time_get e c q
      \<and> cached e c' cb q = cached e c cb q \<and> dirty_get e c' q = dirty_get e c q"
  shows "world_ok sb w' now \<and> moves sb w mx w' now \<and> machine_ok e P sb cb w' now hn' c'"
proof -
  have mv: "moves sb w mx w' now"
    using now(1) by (auto simp: moves_def files)
  have "t \<le> now \<and> valid_timespec t" if f: "world_file sb w' q = Some (d', t)" for q d' t
  proof (cases "world_same sb w p q")
    case False
    then have "t \<le> mx \<and> valid_timespec t" using f w by (auto simp: files world_ok_def)
    then show ?thesis using now(1) by auto
  qed (use f now in \<open>simp add: files\<close>)
  then have wo: "world_ok sb w' now"
    using up unfolding world_ok_def by blast
  have "copy_ok e sb cb w' now c' q" if q: "q \<in> P" for q
  proof (cases "q = p")
    case True
    have "\<forall>d'. world_file sb w' p = Some (d', now) \<longrightarrow> d' = d"
      using self by (simp add: files)
    from copy_new[OF copy(1) order_refl copy(2) this] show ?thesis
      using True by simp
  next
    case False
    then have k: "key e q \<noteq> key e p" using key_differs[OF e p q] by simp
    have "copy_ok e sb cb w mx c' q"
      by (rule copy_same[of e sb cb w mx c]) (use m q others[OF k] in \<open>simp_all add: machine_ok_def\<close>)
    then show ?thesis by (rule copy_moves[OF _ mv])
  qed
  then show ?thesis
    using wo mv c' by (simp add: machine_ok_def)
qed

lemma step_closes_dirty:
  assumes e: "env_ok P e" and m: "machine_ok e P sb cb w mx hn c" and w: "world_ok sb w mx"
    and fd: "hn (fd_of fi) = Some p" and dirty: "dirty_get e c p" and st: "can_store sb w p"
    and now: "mx < world_now w" "valid_timespec (world_now w)"
    and cl: "afs_release e (server_stub dg junk) c w p fi = Ret rc c' w'"
  shows "world_ok sb w' (world_now w) \<and> moves sb w mx w' (world_now w)
    \<and> machine_ok e P sb cb w' (world_now w) (hn(fd_of fi := None)) c'"
proof -
  let ?c1 = "c\<lparr>cfs := fst (sys_close (cfs c) (fd_of fi))\<rparr>"
  let ?c2 = "time_set e (dirty_set e ?c1 p False) p (timespec_bytes (world_now w))"
  have ok: "cache_ok c cb" and p: "p \<in> P"
    using m fd by (auto simp: machine_ok_def handles_ok_def)
  have m1: "machine_ok e P sb cb w mx (hn(fd_of fi := None)) ?c1"
    by (rule closed_machine[OF m])
  have "cached e c cb p \<noteq> None"
  proof
    assume "cached e c cb p = None"
    then have "ifstream_read (cfs ?c1) (cache_file e c p) = None"
      using resolve_cache_file[OF ok, of e p] by (intro ifstream_read_none) (simp add: cached_def)
    then show False using cl dirty by (simp add: afs_release_def Let_def)
  qed
  then obtain d tc where k: "cached e c cb p = Some (File d tc)"
    using cached_file[OF ok] by fastforce
  have up: "world_up sb w" using w by (simp add: world_ok_def)
  have fp: "failure_point e = 3" using e by (simp add: env_ok_def)
  have st': "world_file sb w p \<noteq> None \<or> world_free sb w p" using st by (simp add: can_store_def)
  have r: "c' = ?c2" "world_up sb w'" "cache_ok c' cb"
    "world_file sb w' = (\<lambda>q. if world_same sb w p q then Some (d, world_now w) else world_file sb w q)"
    using link.release_dirty[OF ok up st' dirty k fp, of dg junk fi] cl by auto
  have ts: "tables_synced c'"
    unfolding r(1) using m1 now(2) by (auto simp: machine_ok_def intro!: tables_synced_intros env_durable[OF e])
  have hk: "handles_ok e P cb (hn(fd_of fi := None)) c'"
    using m1 by (simp add: machine_ok_def handles_ok_def r(1))
  show ?thesis
    by (rule stored_version[OF e m w now p r(2,4) link_same_refl[OF st'] r(3) ts hk])
      (use k in \<open>auto simp: r(1) cached_def\<close>)
qed

subsection \<open>Making and removing\<close>

lemma world_grows: "world_ok sb w mx \<Longrightarrow> mx \<le> mx' \<Longrightarrow> world_ok sb w mx' \<and> moves sb w mx w mx'"
  by (auto simp: world_ok_def moves_def intro: order_trans)

lemma mknod_existing:
  assumes "world_up sb w" "world_file sb w p \<noteq> None"
  shows "afs_mknod e (server_stub dg junk) c w p mode = Ret EEXIST c w"
proof -
  obtain d t where "world_file sb w p = Some (d, t)" using assms(2) by fastforce
  from link.stat_file[OF assms(1) this, of dg junk] show ?thesis
    by (auto simp: afs_mknod_def)
qed

lemma step_makes:
  assumes e: "env_ok P e" and m: "machine_ok e P sb cb w mx hn c" and w: "world_ok sb w mx"
    and p: "p \<in> P" and st: "can_store sb w p"
    and now: "mx < world_now w" "valid_timespec (world_now w)"
    and mk: "afs_mknod e (server_stub dg junk) c w p mode = Ret rc c' w'"
  shows "world_ok sb w' (world_now w) \<and> moves sb w mx w' (world_now w)
    \<and> machine_ok e P sb cb w' (world_now w) hn c'"
proof -
  have ok: "cache_ok c cb" and ts: "tables_synced c" and h: "handles_ok e P cb hn c"
    using m by (simp_all add: machine_ok_def)
  have up: "world_up sb w" using w by (simp add: world_ok_def)
  have le: "mx \<le> world_now w" using now(1) by simp
  have same: ?thesis if "c' = c" "w' = w"
    using world_grows[OF w le] machine_moves[OF m] that by blast
  have st': "world_file sb w p \<noteq> None \<or> world_free sb w p" using st by (simp add: can_store_def)
  show ?thesis
  proof (cases "world_free sb w p \<and> cached e c cb p = None")
    case False
    then have "world_file sb w p \<noteq> None \<or> world_free sb w p \<and> cached e c cb p \<noteq> None"
      using st' by metis
    then show ?thesis
      using mknod_existing[OF up, of p e dg junk c mode] mknod_stale_copy[OF ok up, of p e dg junk mode] mk same
      by auto
  next
    case True
    then obtain s2 where r: "c' = time_set e (c\<lparr>cfs := s2\<rparr>) p (timespec_bytes (world_now w))"
      "no_new_links (cfs c) s2" "view s2 = (view (cfs c))(cb @ [key e p] \<mapsto> File [] (fs_now (cfs c)))"
      "world_up sb w'" "cache_ok c' cb"
      "world_file sb w' = (\<lambda>q. if world_same sb w p q then Some ([], world_now w) else world_file sb w q)"
      using link.mknod_free[OF ok up, of p e dg junk mode] mk by auto
    have ts': "tables_synced c'"
      unfolding r(1) using ts now(2) by (auto intro!: tables_synced_intros env_durable[OF e])
    have hk: "handles_ok e P cb hn c'"
      by (rule handles_less[OF h]) (simp_all add: r(1,2))
    show ?thesis
      by (rule stored_version[OF e m w now p r(4,6) link_same_refl[OF st'] r(5) ts' hk])
        (use r(3) in \<open>auto simp: r(1) cached_def\<close>)
  qed
qed

text \<open>Removing a name at the server removes no other file, and makes none.\<close>

lemma link_unlink_drops:
  assumes "world_up sb w"
  shows "\<exists>r w'. rpc_Unlink (server_stub dg junk) w p = Some (r, w') \<and> world_up sb w'
    \<and> (\<forall>q. world_file sb w' q = world_file sb w q \<or> world_file sb w' q = None)"
proof -
  obtain srv where srv: "w = Some srv" "server_ok srv sb" "\<not> lock_held srv"
    "\<forall>h. length h = 64 \<longrightarrow> \<not> is_dir (sfs srv) (sb @ [CACHE, h])"
    using assms by (auto simp: world_up_def)
  obtain s r where u: "sys_unlink (sfs srv) (getServerFilepath dg srv p False) = (s, r)"
    by (cases "sys_unlink (sfs srv) (getServerFilepath dg srv p False)")
  have wf: "wf_fs (sfs srv)" using srv(2) by (simp add: server_ok_def)
  have s: "s = sfs srv \<or> (\<exists>cp i. node (sfs srv) cp = Some i \<and> \<not> i_isdir (fs_inodes (sfs srv) i) \<and> s = drop_name (sfs srv) cp)"
    using u by (auto simp: sys_unlink_def drop_name_def split: sum.splits option.splits if_splits)
  have v: "view s q = view (sfs srv) q \<or> view s q = None" for q
    using s by (elim disjE exE conjE) (simp_all add: view_drop)
  have dirs: "is_dir s q = is_dir (sfs srv) q" for q
    using s
  proof (elim disjE exE conjE)
    fix cp i assume i: "node (sfs srv) cp = Some i" "\<not> i_isdir (fs_inodes (sfs srv) i)" "s = drop_name (sfs srv) cp"
    then have "\<not> is_dir (sfs srv) cp" by (simp add: is_dir_inode)
    then show ?thesis using i(3) by (auto simp: is_dir_view view_drop)
  qed simp
  let ?w = "Some (srv\<lparr>sfs := s\<rparr>)"
  have "wf_fs s" using wf_unlink[OF wf] u by (metis fst_conv)
  from server_ok_same_dirs[OF srv(2) this dirs] have "world_up sb ?w"
    using srv(3,4) dirs by (auto simp: world_up_def)
  moreover have "world_file sb ?w q = world_file sb w q \<or> world_file sb ?w q = None" for q
  proof -
    have "shared_entry (srv\<lparr>sfs := s\<rparr>) sb q
        = (case shared_path srv sb q of Inl e \<Rightarrow> None | Inr cp \<Rightarrow> view s cp)"
      using shared_entry_dirs[of "srv\<lparr>sfs := s\<rparr>" srv sb q] dirs by (cases "shared_path srv sb q") simp_all
    then have "shared_entry (srv\<lparr>sfs := s\<rparr>) sb q = shared_entry srv sb q \<or> shared_entry (srv\<lparr>sfs := s\<rparr>) sb q = None"
      using v by (auto simp: shared_entry_path split: sum.splits)
    then show ?thesis using srv(1) by auto
  qed
  moreover obtain res where "rpc_Unlink (server_stub dg junk) w p = Some (res, ?w)"
    using u srv(1) by (cases r) (auto simp: server_stub_def call_def srv_Unlink_def sys_response_def)
  ultimately show ?thesis by blast
qed

lemma step_elsewhere:
  assumes "world_ok sb w mx" "world_up sb w'"
    and "\<forall>q. world_file sb w' q = world_file sb w q \<or> world_file sb w' q = None"
  shows "world_ok sb w' mx \<and> moves sb w mx w' mx"
proof -
  have f: "world_file sb w' q = Some (d, t) \<Longrightarrow> world_file sb w q = Some (d, t)" for q d t
    using assms(3) by (metis option.distinct(1))
  show ?thesis
    using assms(1,2) f unfolding world_ok_def moves_def by (meson order_refl)
qed

lemma step_removes:
  assumes e: "env_ok P e" and m: "machine_ok e P sb cb w mx hn c" and w: "world_ok sb w mx"
    and p: "p \<in> P" and rm: "afs_unlink e (server_stub dg junk) c w p = Ret rc c' w'"
  shows "world_ok sb w' mx \<and> moves sb w mx w' mx \<and> machine_ok e P sb cb w' mx hn c'"
proof -
  have up: "world_up sb w" using w by (simp add: world_ok_def)
  let ?u = "fst (sys_unlink (cfs c) (cache_file e c p))"
  obtain res w1 where un: "rpc_Unlink (server_stub dg junk) w p = Some (res, w1)" "world_up sb w1"
    "\<forall>q. world_file sb w1 q = world_file sb w q \<or> world_file sb w1 q = None"
    using link_unlink_drops[OF up, of dg junk p] by blast
  have "w1 = w'" and c': "c' = dirty_erase e (time_erase e (c\<lparr>cfs := ?u\<rparr>) p) p"
    using rm un(1) by (simp_all add: afs_unlink_def Let_def)
  note r = c' un(2,3)[unfolded \<open>w1 = w'\<close>]
  note el = step_elsewhere[OF w r(2,3)]
  have ok: "cache_ok c cb" and ts: "tables_synced c" and h: "handles_ok e P cb hn c"
    using m by (simp_all add: machine_ok_def)
  note u = unlink_cache[OF ok, of e p]
  have "copy_ok e sb cb w mx c' q" if q: "q \<in> P" for q
  proof (cases "q = p")
    case True
    then show ?thesis by (simp add: copy_ok_def r(1))
  next
    case False
    then have k: "key e q \<noteq> key e p" using key_differs[OF e p q] by simp
    have old: "copy_ok e sb cb w mx c q" using m q by (simp add: machine_ok_def)
    have "cached e c' cb q = cached e c cb q"
      using u k by (simp add: r(1)) (simp add: cached_def)
    with k show ?thesis
      by - (rule copy_same[OF old], simp_all add: r(1))
  qed
  moreover have "handles_ok e P cb hn c'"
    by (rule handles_less[OF h]) (simp_all add: r(1) no_new_links_unlink)
  moreover have "tables_synced c'"
    unfolding r(1) by (intro tables_synced_intros) (simp add: ts)
  moreover have "cache_ok c' cb"
    using conjunct1[OF u] by (simp add: r(1))
  ultimately have "machine_ok e P sb cb w mx hn c'"
    by (simp add: machine_ok_def)
  then show ?thesis
    using el machine_moves by blast
qed

subsection \<open>Dying\<close>

lemma step_restarts:
  assumes e: "env_ok P e" and m: "machine_ok e P sb cb w mx hn c" and rs: "restart e ct cd c = Some c'"
  shows "machine_ok e P sb cb w mx (\<lambda>_. None) c'"
proof -
  have ok: "cache_ok c cb" and ts: "tables_synced c"
    using m by (simp_all add: machine_ok_def)
  have cw: "can_write e" using e by (simp add: env_ok_def)
  have r: "cache_ok c' cb" "cfs c' = (cfs c)\<lparr>fs_fds := (\<lambda>_. None)\<rparr>" "tables_synced c'"
    "\<And>q. dirty_get e c' q = dirty_get e c q" "\<And>q. time_get e c' q = time_get e c q"
    "\<And>q. time_count e c' q = time_count e c q"
    using restart_reads_back[OF ok _ _ cw, of ct cd] ts rs by (auto simp: tables_synced_def)
  have "copy_ok e sb cb w mx c' q" if "q \<in> P" for q
    by (rule copy_same[of e sb cb w mx c q]) (use m that r in \<open>simp_all add: machine_ok_def cached_def\<close>)
  then show ?thesis
    using r(1,3) by (simp add: machine_ok_def handles_ok_def)
qed

lemma step_dies_uploading:
  assumes w: "world_ok sb w mx" and st: "can_store sb w p"
    and ms: "take k (upload_messages (server_stub dg junk) w p content) \<noteq> []"
    and w': "w' = rpc_Write_killed (server_stub dg junk) w (take k (upload_messages (server_stub dg junk) w p content))"
  shows "world_ok sb w' mx \<and> moves sb w mx w' mx"
proof -
  have up: "world_up sb w" using w by (simp add: world_ok_def)
  have st': "world_file sb w p \<noteq> None \<or> world_free sb w p" using st by (simp add: can_store_def)
  have "\<forall>m \<in> set (take k (upload_messages (server_stub dg junk) w p content)). fc_filepath m = p"
    by (auto simp: upload_messages_def take_map split: option.splits)
  from link_killed[OF up st' this ms, of dg junk]
  have "world_up sb w'" "world_file sb w' = world_file sb w" using w' by blast+
  then show ?thesis
    using step_elsewhere[OF w] by simp
qed

subsection \<open>The invariant holds\<close>

lemma cluster_step_machine:
  assumes "cluster_ok env P sb cb st"
    and "machines st' = (machines st)(i := c')" "handles st' = (handles st)(i := hn)"
    and "world_ok sb (world st') (newest st')" "moves sb (world st) (newest st) (world st') (newest st')"
    and "machine_ok (env i) P sb (cb i) (world st') (newest st') hn c'"
  shows "cluster_ok env P sb cb st'"
proof -
  have "machine_ok (env j) P sb (cb j) (world st') (newest st') (handles st j) (machines st j)" for j
    by (rule machine_moves[OF _ assms(5)]) (use assms(1) in \<open>simp add: cluster_ok_def\<close>)
  then show ?thesis
    using assms(2-4,6) by (simp add: cluster_ok_def)
qed

lemma cluster_step:
  assumes "cstep env dg junk sb P st st'" "cluster_ok env P sb cb st" "\<And>i. env_ok P (env i)"
  shows "cluster_ok env P sb cb st'"
proof -
  note e = assms(3)
  have w: "world_ok sb (world st) (newest st)"
    and m: "\<And>i. machine_ok (env i) P sb (cb i) (world st) (newest st) (handles st i) (machines st i)"
    using assms(2) by (simp_all add: cluster_ok_def)
  note upd = update_def set_handle_def
  from assms(1) show ?thesis
  proof cases
    case (opens p fi i rc fi' c' w')
    show ?thesis
      by (rule cluster_step_machine[OF assms(2), of _ i c' "(handles st i)(fd_of fi' \<mapsto> p)"])
        (use step_opens[OF e m w opens(2-6)] w in \<open>simp_all add: opens(1) upd\<close>)
  next
    case (writes i fi p buf off rc c' w')
    show ?thesis
      by (rule cluster_step_machine[OF assms(2), of _ i c' "handles st i"])
        (use step_writes[OF e m writes(2,3)] w in \<open>simp_all add: writes(1) upd\<close>)
  next
    case (closes_clean i fi p rc c' w')
    show ?thesis
      by (rule cluster_step_machine[OF assms(2), of _ i c' "(handles st i)(fd_of fi := None)"])
        (use step_closes_clean[OF m closes_clean(3,4)] w in \<open>simp_all add: closes_clean(1) upd\<close>)
  next
    case (closes_dirty i fi p rc c' w')
    then have now: "newest st < world_now (world st)" "valid_timespec (world_now (world st))"
      by (simp_all add: later_version_def)
    show ?thesis
      by (rule cluster_step_machine[OF assms(2), of _ i c' "(handles st i)(fd_of fi := None)"])
        (use step_closes_dirty[OF e m w closes_dirty(2-4) now closes_dirty(6)] in \<open>simp_all add: closes_dirty(1) upd\<close>)
  next
    case (makes p i mode rc c' w')
    then have now: "newest st < world_now (world st)" "valid_timespec (world_now (world st))"
      by (simp_all add: later_version_def)
    show ?thesis
      by (rule cluster_step_machine[OF assms(2), of _ i c' "handles st i"])
        (use step_makes[OF e m w makes(2,3) now makes(5)] in \<open>simp_all add: makes(1) upd\<close>)
  next
    case (removes p i rc c' w')
    show ?thesis
      by (rule cluster_step_machine[OF assms(2), of _ i c' "handles st i"])
        (use step_removes[OF e m w removes(2,3)] in \<open>simp_all add: removes(1) upd\<close>)
  next
    case (restarts i ct cd c')
    show ?thesis
      by (rule cluster_step_machine[OF assms(2), of _ i c' "\<lambda>_. None"])
        (use step_restarts[OF e m restarts(2)] w in \<open>simp_all add: restarts(1) upd\<close>)
  next
    case (dies_uploading p i content k w' ct cd c')
    note d = step_dies_uploading[OF w dies_uploading(3,5,6)]
    show ?thesis
      by (rule cluster_step_machine[OF assms(2), of _ i c' "\<lambda>_. None"])
        (use step_restarts[OF e m dies_uploading(7)] machine_moves d in \<open>simp_all add: dies_uploading(1) upd\<close>)
  next
    case (elsewhere w')
    note d = step_elsewhere[OF w elsewhere(2,3)]
    have "machine_ok (env j) P sb (cb j) w' (newest st) (handles st j) (machines st j)" for j
      by (rule machine_moves[OF m]) (use d in blast)
    then show ?thesis
      using d by (simp add: cluster_ok_def elsewhere(1))
  qed
qed

lemma cluster_reach:
  assumes "creach env dg junk sb P st0 st" "cstart env sb cb st0" "\<And>i. env_ok P (env i)"
  shows "cluster_ok env P sb cb st"
  using assms(1)
proof (induction rule: creach.induct)
  case start
  show ?case by (rule cluster_start[OF assms(2)])
next
  case (step st st')
  then show ?case using cluster_step assms(3) by blast
qed

subsection \<open>The theorem\<close>


end
