(* ===== verification/Coherence_Samples.thy ===== *)
theory Coherence_Samples
  imports Coherence Client_Samples
begin

section \<open>A history of two machines\<close>

text \<open>
  Machines with empty caches and a server with \<^verbatim>\<open>/f\<close>: machine 0 opens the file, writes to it and closes
  it after the server's clock has moved; machine 1 then opens it.
\<close>

definition sample_cluster :: cluster where
  "sample_cluster = \<lparr>machines = (\<lambda>_. sample_client), world = sample_world, handles = (\<lambda>_ _. None),
     newest = sample_clock\<rparr>"

definition later_clock :: timespec where
  "later_clock = \<lparr>tv_sec = 1800000000, tv_nsec = 5\<rparr>"

abbreviation sample_paths :: "string set" where
  "sample_paths \<equiv> {''/f''}"

lemma sample_env_ok: "env_ok sample_paths sample_env"
  using sample_visits by (simp add: env_ok_def sample_fields)

lemma sample_client_synced: "tables_synced sample_client"
  using is_dirty_reach_synced[OF sample_dirty_env sample_dirty_reach]
    last_modified_reach_synced[OF sample_time_env sample_time_reach]
  by (simp add: tables_synced_def sample_client_def)

text \<open>The clock of a server moves; nothing else does.\<close>

lemma world_clock:
  assumes "world_up sb (Some srv)"
  shows "world_up sb (Some (srv\<lparr>sfs := (sfs srv)\<lparr>fs_now := t\<rparr>\<rparr>))
    \<and> world_file sb (Some (srv\<lparr>sfs := (sfs srv)\<lparr>fs_now := t\<rparr>\<rparr>)) = world_file sb (Some srv)"
proof -
  let ?s = "(sfs srv)\<lparr>fs_now := t\<rparr>"
  have v: "view ?s = view (sfs srv)" "node ?s = node (sfs srv)"
    by (rule ext, simp add: view_def node_def)+
  have dirs: "is_dir ?s q = is_dir (sfs srv) q" for q
    by (simp add: is_dir_view v)
  have wf: "wf_fs ?s"
    using assms by (simp add: world_up_def server_ok_def wf_fs_def dirs v)
  have ok: "server_ok srv sb" using assms by (simp add: world_up_def)
  have "shared_entry (srv\<lparr>sfs := ?s\<rparr>) sb q = shared_entry srv sb q" for q
    using shared_entry_dirs[of "srv\<lparr>sfs := ?s\<rparr>" srv sb q] dirs v
    by (cases "shared_path srv sb q") (simp_all add: shared_entry_path)
  then show ?thesis
    using assms server_ok_same_dirs[OF ok wf dirs] dirs by (auto simp: world_up_def)
qed

lemma sample_world_times: "world_file [] sample_world q = Some (d, t) \<Longrightarrow> t = sample_clock"
  using sample_now
  by (auto simp: sample_world_def entry_file_Some shared_entry_path sample_file_server(3) view_sample_server
      split: if_splits sum.splits)

lemma sample_clocks: "valid_timespec sample_clock" "valid_timespec later_clock" "sample_clock < later_clock"
  by (simp_all add: valid_timespec_def sample_clock_def later_clock_def time_less_sec)

lemma sample_cstart: "cstart (\<lambda>_. sample_env) [] (\<lambda>_. []) sample_cluster"
  using sample_world_times sample_clocks(1)
  by (auto simp: cstart_def sample_cluster_def world_ok_def sample_world_up cache_ok_sample sample_client_synced
      sample_tables)

text \<open>The server after its clock has moved.\<close>

definition later_world :: "server option" where
  "later_world = Some (sample_file_server\<lparr>sfs := (sfs sample_file_server)\<lparr>fs_now := later_clock\<rparr>\<rparr>)"

lemma later_world:
  "world_up [] later_world" "world_file [] later_world = world_file [] sample_world" "world_now later_world = later_clock"
  using world_clock[of "[]" sample_file_server later_clock] sample_world_up(1)
  by (simp_all add: later_world_def sample_world_def)


end
