(* ===== verification/Send_File.thy ===== *)
theory Send_File
  imports Getopt Client_Cache Server_Start
begin

section \<open>The file transfer example\<close>

text \<open>
  \<^verbatim>\<open>grpc_example/send_file_client.cc\<close> and \<^verbatim>\<open>send_file_server.cc\<close>: a client streams a file in pieces of
  12288 bytes, taking a time after each, the server stores it, and the client prints the bandwidth
  of every piece and of the whole.  Proved: the stored file is the file, the array of times has
  room for all that are taken, and the printed sizes and durations add up to the printed totals.
  The bandwidths, which are \<^verbatim>\<open>double\<close>s, are left out.
\<close>

definition SF_BUFSIZE :: nat where
  "SF_BUFSIZE = 12288"

record Reply =
  rep_r :: "64 word"
  rep_md5sum :: string

subsection \<open>The client\<close>

text \<open>
  The two loops of \<^verbatim>\<open>SendFileClient::send\<close> on the bytes not yet read: the pieces the writer accepted,
  the number of times taken in the loop, and the size of \<^verbatim>\<open>buf\<close> at the end.  The result of the last
  \<^verbatim>\<open>Write\<close> is not looked at.
\<close>

function sf_loop :: "(nat \<Rightarrow> bool) \<Rightarrow> nat \<Rightarrow> byte_string \<Rightarrow> byte_string list \<times> nat \<times> nat" where
  "sf_loop acc i s =
     (if length s < SF_BUFSIZE then (if acc i then [s] else [], 0, length s)
      else if acc i then
        (case sf_loop acc (Suc i) (drop SF_BUFSIZE s) of (ps, k, l) \<Rightarrow> (take SF_BUFSIZE s # ps, Suc k, l))
      else ([], 0, SF_BUFSIZE))"
  by pat_completeness auto
termination
  by (relation "measure (\<lambda>(acc, i, s). length s)") (auto simp: SF_BUFSIZE_def)

declare sf_loop.simps [simp del]

text \<open>
  \<open>Smashed\<close> is an array of times that does not fit the stack, whose free bytes are \<open>stack\<close>;
  \<open>Past_array\<close> a time stored behind its end.  \<open>clock k\<close> is the \<open>k\<close>-th reading of the clock.
\<close>

record transfer =
  pieces :: "byte_string list"
  stamps :: "(64 word \<times> 64 word) list"
  last_piece :: nat

datatype sending = Smashed | Past_array | Sent transfer

text \<open>\<^verbatim>\<open>file.tellg()\<close> is -1 on a stream that is not open.\<close>

definition tell_size :: "byte_string option \<Rightarrow> 64 word" where
  "tell_size file_bytes = (case file_bytes of None \<Rightarrow> -1 | Some s \<Rightarrow> word_of_nat (length s))"

definition tss_length :: "64 word \<Rightarrow> 64 word" where
  "tss_length filesize = 10 + filesize div word_of_nat SF_BUFSIZE"

definition sf_send :: "nat \<Rightarrow> (nat \<Rightarrow> bool) \<Rightarrow> (nat \<Rightarrow> 64 word \<times> 64 word) \<Rightarrow> byte_string option \<Rightarrow> sending" where
  "sf_send stack acc clock file_bytes =
     (let n = unat (tss_length (tell_size file_bytes)) in
      if stack < 16 * n then Smashed
      else case file_bytes of
        None \<Rightarrow> if n < 2 then Past_array else Sent \<lparr>pieces = [], stamps = map clock [0..<2], last_piece = SF_BUFSIZE\<rparr>
      | Some s \<Rightarrow>
          (case sf_loop acc 0 s of (ps, k, l) \<Rightarrow>
             if n < k + 2 then Past_array
             else Sent \<lparr>pieces = ps, stamps = map clock [0..<k + 2], last_piece = l\<rparr>))"

subsection \<open>The bandwidth table\<close>

text \<open>\<^verbatim>\<open>long dur_ns = (u->tv_nsec - t->tv_nsec) + (u->tv_sec - t->tv_sec) * 1000000000\<close>\<close>

definition dur_ns :: "64 word \<times> 64 word \<Rightarrow> 64 word \<times> 64 word \<Rightarrow> 64 word" where
  "dur_ns t u = (snd u - snd t) + (fst u - fst t) * 1000000000"

text \<open>
  \<^verbatim>\<open>measure_bandwidth\<close>: the rows, and the totals.  \<^verbatim>\<open>size_total\<close> is an \<^verbatim>\<open>int\<close>, whose overflow is undefined.
\<close>

definition int_range :: "int \<Rightarrow> bool" where
  "int_range k \<longleftrightarrow> - (2 ^ 31) \<le> k \<and> k < 2 ^ 31"

definition bandwidth_rows :: "nat \<Rightarrow> nat \<Rightarrow> (64 word \<times> 64 word) list \<Rightarrow> (nat \<times> 64 word) list" where
  "bandwidth_rows usual_size last_size ts =
     (let count = length ts - 1 in
      map (\<lambda>i. (if i = count - 1 then last_size else usual_size, dur_ns (ts ! i) (ts ! Suc i))) [0..<count])"

definition measure_bandwidth ::
    "nat \<Rightarrow> nat \<Rightarrow> (64 word \<times> 64 word) list \<Rightarrow> ((nat \<times> 64 word) list \<times> int \<times> 64 word) option" where
  "measure_bandwidth usual_size last_size ts =
     (let count = int (length ts - 1);
          product = int usual_size * (count - 1);
          size_total = product + int last_size
      in if int_range product \<and> int_range size_total
         then Some (bandwidth_rows usual_size last_size ts, size_total, dur_ns (hd ts) (last ts))
         else None)"

subsection \<open>The server\<close>

text \<open>
  \<^verbatim>\<open>SendFileImpl::Send\<close>, with the working directory of the server; whether the file opened is not
  looked at.
\<close>

definition sf_server_Send :: "fs \<Rightarrow> string \<Rightarrow> byte_string list \<Rightarrow> Reply \<times> fs" where
  "sf_server_Send s cwd msgs =
     (\<lparr>rep_r = fold (\<lambda>b size. size + word_of_nat (length b)) msgs 0, rep_md5sum = []\<rparr>,
      ofstream_store s (cwd @ ''received_file'') (concat msgs))"

subsection \<open>The client's main\<close>

definition SF_DEFAULT_SERVER :: string where
  "SF_DEFAULT_SERVER = ''128.105.37.149:53706''"

fun sf_options :: "(char \<times> string) list \<Rightarrow> string \<Rightarrow> int + string" where
  "sf_options [] addr = Inr addr"
| "sf_options ((c, optarg) # xs) addr =
     (if c = CHR ''s'' then sf_options xs optarg
      else if c = CHR ''h'' then Inl 0
      else Inl 1)"

text \<open>The exit status, or the server's address and the file that is sent.\<close>

definition sf_main :: "string list \<Rightarrow> int + (string \<times> string)" where
  "sf_main argv =
     (case getopt ''hs:'' (tl argv) of (opts, operands) \<Rightarrow>
        case sf_options opts SF_DEFAULT_SERVER of
          Inl e \<Rightarrow> Inl e
        | Inr addr \<Rightarrow> (case operands of [] \<Rightarrow> Inl 1 | file_name # _ \<Rightarrow> Inr (addr, file_name)))"

subsection \<open>The sending loop\<close>

lemma SF_BUFSIZE_pos [simp]: "0 < SF_BUFSIZE"
  by (simp add: SF_BUFSIZE_def)

lemma sf_loop_rest: "length s < SF_BUFSIZE \<Longrightarrow> sf_loop acc i s = (if acc i then [s] else [], 0, length s)"
  by (subst sf_loop.simps) simp

lemma sf_loop_refused: "SF_BUFSIZE \<le> length s \<Longrightarrow> \<not> acc i \<Longrightarrow> sf_loop acc i s = ([], 0, SF_BUFSIZE)"
  by (subst sf_loop.simps) simp

lemma sf_loop_next:
  "SF_BUFSIZE \<le> length s \<Longrightarrow> acc i \<Longrightarrow> sf_loop acc (Suc i) (drop SF_BUFSIZE s) = (ps, k, l) \<Longrightarrow>
    sf_loop acc i s = (take SF_BUFSIZE s # ps, Suc k, l)"
  by (subst sf_loop.simps) simp

lemmas sf_loop_eqs = sf_loop_rest sf_loop_refused sf_loop_next

lemma sf_loop_accepted:
  "\<exists>ps. sf_loop (\<lambda>_. True) i s = (ps, length s div SF_BUFSIZE, length s mod SF_BUFSIZE) \<and> concat ps = s"
proof (induction s arbitrary: i rule: length_induct)
  case (1 s)
  show ?case
  proof (cases "length s < SF_BUFSIZE")
    case True
    then show ?thesis by (simp add: sf_loop_rest)
  next
    case False
    then have le: "SF_BUFSIZE \<le> length s" "length (drop SF_BUFSIZE s) < length s"
      using SF_BUFSIZE_pos by (simp_all del: SF_BUFSIZE_pos)
    then obtain ps where "sf_loop (\<lambda>_. True) (Suc i) (drop SF_BUFSIZE s)
        = (ps, length (drop SF_BUFSIZE s) div SF_BUFSIZE, length (drop SF_BUFSIZE s) mod SF_BUFSIZE)"
      "concat ps = drop SF_BUFSIZE s"
      using "1.IH" by blast
    then show ?thesis
      using sf_loop_next[of s "\<lambda>_. True" i ps] le(1) by (simp add: le_div_geq le_mod_geq)
  qed
qed

text \<open>However many pieces are accepted, no more times are taken than the file has whole pieces.\<close>

lemma sf_loop_stamps: "fst (snd (sf_loop acc i s)) \<le> length s div SF_BUFSIZE"
proof (induction s arbitrary: i rule: length_induct)
  case (1 s)
  consider "length s < SF_BUFSIZE" | "SF_BUFSIZE \<le> length s" "\<not> acc i" | "SF_BUFSIZE \<le> length s" "acc i"
    by linarith
  then show ?case
  proof cases
    case 3
    obtain ps k l where r: "sf_loop acc (Suc i) (drop SF_BUFSIZE s) = (ps, k, l)"
      by (cases "sf_loop acc (Suc i) (drop SF_BUFSIZE s)")
    have "length (drop SF_BUFSIZE s) < length s"
      using 3(1) SF_BUFSIZE_pos by (simp del: SF_BUFSIZE_pos)
    then have "k \<le> length (drop SF_BUFSIZE s) div SF_BUFSIZE"
      using "1.IH" r by (metis fst_conv snd_conv)
    then show ?thesis
      using sf_loop_next[of s acc i, OF 3 r] 3(1) by (simp add: le_div_geq)
  qed (simp_all add: sf_loop_eqs)
qed

text \<open>The number of times the array has room for.\<close>

lemma tss_length_file:
  assumes "length s < 2 ^ 63"
  shows "unat (tss_length (word_of_nat (length s))) = 10 + length s div SF_BUFSIZE"
proof -
  let ?k = "length s div SF_BUFSIZE"
  have n: "unat (word_of_nat (length s) :: 64 word) = length s"
    using assms by (simp add: unsigned_of_nat take_bit_nat_eq_self)
  have b: "unat (word_of_nat SF_BUFSIZE :: 64 word) = SF_BUFSIZE"
    by (simp add: SF_BUFSIZE_def)
  have d: "unat (word_of_nat (length s) div word_of_nat SF_BUFSIZE :: 64 word) = ?k"
    by (simp only: unat_div_distrib n b)
  have "?k \<le> length s" by (rule div_le_dividend)
  moreover have "length s < 9223372036854775808" using assms by simp
  ultimately have "?k < 18446744073709551606" by linarith
  then show ?thesis
    unfolding tss_length_def using d by (subst unat_add_lem[THEN iffD1]) simp_all
qed

text \<open>
  The array of times has room for every time taken, whatever the file and whichever pieces the
  writer accepts: \<^verbatim>\<open>send\<close> never stores behind its end.  A file that could not be opened, though, has
  the size \<open>2 ^ 64 - 1\<close>, and its array is larger than any stack: the program crashes instead of
  reporting the missing file.
\<close>

lemma send_file_fits:
  assumes "\<And>s. file_bytes = Some s \<Longrightarrow> length s < 2 ^ 63"
  shows "sf_send stack acc clock file_bytes \<noteq> Past_array
    \<and> (file_bytes = None \<and> stack < 2 ^ 54 \<longrightarrow> sf_send stack acc clock file_bytes = Smashed)"
proof (cases file_bytes)
  case None
  have "unat (tss_length (- 1)) = 10 + 18446744073709551615 div 12288"
    by (simp add: tss_length_def SF_BUFSIZE_def)
  then show ?thesis
    using None by (simp add: sf_send_def tell_size_def)
next
  case (Some s)
  obtain ps k l where r: "sf_loop acc 0 s = (ps, k, l)"
    by (cases "sf_loop acc 0 s")
  then have "k \<le> length s div SF_BUFSIZE"
    using sf_loop_stamps[of acc 0 s] by simp
  then have "k + 2 \<le> unat (tss_length (tell_size file_bytes))"
    using tss_length_file[of s] assms[OF Some] by (simp add: tell_size_def Some)
  then show ?thesis
    using r by (auto simp: sf_send_def Some Let_def)
qed

subsection \<open>The whole transfer\<close>

lemma sf_send_sent:
  assumes "length s < 2 ^ 63" "16 * (10 + length s div SF_BUFSIZE) \<le> stack"
  shows "\<exists>ps. sf_send stack (\<lambda>_. True) clock (Some s)
      = Sent \<lparr>pieces = ps, stamps = map clock [0..<length s div SF_BUFSIZE + 2], last_piece = length s mod SF_BUFSIZE\<rparr>
    \<and> concat ps = s"
proof -
  obtain ps where "sf_loop (\<lambda>_. True) 0 s = (ps, length s div SF_BUFSIZE, length s mod SF_BUFSIZE)" "concat ps = s"
    using sf_loop_accepted by blast
  then show ?thesis
    using assms tss_length_file[OF assms(1)] by (intro exI[of _ ps]) (simp add: sf_send_def tell_size_def Let_def)
qed

lemma reply_size:
  "fold (\<lambda>b size. size + word_of_nat (length b)) msgs k = k + (word_of_nat (length (concat msgs)) :: 64 word)"
  by (induction msgs arbitrary: k) (simp_all add: algebra_simps)

text \<open>
  C39: what the client sends is what the server stores: the received file holds the bytes of the file
  sent, and the reply its size.
\<close>

theorem send_file_roundtrip:
  assumes "length s < 2 ^ 63" "16 * (10 + length s div SF_BUFSIZE) \<le> stack"
    and "wf_fs disk" "resolve disk (cwd @ ''received_file'') = Inr cp" "\<not> is_dir disk cp"
  shows "\<exists>tr reply disk'. sf_send stack (\<lambda>_. True) clock (Some s) = Sent tr
    \<and> sf_server_Send disk cwd (pieces tr) = (reply, disk')
    \<and> view disk' = (view disk)(cp \<mapsto> File s (fs_now disk)) \<and> unat (rep_r reply) = length s"
proof -
  obtain ps where ps: "concat ps = s" "sf_send stack (\<lambda>_. True) clock (Some s)
      = Sent \<lparr>pieces = ps, stamps = map clock [0..<length s div SF_BUFSIZE + 2], last_piece = length s mod SF_BUFSIZE\<rparr>"
    using sf_send_sent[OF assms(1,2)] by blast
  obtain disk1 i where op: "ofstream_open disk (cwd @ ''received_file'') = (disk1, Inr i)"
    using ofstream_open_succeeds[OF assms(4,5)] by blast
  have "view (ofstream_store disk (cwd @ ''received_file'') s) = (view disk)(cp \<mapsto> File s (fs_now disk))"
    using ofstream_write(2)[OF assms(3-5) op, of s] op by (simp add: ofstream_store_def)
  moreover have "unat (fold (\<lambda>b size. size + word_of_nat (length b)) ps 0 :: 64 word) = length s"
    using assms(1) by (simp add: reply_size ps(1) unsigned_of_nat take_bit_nat_eq_self)
  ultimately show ?thesis
    using ps by (simp add: sf_server_Send_def)
qed

subsection \<open>The totals\<close>

lemma dur_add: "dur_ns t u + dur_ns u v = dur_ns t v"
  by (simp add: dur_ns_def algebra_simps)

lemma durations_add:
  "n < length ts \<Longrightarrow> sum_list (map (\<lambda>i. dur_ns (ts ! i) (ts ! Suc i)) [0..<n]) = dur_ns (ts ! 0) (ts ! n)"
proof (induction n)
  case 0
  then show ?case by (simp add: dur_ns_def)
next
  case (Suc n)
  then show ?case by (simp add: dur_add)
qed

lemma row_sizes:
  "sum_list (map (\<lambda>i. if i = n then l else u) [0..<Suc n]) = u * n + (l :: nat)"
proof -
  have "map (\<lambda>i. if i = n then l else u) [0..<n] = map (\<lambda>_. u) [0..<n]"
    by (rule map_cong) auto
  then have "sum_list (map (\<lambda>i. if i = n then l else u) [0..<n]) = n * u"
    by (simp only: sum_list_triv length_upt) simp
  then show ?thesis by simp
qed

text \<open>
  The bandwidth table adds up.  For a file below two gigabytes the sizes of the rows add up to the
  printed total, which is the size of the file, and the durations (modulo \<open>2 ^ 64\<close>) to the printed
  total duration.  From two gigabytes on the \<^verbatim>\<open>int\<close> total overflows.
\<close>

lemma bandwidth_adds_up:
  assumes "length s < 2 ^ 63" "16 * (10 + length s div SF_BUFSIZE) \<le> stack"
  shows "\<exists>tr. sf_send stack (\<lambda>_. True) clock (Some s) = Sent tr
    \<and> (case measure_bandwidth SF_BUFSIZE (last_piece tr) (stamps tr) of
         None \<Rightarrow> 2 ^ 31 \<le> length s
       | Some (rows, size_total, dur_total) \<Rightarrow> length s < 2 ^ 31 \<and> size_total = int (length s)
           \<and> sum_list (map fst rows) = length s \<and> sum_list (map snd rows) = dur_total)"
proof -
  let ?n = "length s div SF_BUFSIZE" and ?l = "length s mod SF_BUFSIZE"
  let ?ts = "map clock [0..<?n + 2]"
  obtain ps where ps: "sf_send stack (\<lambda>_. True) clock (Some s) = Sent \<lparr>pieces = ps, stamps = ?ts, last_piece = ?l\<rparr>"
    using sf_send_sent[OF assms] by blast
  have len: "length ?ts = ?n + 2" by simp
  have split: "SF_BUFSIZE * ?n + ?l = length s" by (rule mult_div_mod_eq)
  have total: "int (SF_BUFSIZE * ?n) + int ?l = int (length s)"
    using split by linarith
  let ?rows = "bandwidth_rows SF_BUFSIZE ?l ?ts"
  have "map fst ?rows = map (\<lambda>i. if i = ?n then ?l else SF_BUFSIZE) [0..<Suc ?n]"
    by (simp add: bandwidth_rows_def Let_def len del: upt_Suc)
  then have sizes: "sum_list (map fst ?rows) = length s"
    using row_sizes[of ?n ?l SF_BUFSIZE] split by (simp del: upt_Suc)
  have "map snd ?rows = map (\<lambda>i. dur_ns (?ts ! i) (?ts ! Suc i)) [0..<Suc ?n]"
    by (simp add: bandwidth_rows_def Let_def len del: upt_Suc)
  then have durs: "sum_list (map snd ?rows) = dur_ns (?ts ! 0) (?ts ! Suc ?n)"
    using durations_add[of "Suc ?n" ?ts] len by (simp del: upt_Suc)
  have ends: "hd ?ts = ?ts ! 0" "last ?ts = ?ts ! Suc ?n"
    by (subst hd_conv_nth; simp del: upt_Suc) (subst last_conv_nth; simp del: upt_Suc)
  have product: "int SF_BUFSIZE * (int (length ?ts - 1) - 1) = int (SF_BUFSIZE * ?n)"
    by (simp add: len)
  have range: "int_range (int m) \<longleftrightarrow> m < 2 ^ 31" for m
    by (auto simp: int_range_def)
  have "SF_BUFSIZE * ?n \<le> length s"
    using split by linarith
  then have "int_range (int (SF_BUFSIZE * ?n)) \<and> int_range (int (length s)) \<longleftrightarrow> length s < 2 ^ 31"
    unfolding range by linarith
  then have "measure_bandwidth SF_BUFSIZE ?l ?ts
      = (if length s < 2 ^ 31 then Some (?rows, int (length s), dur_ns (?ts ! 0) (?ts ! Suc ?n)) else None)"
    by (simp only: measure_bandwidth_def Let_def total product ends)
  then show ?thesis
    using ps sizes durs by (simp split: if_splits)
qed

subsection \<open>A transfer\<close>

abbreviation sample_sent :: byte_string where
  "sample_sent \<equiv> replicate 30000 (CHR ''x'')"

lemma sample_sent_fits: "length sample_sent < 2 ^ 63" "16 * (10 + length sample_sent div SF_BUFSIZE) \<le> 8388608"
  by (simp_all add: SF_BUFSIZE_def)

theorem send_file_witness:
  "\<exists>tr reply disk'. sf_send 8388608 (\<lambda>_. True) (\<lambda>k. (word_of_nat k, 7)) (Some sample_sent) = Sent tr
    \<and> sf_server_Send sample_fs ''/'' (pieces tr) = (reply, disk')
    \<and> view disk' [''received_file''] = Some (File sample_sent sample_clock) \<and> unat (rep_r reply) = 30000"
proof -
  have r: "resolve sample_fs (''/'' @ ''received_file'') = Inr [''received_file'']"
    by (simp add: resolve_def path_comps_def is_dir_view view_sample_fs)
  have d: "\<not> is_dir sample_fs [''received_file'']"
    by (simp add: is_dir_view view_sample_fs)
  have now: "fs_now sample_fs = sample_clock"
    by (simp add: sample_fs_def)
  show ?thesis
    using send_file_roundtrip[OF sample_sent_fits wf_sample_fs r d, of "\<lambda>k. (word_of_nat k, 7)"]
    unfolding now length_replicate by (elim exE conjE) simp
qed

end
