(* ===== verification/Measurement.thy ===== *)
theory Measurement
  imports Complex_Main "HOL-Library.Word"
begin

section \<open>The difference of two times\<close>

text \<open>
  \<^verbatim>\<open>sub_timespec\<close> of \<^verbatim>\<open>measurement/timespec_lib.cc\<close>, with which the measurement programs time their
  calls.  \<^verbatim>\<open>long\<close> and \<^verbatim>\<open>time_t\<close> are 64-bit words read as signed numbers.
\<close>

definition NS_PER_SECOND :: "64 word" where
  "NS_PER_SECOND = 1000000000"

text \<open>A \<^verbatim>\<open>struct timespec\<close> as (seconds, nanoseconds); \<^verbatim>\<open>*td\<close> is the result.\<close>

definition sub_timespec :: "64 word \<times> 64 word \<Rightarrow> 64 word \<times> 64 word \<Rightarrow> 64 word \<times> 64 word" where
  "sub_timespec t1 t2 =
     (let nsec = snd t2 - snd t1;
          sec = fst t2 - fst t1
      in if sint nsec < 0 then (sec - 1, nsec + NS_PER_SECOND) else (sec, nsec))"

text \<open>A time as the clock gives it: nanoseconds below a second, seconds far from the overflow.\<close>

definition clock_time :: "64 word \<times> 64 word \<Rightarrow> bool" where
  "clock_time t \<longleftrightarrow> \<bar>sint (fst t)\<bar> < 2 ^ 62 \<and> 0 \<le> sint (snd t) \<and> sint (snd t) < 1000000000"

definition nanoseconds :: "64 word \<times> 64 word \<Rightarrow> int" where
  "nanoseconds t = sint (fst t) * 1000000000 + sint (snd t)"

lemma sint_of_small: "- (2 ^ 63) \<le> k \<Longrightarrow> k < 2 ^ 63 \<Longrightarrow> sint (word_of_int k :: 64 word) = k"
  by (simp add: signed_of_int signed_take_bit_int_eq_self)

text \<open>
  For times of the clock, \<^verbatim>\<open>sub_timespec\<close> computes the exact difference, normalised: its
  nanoseconds lie between 0 and a second, and no step overflows.
\<close>

lemma sub_timespec_exact:
  assumes "clock_time t1" "clock_time t2"
  shows "nanoseconds (sub_timespec t1 t2) = nanoseconds t2 - nanoseconds t1
    \<and> 0 \<le> sint (snd (sub_timespec t1 t2)) \<and> sint (snd (sub_timespec t1 t2)) < 1000000000"
proof -
  define s1 n1 s2 n2 where "s1 = sint (fst t1)" and "n1 = sint (snd t1)" and "s2 = sint (fst t2)" and "n2 = sint (snd t2)"
  note d = s1_def n1_def s2_def n2_def
  have b: "\<bar>s1\<bar> < 2 ^ 62" "0 \<le> n1" "n1 < 1000000000" "\<bar>s2\<bar> < 2 ^ 62" "0 \<le> n2" "n2 < 1000000000"
    using assms by (simp_all add: clock_time_def d)
  have w: "snd t2 - snd t1 = word_of_int (n2 - n1)" "fst t2 - fst t1 = word_of_int (s2 - s1)"
    by (simp_all add: d)
  have n: "sint (snd t2 - snd t1) = n2 - n1"
    unfolding w by (rule sint_of_small) (use b in simp_all)
  have s: "sint (fst t2 - fst t1) = s2 - s1"
    unfolding w by (rule sint_of_small) (use b in simp_all)
  have n': "sint (snd t2 - snd t1 + NS_PER_SECOND) = n2 - n1 + 1000000000"
    and s': "sint (fst t2 - fst t1 - 1) = s2 - s1 - 1"
  proof -
    have "snd t2 - snd t1 + NS_PER_SECOND = word_of_int (n2 - n1 + 1000000000)"
      unfolding w NS_PER_SECOND_def by simp
    then show "sint (snd t2 - snd t1 + NS_PER_SECOND) = n2 - n1 + 1000000000"
      using sint_of_small[of "n2 - n1 + 1000000000"] b by simp
    have "fst t2 - fst t1 - 1 = word_of_int (s2 - s1 - 1)"
      unfolding w by simp
    then show "sint (fst t2 - fst t1 - 1) = s2 - s1 - 1"
      using sint_of_small[of "s2 - s1 - 1"] b by (simp; linarith)
  qed
  show ?thesis
    unfolding sub_timespec_def Let_def nanoseconds_def
    using b n s n' s' by (cases "n2 - n1 < 0") (simp_all add: d[symmetric] algebra_simps)
qed

end
