(* ===== verification/Drivers.thy ===== *)
theory Drivers
  imports Measurement Posix_Files Server_Start
begin

section \<open>The measurement programs\<close>

text \<open>
  The programs of \<^verbatim>\<open>src/measurement\<close> that are run on a mounted directory, against the calls of \<open>Posix\<close>.
  \<open>clock k\<close> is the \<open>k\<close>-th reading of the monotonic clock.  A program exits with a status and what it
  printed, or is ended by an exception or a fault.  Proved: \<^verbatim>\<open>driver_write\<close> leaves the file it
  promises and prints the exact times of opening and closing, and \<^verbatim>\<open>driver_read_pause\<close> prints the
  file in pieces of at most 100 bytes that make up the whole.
\<close>

type_synonym clock = "nat \<Rightarrow> 64 word \<times> 64 word"

datatype 'a program = Exited int "'a option" fs | Aborted

text \<open>\<^verbatim>\<open>diff.tv_sec * NS_PER_SECOND + diff.tv_nsec\<close>\<close>

definition interval_ns :: "clock \<Rightarrow> nat \<Rightarrow> 64 word" where
  "interval_ns clock k =
     (let diff = sub_timespec (clock k) (clock (Suc k)) in fst diff * NS_PER_SECOND + snd diff)"

text \<open>\<^verbatim>\<open>atoi\<close>, on numbers that fit an \<^verbatim>\<open>int\<close>: blanks, a sign, digits.\<close>

definition is_digit :: "char \<Rightarrow> bool" where
  "is_digit c \<longleftrightarrow> c \<in> set ''0123456789''"

definition is_space :: "char \<Rightarrow> bool" where
  "is_space c \<longleftrightarrow> c \<in> {CHR '' '', CHR 0x09, CHR 0x0A, CHR 0x0B, CHR 0x0C, CHR 0x0D}"

definition digits_value :: "string \<Rightarrow> nat" where
  "digits_value ds = fold (\<lambda>c v. 10 * v + (of_char c - 48)) ds 0"

definition atoi :: "string \<Rightarrow> int" where
  "atoi s =
     (case dropWhile is_space s of
        [] \<Rightarrow> 0
      | c # r \<Rightarrow>
          if c = CHR ''-'' then - int (digits_value (takeWhile is_digit r))
          else if c = CHR ''+'' then int (digits_value (takeWhile is_digit r))
          else int (digits_value (takeWhile is_digit (c # r))))"

subsection \<open>driver_read and driver_write\<close>

text \<open>A missing argument is the null pointer, with which \<^verbatim>\<open>open\<close> fails.\<close>

definition driver_read :: "clock \<Rightarrow> fs \<Rightarrow> string list \<Rightarrow> (64 word \<times> 64 word) program" where
  "driver_read clock s argv =
     (if length argv < 2 then Exited 1 None s
      else case sys_open s (argv ! 1) O_RDONLY 0 of
        (s1, Inl e) \<Rightarrow> Exited 1 None s1
      | (s1, Inr fd) \<Rightarrow> Exited 0 (Some (interval_ns clock 0, interval_ns clock 2)) (fst (sys_close s1 fd)))"

text \<open>
  \<^verbatim>\<open>std::string buf(atoi(argv[2]), '0')\<close> throws for a negative number, and \<^verbatim>\<open>atoi\<close> of a null pointer
  faults.
\<close>

definition driver_write :: "clock \<Rightarrow> fs \<Rightarrow> string list \<Rightarrow> (64 word \<times> 64 word) program" where
  "driver_write clock s argv =
     (if length argv < 3 then Aborted
      else if atoi (argv ! 2) < 0 then Aborted
      else
        let buf = replicate (nat (atoi (argv ! 2))) (CHR ''0'') in
        case sys_open s (argv ! 1) (O_RDWR\<lparr>o_trunc := True, o_creat := True\<rparr>) 0x1FF of
          (s1, Inl e) \<Rightarrow> Exited 1 None s1
        | (s1, Inr fd) \<Rightarrow>
            Exited 0 (Some (interval_ns clock 0, interval_ns clock 2))
              (fst (sys_close (fst (sys_pwrite s1 fd buf 0)) fd)))"

subsection \<open>driver_fsync, driver_read_pause\<close>

text \<open>The C string of the argument is a \<^verbatim>\<open>std::string\<close>; nothing is printed but the pause.\<close>

definition driver_fsync :: "fs \<Rightarrow> string list \<Rightarrow> string program" where
  "driver_fsync s argv =
     (if length argv < 2 then Exited 1 None s
      else case sys_open s (argv ! 1) O_RDWR 0x1FF of
        (s1, Inl e) \<Rightarrow> Exited 1 None s1
      | (s1, Inr fd) \<Rightarrow>
          if length argv < 3 then Aborted
          else Exited 0 (Some (''stop for a while'' @ [newline] @ ''start running'' @ [newline]))
            (fst (sys_close (fst (sys_pwrite s1 fd (argv ! 2) 0)) fd)))"

definition PIECE :: nat where "PIECE = 100"

definition driver_read_pause :: "fs \<Rightarrow> string list \<Rightarrow> string program" where
  "driver_read_pause s argv =
     (if length argv < 2 then Exited 1 None s
      else case ifstream_read s (argv ! 1) of
        None \<Rightarrow> Exited 1 None s
      | Some None \<Rightarrow> Exited 0 (Some []) s
      | Some (Some content) \<Rightarrow>
          let ps = send_chunks PIECE accept_all 0 content in
          Exited 0 (Some (concat (map (\<lambda>b. b @ [newline]) (butlast ps)) @ ''final'' @ [newline] @ last ps @ [newline])) s)"

subsection \<open>loop_write_client and fail_before_close\<close>

definition WRITEFILE :: string where
  "WRITEFILE = ''/users/c5h11oh/mount/writefile''"

text \<open>
  Ten writes of 65536 bytes at random places; \<open>rand\<close> are the values of the generator.  A short write,
  which includes one through the descriptor -1, ends the program.
\<close>

fun loop_writes :: "(nat \<Rightarrow> nat) \<Rightarrow> nat \<Rightarrow> fs \<Rightarrow> int \<Rightarrow> fs \<times> bool" where
  "loop_writes rand 0 s fd = (s, True)"
| "loop_writes rand (Suc k) s fd =
     (case sys_pwrite s fd (replicate 65536 (CHR 157)) (int (rand k mod 209600000)) of
        (s', Inl e) \<Rightarrow> (s', False)
      | (s', Inr n) \<Rightarrow> if n \<noteq> 65536 then (s', False) else loop_writes rand k s' fd)"

definition loop_write_client :: "clock \<Rightarrow> (nat \<Rightarrow> nat) \<Rightarrow> fs \<Rightarrow> (64 word) program" where
  "loop_write_client clock rand s =
     (case resolve s WRITEFILE of
        Inl e \<Rightarrow> Exited 1 None s
      | Inr cp \<Rightarrow>
          if view s cp = None then Exited 1 None s
          else case sys_open s WRITEFILE O_WRONLY 0 of
            (s1, Inl e) \<Rightarrow> Exited 1 None s1
          | (s1, Inr fd) \<Rightarrow>
              (case loop_writes rand 10 s1 fd of
                 (s2, False) \<Rightarrow> Exited 1 None s2
               | (s2, True) \<Rightarrow>
                   Exited 0 (Some ((fst (clock 1) - fst (clock 0)) * 1000000000 + (snd (clock 1) - snd (clock 0))))
                     (fst (sys_close s2 fd))))"

text \<open>\<^verbatim>\<open>fail_before_close.cpp\<close>: a stream opened to append, one line flushed into it.\<close>

definition APPEND_FILE :: string where
  "APPEND_FILE = ''/users/c5h11oh/mount/fail_before_close.txt''"

definition fail_before_close :: "fs \<Rightarrow> unit program" where
  "fail_before_close s =
     (case sys_open s APPEND_FILE (O_WRONLY\<lparr>o_creat := True, o_append := True\<rparr>) 0x1B6 of
        (s1, Inl e) \<Rightarrow> Exited 1 None s1
      | (s1, Inr fd) \<Rightarrow>
          Exited 0 (Some ()) (fst (sys_close (fst (sys_pwrite s1 fd (''Hello, world!'' @ [newline]) 0)) fd)))"

subsection \<open>Opening and emptying a file\<close>

lemma sys_open_emptied:
  assumes wf: "wf_fs s" and r: "resolve s p = Inr cp" "\<not> is_dir s cp"
    and fl: "o_creat fl" "o_trunc fl" "\<not> o_excl fl"
  shows "\<exists>s'. sys_open s p fl mode = (s', Inr (fs_next_fd s)) \<and> wf_fs s' \<and> fs_now s' = fs_now s
    \<and> fd_at s' (fs_next_fd s) cp fl \<and> view s' = (view s)(cp \<mapsto> File [] (fs_now s))"
proof -
  obtain s1 i where o: "open_node s p fl mode = (s1, Inr i)" "node s1 cp = Some i"
    "view s1 = (view s)(cp \<mapsto> File [] (fs_now s))" "fs_next_fd s1 = fs_next_fd s" "fs_now s1 = fs_now s"
  proof (cases "node s cp")
    case None
    show thesis
      by (rule that[of "create_node s cp False mode" "fs_next s"])
        (use None r fl view_create[OF wf None, of False mode] in
          \<open>simp_all add: open_node_def node_create, simp_all add: create_node_def\<close>)
  next
    case (Some i)
    then have nd: "\<not> i_isdir (fs_inodes s i)" using r(2) by (simp add: is_dir_inode)
    show thesis
      by (rule that[of "set_data s i []" i])
        (use Some nd r fl view_set_data[OF wf Some nd, of "[]"] in
          \<open>simp_all add: open_node_def, simp_all add: set_data_def\<close>)
  qed
  have wf1: "wf_fs s1"
    using wf_open_node[OF wf, of p fl mode] o(1) by simp
  let ?f = "\<lparr>of_ino = i, of_read = o_read fl, of_write = o_write fl, of_append = o_append fl\<rparr>"
  let ?s' = "s1\<lparr>fs_fds := (fs_fds s1)(fs_next_fd s1 \<mapsto> ?f), fs_next_fd := fs_next_fd s1 + 1\<rparr>"
  have "i < fs_next s1" by (rule node_less[OF wf1 o(2)])
  then have "wf_fs ?s'"
    using wf1 by (fastforce simp: wf_fs_def)
  then show ?thesis
    using o by (intro exI[of _ ?s']) (simp add: sys_open_def fd_at_def)
qed

subsection \<open>What driver_write leaves and prints\<close>

text \<open>A reading of the monotonic clock: nanoseconds below a second, less than \<open>2 ^ 32\<close> seconds.\<close>

definition clock_reading :: "64 word \<times> 64 word \<Rightarrow> bool" where
  "clock_reading t \<longleftrightarrow> 0 \<le> sint (fst t) \<and> sint (fst t) < 2 ^ 32 \<and> 0 \<le> sint (snd t) \<and> sint (snd t) < 1000000000"

lemma interval_exact:
  assumes "clock_reading (clock k)" "clock_reading (clock (Suc k))"
  shows "sint (interval_ns clock k) = nanoseconds (clock (Suc k)) - nanoseconds (clock k)"
proof -
  let ?d = "sub_timespec (clock k) (clock (Suc k))"
  have "clock_time (clock k)" "clock_time (clock (Suc k))"
    using assms by (simp_all add: clock_reading_def clock_time_def)
  then have d: "nanoseconds ?d = nanoseconds (clock (Suc k)) - nanoseconds (clock k)"
    using sub_timespec_exact by blast
  have "interval_ns clock k = word_of_int (sint (fst ?d)) * word_of_int 1000000000 + word_of_int (sint (snd ?d))"
    by (simp add: interval_ns_def NS_PER_SECOND_def Let_def)
  also have "\<dots> = word_of_int (nanoseconds ?d)"
    by (simp only: nanoseconds_def of_int_add of_int_mult)
  finally have eq: "interval_ns clock k = word_of_int (nanoseconds ?d)" .
  have bound: "- (2 ^ 63) \<le> nanoseconds ?d" "nanoseconds ?d < 2 ^ 63"
    using assms unfolding d by (simp_all add: nanoseconds_def clock_reading_def)
  have "sint (word_of_int (nanoseconds ?d) :: 64 word) = nanoseconds ?d"
    by (rule sint_of_small) (use bound in simp_all)
  then show ?thesis unfolding eq d .
qed

text \<open>
  \<^verbatim>\<open>driver_write\<close> run with a path and a number creates or empties the file, leaves it with that many
  \<^verbatim>\<open>0\<close> characters and everything else as it was, and prints exactly the nanoseconds that opening and
  closing took.
\<close>

lemma driver_write_measures:
  assumes "wf_fs s" "resolve s path = Inr cp" "\<not> is_dir s cp" "atoi number = int n"
    and "\<forall>k < 4. clock_reading (clock k)"
  shows "\<exists>opening closing s'. driver_write clock s [prog, path, number] = Exited 0 (Some (opening, closing)) s'
    \<and> view s' = (view s)(cp \<mapsto> File (replicate n (CHR ''0'')) (fs_now s))
    \<and> sint opening = nanoseconds (clock 1) - nanoseconds (clock 0)
    \<and> sint closing = nanoseconds (clock 3) - nanoseconds (clock 2)"
proof -
  let ?fl = "O_RDWR\<lparr>o_trunc := True, o_creat := True\<rparr>"
  have fl: "o_creat ?fl" "o_trunc ?fl" "\<not> o_excl ?fl" "o_write ?fl" "\<not> o_append ?fl"
    by (simp_all add: O_RDWR_def O_RDONLY_def)
  obtain s1 where s1: "sys_open s path ?fl 0x1FF = (s1, Inr (fs_next_fd s))" "wf_fs s1" "fs_now s1 = fs_now s"
    "fd_at s1 (fs_next_fd s) cp ?fl" "view s1 = (view s)(cp \<mapsto> File [] (fs_now s))"
    using sys_open_emptied[OF assms(1-3) fl(1-3)] by blast
  let ?buf = "replicate n (CHR ''0'')"
  let ?s2 = "fst (sys_pwrite s1 (fs_next_fd s) ?buf 0)"
  have v: "view ?s2 = (view s)(cp \<mapsto> File ?buf (fs_now s))"
  proof (cases n)
    case 0
    then show ?thesis using s1(4,5) fl(4) by (auto simp: fd_at_def sys_pwrite_def)
  next
    case (Suc m)
    then obtain s2 where "sys_pwrite s1 (fs_next_fd s) ?buf 0 = (s2, Inr (length ?buf))"
      "view s2 = (view s1)(cp \<mapsto> File (put_bytes [] (nat 0) ?buf) (fs_now s1))"
      using sys_pwrite_at[OF s1(2,4) _ fl(4,5), of "[]" "fs_now s" 0 ?buf] s1(5) by auto
    then show ?thesis
      using s1(3,5) by (simp add: put_bytes_def)
  qed
  have "driver_write clock s [prog, path, number]
      = Exited 0 (Some (interval_ns clock 0, interval_ns clock 2)) (fst (sys_close ?s2 (fs_next_fd s)))"
    using s1(1) assms(4) by (simp add: driver_write_def Let_def)
  moreover have "sint (interval_ns clock 0) = nanoseconds (clock 1) - nanoseconds (clock 0)"
    "sint (interval_ns clock 2) = nanoseconds (clock 3) - nanoseconds (clock 2)"
    using interval_exact[of clock 0] interval_exact[of clock 2] assms(5) by simp_all
  ultimately show ?thesis
    using v by simp
qed

text \<open>What the reading loop prints: the pieces, of at most 100 bytes, make up the file.\<close>

lemma driver_read_pause_prints:
  assumes "resolve s path = Inr cp" "view s cp = Some (File d t)"
  obtains ps where "concat ps = d" "\<forall>b \<in> set ps. length b \<le> 100" "ps \<noteq> []"
    "driver_read_pause s [prog, path]
      = Exited 0 (Some (concat (map (\<lambda>b. b @ [newline]) (butlast ps)) @ ''final'' @ [newline] @ last ps @ [newline])) s"
proof (rule that[of "send_chunks PIECE accept_all 0 d"])
  have "ifstream_read s path = Some (Some d)"
    using assms by (rule ifstream_read_file)
  then show "driver_read_pause s [prog, path] = Exited 0 (Some (concat (map (\<lambda>b. b @ [newline])
      (butlast (send_chunks PIECE accept_all 0 d))) @ ''final'' @ [newline]
      @ last (send_chunks PIECE accept_all 0 d) @ [newline])) s"
    by (simp add: driver_read_pause_def Let_def)
  show "\<forall>b \<in> set (send_chunks PIECE accept_all 0 d). length b \<le> 100"
    using send_chunks_size[of PIECE _ accept_all 0 d] by (auto simp: PIECE_def)
qed simp_all

end
