(* ===== verification/Bb_Log.thy ===== *)
theory Bb_Log
  imports Printf "HOL-Library.State_Monad"
begin

section \<open>The log of the tutorial file system\<close>

text \<open>
  \<^verbatim>\<open>log.c\<close>, \<^verbatim>\<open>log.h\<close> and \<^verbatim>\<open>params.h\<close> of the FUSE tutorial shipped with the repository, in the state monad: what
  every function writes to the log, and what becomes of \<^verbatim>\<open>errno\<close>, which a library call made for the log
  may change before it is read.  Proved: logging touches nothing but the log and \<^verbatim>\<open>errno\<close>, and
  \<^verbatim>\<open>log_syscall\<close> returns the negated \<^verbatim>\<open>errno\<close> the call left only if writing the error message keeps it.
\<close>

subsection \<open>State\<close>

record bb_state =
  logfile :: string
  rootdir :: string

text \<open>
  The process: \<open>kernel\<close> is everything behind the system calls; \<open>smashed\<close> is set by a write behind the end of
  an array, after which the C program has no meaning and nothing is claimed.
\<close>

record 'w bb =
  bb_data :: bb_state
  errno :: int
  kernel :: 'w
  smashed :: bool

text \<open>
  What the C library is free to choose: the value a \<^verbatim>\<open>vfprintf\<close> of a text leaves in \<^verbatim>\<open>errno\<close>, the texts of
  \<^verbatim>\<open>strerror\<close>, the address of the log's \<^verbatim>\<open>FILE\<close>; and whether \<^verbatim>\<open>HAVE_FDATASYNC\<close> is defined.
\<close>

record bb_env =
  vfprintf_errno :: "string \<Rightarrow> int \<Rightarrow> int"
  strerror :: "int \<Rightarrow> string"
  logfile_at :: "64 word"
  has_fdatasync :: bool

subsection \<open>Functions\<close>

text \<open>\<^verbatim>\<open>fopen("bbfs.log", "w")\<close> empties the file; \<open>None\<close> is \<^verbatim>\<open>exit(EXIT_FAILURE)\<close>.\<close>

definition log_open :: "bool \<Rightarrow> string option" where
  "log_open can_open = (if can_open then Some [] else None)"

definition log_msg :: "bb_env \<Rightarrow> string \<Rightarrow> ('w bb, unit) state" where
  "log_msg e text = State_Monad.update (\<lambda>s. s\<lparr>bb_data := (bb_data s)\<lparr>logfile := logfile (bb_data s) @ text\<rparr>,
     errno := vfprintf_errno e text (errno s)\<rparr>)"

definition get_errno :: "('w bb, int) state" where
  "get_errno = do { s \<leftarrow> State_Monad.get; State_Monad.return (errno s) }"

definition set_errno :: "int \<Rightarrow> ('w bb, unit) state" where
  "set_errno x = State_Monad.update (\<lambda>s. s\<lparr>errno := x\<rparr>)"

definition log_error :: "bb_env \<Rightarrow> string \<Rightarrow> ('w bb, int) state" where
  "log_error e func = do {
     err \<leftarrow> get_errno;
     log_msg e (''    ERROR '' @ func @ '': '' @ strerror e err @ [newline]);
     State_Monad.return (- err)
   }"

definition log_retstat :: "bb_env \<Rightarrow> string \<Rightarrow> int \<Rightarrow> ('w bb, unit) state" where
  "log_retstat e func retstat = do {
     errsave \<leftarrow> get_errno;
     log_msg e (''    '' @ func @ '' returned '' @ put_int retstat @ [newline]);
     set_errno errsave
   }"

text \<open>The value of \<^verbatim>\<open>log_error\<close> is dropped; \<^verbatim>\<open>errno\<close> is read again.\<close>

definition log_syscall :: "bb_env \<Rightarrow> string \<Rightarrow> int \<Rightarrow> int \<Rightarrow> ('w bb, int) state" where
  "log_syscall e func retstat min_ret = do {
     log_retstat e func retstat;
     if retstat < min_ret then do {
       log_error e func;
       err \<leftarrow> get_errno;
       State_Monad.return (- err)
     }
     else State_Monad.return retstat
   }"

definition log_struct :: "bb_env \<Rightarrow> string \<Rightarrow> string \<Rightarrow> ('w bb, unit) state" where
  "log_struct e field text = log_msg e (''    '' @ field @ '' = '' @ text @ [newline])"

text \<open>One \<^verbatim>\<open>log_struct\<close> after the other.\<close>

fun log_structs :: "bb_env \<Rightarrow> (string \<times> string) list \<Rightarrow> ('w bb, unit) state" where
  "log_structs e [] = State_Monad.return ()"
| "log_structs e ((field, text) # rest) = do { log_struct e field text; log_structs e rest }"

subsection \<open>Structures\<close>

text \<open>
  \<^verbatim>\<open>struct fuse_file_info\<close> of FUSE 2.6.  \<open>fi_at\<close> is its own address, which some messages show.
\<close>

record file_info =
  fi_at :: "64 word"
  fi_flags :: "32 word"
  fi_fh_old :: "64 word"
  fi_writepage :: "32 word"
  fi_direct_io :: bool
  fi_keep_cache :: bool
  fi_fh :: "64 word"
  fi_lock_owner :: "64 word"

record fuse_context =
  ctx_fuse :: "64 word"
  ctx_uid :: "32 word"
  ctx_gid :: "32 word"
  ctx_pid :: "32 word"
  ctx_private_data :: "64 word"
  ctx_umask :: "32 word"

record conn_info =
  proto_major :: "32 word"
  proto_minor :: "32 word"
  async_read :: "32 word"
  max_write :: "32 word"
  max_readahead :: "32 word"
  capable :: "32 word"
  conn_want :: "32 word"
  max_background :: "32 word"
  congestion_threshold :: "32 word"

record statvfs_buf =
  f_bsize :: "64 word"
  f_frsize :: "64 word"
  f_blocks :: "64 word"
  f_bfree :: "64 word"
  f_bavail :: "64 word"
  f_files :: "64 word"
  f_ffree :: "64 word"
  f_favail :: "64 word"
  f_fsid :: "64 word"
  f_flag :: "64 word"
  f_namemax :: "64 word"

record utimbuf =
  actime :: "64 word"
  modtime :: "64 word"

definition bit_d :: "bool \<Rightarrow> string" where
  "bit_d b = (if b then ''1'' else ''0'')"

definition log_fuse_context :: "bb_env \<Rightarrow> fuse_context \<Rightarrow> ('w bb, unit) state" where
  "log_fuse_context e ctx = do {
     log_msg e (''    context:'' @ [newline]);
     s \<leftarrow> State_Monad.get;
     log_structs e
       [(''fuse'', fmt_addr (ctx_fuse ctx)), (''uid'', fmt_d (ctx_uid ctx)), (''gid'', fmt_d (ctx_gid ctx)),
        (''pid'', fmt_d (ctx_pid ctx)), (''private_data'', fmt_addr (ctx_private_data ctx)),
        (''logfile'', fmt_addr (logfile_at e)), (''rootdir'', rootdir (bb_data s)),
        (''umask'', pad (CHR ''0'') 5 (fmt_o (ctx_umask ctx)))]
   }"

definition log_conn :: "bb_env \<Rightarrow> conn_info \<Rightarrow> ('w bb, unit) state" where
  "log_conn e conn = do {
     log_msg e (''    conn:'' @ [newline]);
     log_structs e
       [(''proto_major'', fmt_d (proto_major conn)), (''proto_minor'', fmt_d (proto_minor conn)),
        (''async_read'', fmt_d (async_read conn)), (''max_write'', fmt_d (max_write conn)),
        (''max_readahead'', fmt_d (max_readahead conn)), (''capable'', fmt_08x (capable conn)),
        (''want'', fmt_08x (conn_want conn)), (''max_background'', fmt_d (max_background conn)),
        (''congestion_threshold'', fmt_d (congestion_threshold conn))]
   }"

definition log_fi :: "bb_env \<Rightarrow> file_info \<Rightarrow> ('w bb, unit) state" where
  "log_fi e fi = do {
     log_msg e (''    fi:'' @ [newline]);
     log_structs e
       [(''flags'', ''0x'' @ fmt_08x (fi_flags fi)), (''fh_old'', ''0x'' @ fmt_08lx (fi_fh_old fi)),
        (''writepage'', fmt_d (fi_writepage fi)), (''direct_io'', bit_d (fi_direct_io fi)),
        (''keep_cache'', bit_d (fi_keep_cache fi)), (''fh'', ''0x'' @ fmt_016llx (fi_fh fi)),
        (''lock_owner'', ''0x'' @ fmt_016llx (fi_lock_owner fi))]
   }"

definition log_stat :: "bb_env \<Rightarrow> stat_buf \<Rightarrow> ('w bb, unit) state" where
  "log_stat e si = do {
     log_msg e (''    si:'' @ [newline]);
     log_structs e
       [(''st_dev'', put_long (st_dev si)), (''st_ino'', put_long (st_ino si)), (''st_mode'', ''0'' @ fmt_o (st_mode si)),
        (''st_nlink'', fmt_d (ucast (st_nlink si))), (''st_uid'', fmt_d (st_uid si)), (''st_gid'', fmt_d (st_gid si)),
        (''st_rdev'', put_long (st_rdev si)), (''st_size'', put_long (st_size si)), (''st_blksize'', put_long (st_blksize si)),
        (''st_blocks'', put_long (st_blocks si)), (''st_atime'', ''0x'' @ fmt_08lx (tv_sec (st_atim si))),
        (''st_mtime'', ''0x'' @ fmt_08lx (tv_sec (st_mtim si))), (''st_ctime'', ''0x'' @ fmt_08lx (tv_sec (st_ctim si)))]
   }"

definition log_statvfs :: "bb_env \<Rightarrow> statvfs_buf \<Rightarrow> ('w bb, unit) state" where
  "log_statvfs e sv = do {
     log_msg e (''    sv:'' @ [newline]);
     log_structs e
       [(''f_bsize'', put_long (f_bsize sv)), (''f_frsize'', put_long (f_frsize sv)), (''f_blocks'', put_long (f_blocks sv)),
        (''f_bfree'', put_long (f_bfree sv)), (''f_bavail'', put_long (f_bavail sv)), (''f_files'', put_long (f_files sv)),
        (''f_ffree'', put_long (f_ffree sv)), (''f_favail'', put_long (f_favail sv)), (''f_fsid'', put_long (f_fsid sv)),
        (''f_flag'', ''0x'' @ fmt_08lx (f_flag sv)), (''f_namemax'', put_long (f_namemax sv))]
   }"

definition log_utime :: "bb_env \<Rightarrow> utimbuf \<Rightarrow> ('w bb, unit) state" where
  "log_utime e buf = do {
     log_msg e (''    buf:'' @ [newline]);
     log_structs e [(''actime'', ''0x'' @ fmt_08lx (actime buf)), (''modtime'', ''0x'' @ fmt_08lx (modtime buf))]
   }"

subsection \<open>Logging touches the log and errno only\<close>

text \<open>What a computation leaves, and that it leaves everything but the log and \<^verbatim>\<open>errno\<close>.\<close>

definition after :: "('w bb, 'a) state \<Rightarrow> 'w bb \<Rightarrow> 'w bb" where
  "after m s = snd (run_state m s)"

definition leaves :: "'w bb \<Rightarrow> 'w bb \<Rightarrow> bool" where
  "leaves s s' \<longleftrightarrow> kernel s' = kernel s \<and> smashed s' = smashed s \<and> rootdir (bb_data s') = rootdir (bb_data s)
     \<and> (\<exists>t. logfile (bb_data s') = logfile (bb_data s) @ t)"

definition only_logs :: "('w bb, 'a) state \<Rightarrow> bool" where
  "only_logs m \<longleftrightarrow> state_io_rel leaves m"

lemma only_logs_bind: "only_logs m \<Longrightarrow> (\<And>x. only_logs (f x)) \<Longrightarrow> only_logs (State_Monad.bind m f)"
  unfolding only_logs_def
proof (rule state_io_relI)
  fix b s s'
  assume m: "state_io_rel leaves m" and f: "\<And>x. state_io_rel leaves (f x)" and r: "run_state (State_Monad.bind m f) s = (b, s')"
  obtain a s1 where one: "run_state m s = (a, s1)" "run_state (f a) s1 = (b, s')"
    using r by (auto split: prod.splits)
  from state_io_relD[OF m one(1)] state_io_relD[OF f one(2)] show "leaves s s'"
    by (auto simp: leaves_def)
qed

lemma only_logs_basic: "only_logs (log_msg e t)" "only_logs get_errno" "only_logs (set_errno x)"
  "only_logs (State_Monad.return y)" "only_logs State_Monad.get"
  by (auto simp: only_logs_def leaves_def state_io_rel_def log_msg_def get_errno_def set_errno_def State_Monad.update_def)

named_theorems logging \<open>functions that only log\<close>

lemmas [logging] = only_logs_basic

lemma only_logs_error [logging]: "only_logs (log_error e f)"
  unfolding log_error_def by (intro only_logs_bind logging)

lemma only_logs_retstat [logging]: "only_logs (log_retstat e f r)"
  unfolding log_retstat_def by (intro only_logs_bind logging)

lemma only_logs_syscall [logging]: "only_logs (log_syscall e f r m)"
  unfolding log_syscall_def by (simp add: only_logs_bind logging)

lemma only_logs_structs [logging]: "only_logs (log_structs e xs)"
proof (induction xs)
  case (Cons x xs)
  obtain a b where "x = (a, b)" by (cases x)
  then show ?case
    using Cons by (simp add: log_struct_def only_logs_bind logging)
qed (simp add: logging)

lemma only_logs_dumps [logging]:
  "only_logs (log_fuse_context e ctx)" "only_logs (log_conn e conn)" "only_logs (log_fi e fi)" "only_logs (log_stat e si)"
  "only_logs (log_statvfs e sv)" "only_logs (log_utime e buf)"
  unfolding log_fuse_context_def log_conn_def log_fi_def log_stat_def log_statvfs_def log_utime_def
  by (intro only_logs_bind logging)+

lemma only_logs_after:
  assumes "only_logs m"
  shows "kernel (after m s) = kernel s" "smashed (after m s) = smashed s"
    "rootdir (bb_data (after m s)) = rootdir (bb_data s)"
  using assms unfolding only_logs_def state_io_rel_def after_def leaves_def by simp_all

lemmas after_logging [simp] = logging[THEN only_logs_after(1)] logging[THEN only_logs_after(2)]
  logging[THEN only_logs_after(3)]

lemma run_logging:
  fixes m :: "('w bb, unit) state"
  shows "run_state m s = ((), after m s)"
  by (simp add: after_def prod_eq_iff)

lemmas run_logs [simp] = run_logging[of "log_msg e t" for e t] run_logging[of "log_fi e fi" for e fi]
  run_logging[of "log_stat e si" for e si] run_logging[of "log_statvfs e sv" for e sv]
  run_logging[of "log_conn e conn" for e conn] run_logging[of "log_fuse_context e ctx" for e ctx]

subsection \<open>Error numbers\<close>

text \<open>Writing to the log leaves \<^verbatim>\<open>errno\<close> alone.\<close>

definition quiet :: "bb_env \<Rightarrow> bool" where
  "quiet e \<longleftrightarrow> (\<forall>t x. vfprintf_errno e t x = x)"

lemma errno_after_msg [simp]: "errno (after (log_msg e t) s) = vfprintf_errno e t (errno s)"
  by (simp add: after_def log_msg_def State_Monad.update_def)

lemma run_get_errno [simp]: "run_state get_errno s = (errno s, s)"
  by (simp add: get_errno_def)

lemma run_log_error:
  "run_state (log_error e func) s
     = (- errno s, after (log_msg e (''    ERROR '' @ func @ '': '' @ strerror e (errno s) @ [newline])) s)"
  by (simp add: log_error_def)

text \<open>
  The result of a system call as \<^verbatim>\<open>log_syscall\<close> hands it on.  For a failed call it is the negation of what
  the error message has left in \<^verbatim>\<open>errno\<close>.
\<close>

lemma fst_log_syscall:
  "fst (run_state (log_syscall e func r m) s)
     = (if r < m then - vfprintf_errno e (''    ERROR '' @ func @ '': '' @ strerror e (errno s) @ [newline]) (errno s) else r)"
  by (simp add: log_syscall_def log_retstat_def set_errno_def run_log_error State_Monad.update_def)

lemma run_log_syscall: "run_state (log_syscall e func r m) s = (fst (run_state (log_syscall e func r m) s), after (log_syscall e func r m) s)"
  by (simp add: after_def)

end
