(* ===== verification/Bbfs.thy ===== *)
theory Bbfs
  imports Bb_Log
begin

section \<open>The tutorial file system\<close>

text \<open>
  \<^verbatim>\<open>bbfs.c\<close> of the FUSE tutorial shipped with the repository, from which the client's structure comes: every
  callback \<^verbatim>\<open>bb_*\<close> in the state monad of \<open>Bb_Log\<close>, with its log messages, the table \<^verbatim>\<open>bb_oper\<close> and \<^verbatim>\<open>main\<close>.
  The system calls are a record of functions over an unspecified world.  Buffers the callbacks fill are
  arguments and results; their addresses, which the messages show, are arguments.
\<close>

subsection \<open>System calls\<close>

text \<open>
  A failed call gives its error number.  \<open>c_lgetxattr\<close> and \<open>c_llistxattr\<close> give the length they return and the
  bytes they store; \<open>c_readdir\<close> the address and the name of an entry, or nothing at the end.
\<close>

record 'w libc =
  c_lstat :: "string \<Rightarrow> 'w \<Rightarrow> stat_buf sysres \<times> 'w"
  c_readlink :: "string \<Rightarrow> nat \<Rightarrow> 'w \<Rightarrow> byte_string sysres \<times> 'w"
  c_open :: "string \<Rightarrow> 32 word \<Rightarrow> 32 word \<Rightarrow> 'w \<Rightarrow> int sysres \<times> 'w"
  c_close :: "int \<Rightarrow> 'w \<Rightarrow> unit sysres \<times> 'w"
  c_mkfifo :: "string \<Rightarrow> 32 word \<Rightarrow> 'w \<Rightarrow> unit sysres \<times> 'w"
  c_mknod :: "string \<Rightarrow> 32 word \<Rightarrow> 64 word \<Rightarrow> 'w \<Rightarrow> unit sysres \<times> 'w"
  c_mkdir :: "string \<Rightarrow> 32 word \<Rightarrow> 'w \<Rightarrow> unit sysres \<times> 'w"
  c_unlink :: "string \<Rightarrow> 'w \<Rightarrow> unit sysres \<times> 'w"
  c_rmdir :: "string \<Rightarrow> 'w \<Rightarrow> unit sysres \<times> 'w"
  c_symlink :: "string \<Rightarrow> string \<Rightarrow> 'w \<Rightarrow> unit sysres \<times> 'w"
  c_rename :: "string \<Rightarrow> string \<Rightarrow> 'w \<Rightarrow> unit sysres \<times> 'w"
  c_link :: "string \<Rightarrow> string \<Rightarrow> 'w \<Rightarrow> unit sysres \<times> 'w"
  c_chmod :: "string \<Rightarrow> 32 word \<Rightarrow> 'w \<Rightarrow> unit sysres \<times> 'w"
  c_chown :: "string \<Rightarrow> 32 word \<Rightarrow> 32 word \<Rightarrow> 'w \<Rightarrow> unit sysres \<times> 'w"
  c_truncate :: "string \<Rightarrow> int \<Rightarrow> 'w \<Rightarrow> unit sysres \<times> 'w"
  c_utime :: "string \<Rightarrow> 64 word \<Rightarrow> 'w \<Rightarrow> unit sysres \<times> 'w"
  c_pread :: "int \<Rightarrow> nat \<Rightarrow> int \<Rightarrow> 'w \<Rightarrow> byte_string sysres \<times> 'w"
  c_pwrite :: "int \<Rightarrow> byte_string \<Rightarrow> int \<Rightarrow> 'w \<Rightarrow> nat sysres \<times> 'w"
  c_statvfs :: "string \<Rightarrow> 'w \<Rightarrow> statvfs_buf sysres \<times> 'w"
  c_fsync :: "int \<Rightarrow> 'w \<Rightarrow> unit sysres \<times> 'w"
  c_fdatasync :: "int \<Rightarrow> 'w \<Rightarrow> unit sysres \<times> 'w"
  c_lsetxattr :: "string \<Rightarrow> string \<Rightarrow> byte_string \<Rightarrow> 32 word \<Rightarrow> 'w \<Rightarrow> unit sysres \<times> 'w"
  c_lgetxattr :: "string \<Rightarrow> string \<Rightarrow> nat \<Rightarrow> 'w \<Rightarrow> (nat \<times> byte_string) sysres \<times> 'w"
  c_llistxattr :: "string \<Rightarrow> nat \<Rightarrow> 'w \<Rightarrow> (nat \<times> byte_string) sysres \<times> 'w"
  c_lremovexattr :: "string \<Rightarrow> string \<Rightarrow> 'w \<Rightarrow> unit sysres \<times> 'w"
  c_opendir :: "string \<Rightarrow> 'w \<Rightarrow> 64 word sysres \<times> 'w"
  c_readdir :: "64 word \<Rightarrow> 'w \<Rightarrow> (64 word \<times> string) option sysres \<times> 'w"
  c_closedir :: "64 word \<Rightarrow> 'w \<Rightarrow> unit sysres \<times> 'w"
  c_access :: "string \<Rightarrow> 32 word \<Rightarrow> 'w \<Rightarrow> unit sysres \<times> 'w"
  c_ftruncate :: "int \<Rightarrow> int \<Rightarrow> 'w \<Rightarrow> unit sysres \<times> 'w"
  c_fstat :: "int \<Rightarrow> 'w \<Rightarrow> stat_buf sysres \<times> 'w"

text \<open>A failed call sets \<^verbatim>\<open>errno\<close>.\<close>

definition sys :: "('w \<Rightarrow> 'a sysres \<times> 'w) \<Rightarrow> ('w bb, 'a sysres) state" where
  "sys f = State (\<lambda>s. case f (kernel s) of (r, w) \<Rightarrow>
     (r, s\<lparr>kernel := w, errno := (case r of Inl x \<Rightarrow> x | Inr _ \<Rightarrow> errno s)\<rparr>))"

text \<open>The C results: \<open>-1\<close> or \<open>0\<close>, \<open>-1\<close> or a descriptor, \<open>-1\<close> or a length cut to an \<^verbatim>\<open>int\<close>.\<close>

definition ret_unit :: "'a sysres \<Rightarrow> int" where
  "ret_unit r = (case r of Inl _ \<Rightarrow> -1 | Inr _ \<Rightarrow> 0)"

definition ret_int :: "int sysres \<Rightarrow> int" where
  "ret_int r = (case r of Inl _ \<Rightarrow> -1 | Inr x \<Rightarrow> x)"

definition cut :: "nat \<Rightarrow> int" where
  "cut n = sint (word_of_nat n :: 32 word)"

definition ret_len :: "nat sysres \<Rightarrow> int" where
  "ret_len r = (case r of Inl _ \<Rightarrow> -1 | Inr n \<Rightarrow> cut n)"

text \<open>What a call has stored, or what was there.\<close>

definition stored :: "'a sysres \<Rightarrow> 'a \<Rightarrow> 'a" where
  "stored r x = (case r of Inl _ \<Rightarrow> x | Inr y \<Rightarrow> y)"

definition res_map :: "('a \<Rightarrow> 'b) \<Rightarrow> 'a sysres \<Rightarrow> 'b sysres" where
  "res_map f r = (case r of Inl x \<Rightarrow> Inl x | Inr y \<Rightarrow> Inr (f y))"

subsection \<open>Messages\<close>

definition quoted :: "string \<Rightarrow> string" where
  "quoted s = CHR 0x22 # s @ [CHR 0x22]"

abbreviation fmt_size :: "nat \<Rightarrow> string" where
  "fmt_size n \<equiv> fmt_d (word_of_nat n)"

text \<open>\<^verbatim>\<open>"\nfunc(path=\"%s\"...)\n"\<close>, the dots being \<open>args\<close>.\<close>

definition announce :: "bb_env \<Rightarrow> string \<Rightarrow> string \<Rightarrow> string \<Rightarrow> ('w bb, unit) state" where
  "announce e func path args = log_msg e (newline # func @ ''(path='' @ quoted path @ args @ '')'' @ [newline])"

definition with_fi :: "file_info \<Rightarrow> string" where
  "with_fi fi = '', fi=0x'' @ fmt_addr (fi_at fi)"

subsection \<open>Paths\<close>

definition PATH_MAX :: nat where "PATH_MAX = 4096"

definition overrun :: "bool \<Rightarrow> ('w bb, unit) state" where
  "overrun b = State_Monad.update (\<lambda>s. s\<lparr>smashed := smashed s \<or> b\<rparr>)"

text \<open>
  \<^verbatim>\<open>strcpy\<close> of the root, then \<^verbatim>\<open>strncat\<close> of at most \<^verbatim>\<open>PATH_MAX\<close> characters of the path and a NUL, into an array
  of \<^verbatim>\<open>PATH_MAX\<close>.
\<close>

definition bb_fullpath :: "bb_env \<Rightarrow> string \<Rightarrow> ('w bb, string) state" where
  "bb_fullpath e path = do {
     s \<leftarrow> State_Monad.get;
     let root = rootdir (bb_data s);
     let fpath = root @ take PATH_MAX path;
     overrun (PATH_MAX \<le> length fpath);
     log_msg e (''    bb_fullpath:  rootdir = '' @ quoted root @ '', path = '' @ quoted path
       @ '', fpath = '' @ quoted fpath @ [newline]);
     State_Monad.return fpath
   }"

subsection \<open>Attributes and links\<close>

definition bb_getattr :: "bb_env \<Rightarrow> 'w libc \<Rightarrow> string \<Rightarrow> 64 word \<Rightarrow> stat_buf \<Rightarrow> ('w bb, int \<times> stat_buf) state" where
  "bb_getattr e k path statbuf_at statbuf = do {
     announce e ''bb_getattr'' path ('', statbuf=0x'' @ fmt_addr statbuf_at);
     fpath \<leftarrow> bb_fullpath e path;
     r \<leftarrow> sys (c_lstat k fpath);
     retstat \<leftarrow> log_syscall e ''lstat'' (ret_unit r) 0;
     log_stat e (stored r statbuf);
     State_Monad.return (retstat, stored r statbuf)
   }"

text \<open>
  \<open>link\<close> is the text in the buffer; \<^verbatim>\<open>size - 1\<close> is computed in \<^verbatim>\<open>size_t\<close>, and the NUL is stored at the length
  read.
\<close>

definition bb_readlink :: "bb_env \<Rightarrow> 'w libc \<Rightarrow> string \<Rightarrow> string \<Rightarrow> nat \<Rightarrow> ('w bb, int \<times> string) state" where
  "bb_readlink e k path link len = do {
     announce e ''bb_readlink'' path ('', link='' @ quoted link @ '', size='' @ fmt_size len);
     fpath \<leftarrow> bb_fullpath e path;
     r \<leftarrow> sys (c_readlink k fpath (if len = 0 then 2 ^ 64 - 1 else len - 1));
     retstat \<leftarrow> log_syscall e ''readlink'' (ret_len (res_map length r)) 0;
     if 0 \<le> retstat then do {
       overrun (int len \<le> retstat);
       log_msg e (''    link='' @ quoted (stored r link) @ [newline]);
       State_Monad.return (0, stored r link)
     }
     else State_Monad.return (retstat, link)
   }"

subsection \<open>Names\<close>

definition S_ISREG :: "32 word \<Rightarrow> bool" where "S_ISREG mode \<longleftrightarrow> mode AND 0xF000 = 0x8000"
definition S_ISFIFO :: "32 word \<Rightarrow> bool" where "S_ISFIFO mode \<longleftrightarrow> mode AND 0xF000 = 0x1000"

text \<open>\<^verbatim>\<open>O_CREAT | O_EXCL | O_WRONLY\<close>\<close>

definition O_new :: "32 word" where "O_new = 0x40 OR 0x80 OR 0x1"

definition bb_mknod :: "bb_env \<Rightarrow> 'w libc \<Rightarrow> string \<Rightarrow> 32 word \<Rightarrow> 64 word \<Rightarrow> ('w bb, int) state" where
  "bb_mknod e k path mode dev = do {
     announce e ''bb_mknod'' path ('', mode=0'' @ pad (CHR '' '') 3 (fmt_o mode) @ '', dev='' @ put_long dev);
     fpath \<leftarrow> bb_fullpath e path;
     if S_ISREG mode then do {
       r \<leftarrow> sys (c_open k fpath O_new mode);
       retstat \<leftarrow> log_syscall e ''open'' (ret_int r) 0;
       if 0 \<le> retstat then do {
         r2 \<leftarrow> sys (c_close k retstat);
         log_syscall e ''close'' (ret_unit r2) 0
       }
       else State_Monad.return retstat
     }
     else if S_ISFIFO mode then do {
       r \<leftarrow> sys (c_mkfifo k fpath mode);
       log_syscall e ''mkfifo'' (ret_unit r) 0
     }
     else do {
       r \<leftarrow> sys (c_mknod k fpath mode dev);
       log_syscall e ''mknod'' (ret_unit r) 0
     }
   }"

definition bb_mkdir :: "bb_env \<Rightarrow> 'w libc \<Rightarrow> string \<Rightarrow> 32 word \<Rightarrow> ('w bb, int) state" where
  "bb_mkdir e k path mode = do {
     announce e ''bb_mkdir'' path ('', mode=0'' @ pad (CHR '' '') 3 (fmt_o mode));
     fpath \<leftarrow> bb_fullpath e path;
     r \<leftarrow> sys (c_mkdir k fpath mode);
     log_syscall e ''mkdir'' (ret_unit r) 0
   }"

text \<open>The messages of \<^verbatim>\<open>bb_unlink\<close> and \<^verbatim>\<open>bb_rmdir\<close> have no empty line before them.\<close>

definition bb_unlink :: "bb_env \<Rightarrow> 'w libc \<Rightarrow> string \<Rightarrow> ('w bb, int) state" where
  "bb_unlink e k path = do {
     log_msg e (''bb_unlink(path='' @ quoted path @ '')'' @ [newline]);
     fpath \<leftarrow> bb_fullpath e path;
     r \<leftarrow> sys (c_unlink k fpath);
     log_syscall e ''unlink'' (ret_unit r) 0
   }"

definition bb_rmdir :: "bb_env \<Rightarrow> 'w libc \<Rightarrow> string \<Rightarrow> ('w bb, int) state" where
  "bb_rmdir e k path = do {
     log_msg e (''bb_rmdir(path='' @ quoted path @ '')'' @ [newline]);
     fpath \<leftarrow> bb_fullpath e path;
     r \<leftarrow> sys (c_rmdir k fpath);
     log_syscall e ''rmdir'' (ret_unit r) 0
   }"

text \<open>\<open>path\<close> is where the link points and is left as it is; \<open>link\<close> is the name that is made.\<close>

definition bb_symlink :: "bb_env \<Rightarrow> 'w libc \<Rightarrow> string \<Rightarrow> string \<Rightarrow> ('w bb, int) state" where
  "bb_symlink e k path link = do {
     announce e ''bb_symlink'' path ('', link='' @ quoted link);
     flink \<leftarrow> bb_fullpath e link;
     r \<leftarrow> sys (c_symlink k path flink);
     log_syscall e ''symlink'' (ret_unit r) 0
   }"

definition bb_rename :: "bb_env \<Rightarrow> 'w libc \<Rightarrow> string \<Rightarrow> string \<Rightarrow> ('w bb, int) state" where
  "bb_rename e k path newpath = do {
     log_msg e (newline # ''bb_rename(fpath='' @ quoted path @ '', newpath='' @ quoted newpath @ '')'' @ [newline]);
     fpath \<leftarrow> bb_fullpath e path;
     fnewpath \<leftarrow> bb_fullpath e newpath;
     r \<leftarrow> sys (c_rename k fpath fnewpath);
     log_syscall e ''rename'' (ret_unit r) 0
   }"

definition bb_link :: "bb_env \<Rightarrow> 'w libc \<Rightarrow> string \<Rightarrow> string \<Rightarrow> ('w bb, int) state" where
  "bb_link e k path newpath = do {
     announce e ''bb_link'' path ('', newpath='' @ quoted newpath);
     fpath \<leftarrow> bb_fullpath e path;
     fnewpath \<leftarrow> bb_fullpath e newpath;
     r \<leftarrow> sys (c_link k fpath fnewpath);
     log_syscall e ''link'' (ret_unit r) 0
   }"

definition bb_chmod :: "bb_env \<Rightarrow> 'w libc \<Rightarrow> string \<Rightarrow> 32 word \<Rightarrow> ('w bb, int) state" where
  "bb_chmod e k path mode = do {
     log_msg e (newline # ''bb_chmod(fpath='' @ quoted path @ '', mode=0'' @ pad (CHR ''0'') 3 (fmt_o mode) @ '')'' @ [newline]);
     fpath \<leftarrow> bb_fullpath e path;
     r \<leftarrow> sys (c_chmod k fpath mode);
     log_syscall e ''chmod'' (ret_unit r) 0
   }"

definition bb_chown :: "bb_env \<Rightarrow> 'w libc \<Rightarrow> string \<Rightarrow> 32 word \<Rightarrow> 32 word \<Rightarrow> ('w bb, int) state" where
  "bb_chown e k path uid gid = do {
     announce e ''bb_chown'' path ('', uid='' @ fmt_d uid @ '', gid='' @ fmt_d gid);
     fpath \<leftarrow> bb_fullpath e path;
     r \<leftarrow> sys (c_chown k fpath uid gid);
     log_syscall e ''chown'' (ret_unit r) 0
   }"

definition bb_truncate :: "bb_env \<Rightarrow> 'w libc \<Rightarrow> string \<Rightarrow> int \<Rightarrow> ('w bb, int) state" where
  "bb_truncate e k path newsize = do {
     announce e ''bb_truncate'' path ('', newsize='' @ put_int newsize);
     fpath \<leftarrow> bb_fullpath e path;
     r \<leftarrow> sys (c_truncate k fpath newsize);
     log_syscall e ''truncate'' (ret_unit r) 0
   }"

definition bb_utime :: "bb_env \<Rightarrow> 'w libc \<Rightarrow> string \<Rightarrow> 64 word \<Rightarrow> ('w bb, int) state" where
  "bb_utime e k path ubuf = do {
     announce e ''bb_utime'' path ('', ubuf=0x'' @ fmt_addr ubuf);
     fpath \<leftarrow> bb_fullpath e path;
     r \<leftarrow> sys (c_utime k fpath ubuf);
     log_syscall e ''utime'' (ret_unit r) 0
   }"

subsection \<open>Open files\<close>

text \<open>The handle is a \<^verbatim>\<open>uint64_t\<close>; as a descriptor it is cut to an \<^verbatim>\<open>int\<close>.\<close>

definition fi_fd :: "file_info \<Rightarrow> int" where
  "fi_fd fi = sint (ucast (fi_fh fi) :: 32 word)"

definition bb_open :: "bb_env \<Rightarrow> 'w libc \<Rightarrow> string \<Rightarrow> file_info \<Rightarrow> ('w bb, int \<times> file_info) state" where
  "bb_open e k path fi = do {
     log_msg e (newline # ''bb_open(path'' @ quoted path @ with_fi fi @ '')'' @ [newline]);
     fpath \<leftarrow> bb_fullpath e path;
     r \<leftarrow> sys (c_open k fpath (fi_flags fi) 0);
     fd \<leftarrow> log_syscall e ''open'' (ret_int r) 0;
     retstat \<leftarrow> (if fd < 0 then log_error e ''open'' else State_Monad.return 0);
     let fi' = fi\<lparr>fi_fh := word_of_int fd\<rparr>;
     log_fi e fi';
     State_Monad.return (retstat, fi')
   }"

definition bb_read ::
    "bb_env \<Rightarrow> 'w libc \<Rightarrow> string \<Rightarrow> 64 word \<Rightarrow> nat \<Rightarrow> int \<Rightarrow> file_info \<Rightarrow> ('w bb, int \<times> byte_string) state" where
  "bb_read e k path buf_at len offset fi = do {
     announce e ''bb_read'' path ('', buf=0x'' @ fmt_addr buf_at @ '', size='' @ fmt_size len
       @ '', offset='' @ put_int offset @ with_fi fi);
     log_fi e fi;
     r \<leftarrow> sys (c_pread k (fi_fd fi) len offset);
     retstat \<leftarrow> log_syscall e ''pread'' (ret_len (res_map length r)) 0;
     State_Monad.return (retstat, stored r [])
   }"

definition bb_write ::
    "bb_env \<Rightarrow> 'w libc \<Rightarrow> string \<Rightarrow> 64 word \<Rightarrow> byte_string \<Rightarrow> int \<Rightarrow> file_info \<Rightarrow> ('w bb, int) state" where
  "bb_write e k path buf_at buf offset fi = do {
     announce e ''bb_write'' path ('', buf=0x'' @ fmt_addr buf_at @ '', size='' @ fmt_size (length buf)
       @ '', offset='' @ put_int offset @ with_fi fi);
     log_fi e fi;
     r \<leftarrow> sys (c_pwrite k (fi_fd fi) buf offset);
     log_syscall e ''pwrite'' (ret_len r) 0
   }"

definition bb_statfs ::
    "bb_env \<Rightarrow> 'w libc \<Rightarrow> string \<Rightarrow> 64 word \<Rightarrow> statvfs_buf \<Rightarrow> ('w bb, int \<times> statvfs_buf) state" where
  "bb_statfs e k path statv_at statv = do {
     announce e ''bb_statfs'' path ('', statv=0x'' @ fmt_addr statv_at);
     fpath \<leftarrow> bb_fullpath e path;
     r \<leftarrow> sys (c_statvfs k fpath);
     retstat \<leftarrow> log_syscall e ''statvfs'' (ret_unit r) 0;
     log_statvfs e (stored r statv);
     State_Monad.return (retstat, stored r statv)
   }"

definition bb_flush :: "bb_env \<Rightarrow> string \<Rightarrow> file_info \<Rightarrow> ('w bb, int) state" where
  "bb_flush e path fi = do {
     announce e ''bb_flush'' path (with_fi fi);
     log_fi e fi;
     State_Monad.return 0
   }"

definition bb_release :: "bb_env \<Rightarrow> 'w libc \<Rightarrow> string \<Rightarrow> file_info \<Rightarrow> ('w bb, int) state" where
  "bb_release e k path fi = do {
     announce e ''bb_release'' path (with_fi fi);
     log_fi e fi;
     r \<leftarrow> sys (c_close k (fi_fd fi));
     log_syscall e ''close'' (ret_unit r) 0
   }"

definition bb_fsync :: "bb_env \<Rightarrow> 'w libc \<Rightarrow> string \<Rightarrow> int \<Rightarrow> file_info \<Rightarrow> ('w bb, int) state" where
  "bb_fsync e k path datasync fi = do {
     announce e ''bb_fsync'' path ('', datasync='' @ put_int datasync @ with_fi fi);
     log_fi e fi;
     if has_fdatasync e \<and> datasync \<noteq> 0 then do {
       r \<leftarrow> sys (c_fdatasync k (fi_fd fi));
       log_syscall e ''fdatasync'' (ret_unit r) 0
     }
     else do {
       r \<leftarrow> sys (c_fsync k (fi_fd fi));
       log_syscall e ''fsync'' (ret_unit r) 0
     }
   }"

definition bb_ftruncate :: "bb_env \<Rightarrow> 'w libc \<Rightarrow> string \<Rightarrow> int \<Rightarrow> file_info \<Rightarrow> ('w bb, int) state" where
  "bb_ftruncate e k path offset fi = do {
     announce e ''bb_ftruncate'' path ('', offset='' @ put_int offset @ with_fi fi);
     log_fi e fi;
     r \<leftarrow> sys (c_ftruncate k (fi_fd fi) offset);
     if ret_unit r < 0 then log_error e ''bb_ftruncate ftruncate'' else State_Monad.return (ret_unit r)
   }"

text \<open>For the mount point itself the attributes are taken by name.\<close>

definition bb_fgetattr ::
    "bb_env \<Rightarrow> 'w libc \<Rightarrow> string \<Rightarrow> 64 word \<Rightarrow> stat_buf \<Rightarrow> file_info \<Rightarrow> ('w bb, int \<times> stat_buf) state" where
  "bb_fgetattr e k path statbuf_at statbuf fi = do {
     announce e ''bb_fgetattr'' path ('', statbuf=0x'' @ fmt_addr statbuf_at @ with_fi fi);
     log_fi e fi;
     if path = ''/'' then bb_getattr e k path statbuf_at statbuf
     else do {
       r \<leftarrow> sys (c_fstat k (fi_fd fi));
       retstat \<leftarrow> (if ret_unit r < 0 then log_error e ''bb_fgetattr fstat'' else State_Monad.return (ret_unit r));
       log_stat e (stored r statbuf);
       State_Monad.return (retstat, stored r statbuf)
     }
   }"

definition bb_access :: "bb_env \<Rightarrow> 'w libc \<Rightarrow> string \<Rightarrow> 32 word \<Rightarrow> ('w bb, int) state" where
  "bb_access e k path amask = do {
     announce e ''bb_access'' path ('', mask=0'' @ fmt_o amask);
     fpath \<leftarrow> bb_fullpath e path;
     r \<leftarrow> sys (c_access k fpath amask);
     if ret_unit r < 0 then log_error e ''bb_access access'' else State_Monad.return (ret_unit r)
   }"

subsection \<open>Extended attributes\<close>

text \<open>A value is shown up to its first NUL; where it has none the C program reads on behind its end.\<close>

definition bb_setxattr ::
    "bb_env \<Rightarrow> 'w libc \<Rightarrow> string \<Rightarrow> string \<Rightarrow> byte_string \<Rightarrow> 32 word \<Rightarrow> ('w bb, int) state" where
  "bb_setxattr e k path name val attr_flags = do {
     announce e ''bb_setxattr'' path ('', name='' @ quoted name @ '', value='' @ quoted (c_str val)
       @ '', size='' @ fmt_size (length val) @ '', flags=0x'' @ fmt_08x attr_flags);
     fpath \<leftarrow> bb_fullpath e path;
     r \<leftarrow> sys (c_lsetxattr k fpath name val attr_flags);
     log_syscall e ''lsetxattr'' (ret_unit r) 0
   }"

text \<open>Bytes stored at the beginning of a buffer.\<close>

definition fill :: "(nat \<times> byte_string) sysres \<Rightarrow> byte_string \<Rightarrow> byte_string" where
  "fill r buf = (case r of Inl _ \<Rightarrow> buf | Inr (n, b) \<Rightarrow> b @ drop (length b) buf)"

definition bb_getxattr ::
    "bb_env \<Rightarrow> 'w libc \<Rightarrow> string \<Rightarrow> string \<Rightarrow> 64 word \<Rightarrow> byte_string \<Rightarrow> nat \<Rightarrow> ('w bb, int \<times> byte_string) state" where
  "bb_getxattr e k path name value_at val len = do {
     log_msg e (newline # ''bb_getxattr(path = '' @ quoted path @ '', name = '' @ quoted name
       @ '', value = 0x'' @ fmt_addr value_at @ '', size = '' @ fmt_size len @ '')'' @ [newline]);
     fpath \<leftarrow> bb_fullpath e path;
     r \<leftarrow> sys (c_lgetxattr k fpath name len);
     retstat \<leftarrow> log_syscall e ''lgetxattr'' (ret_len (res_map fst r)) 0;
     (if 0 \<le> retstat then log_msg e (''    value = '' @ quoted (c_str (fill r val)) @ [newline]) else State_Monad.return ());
     State_Monad.return (retstat, fill r val)
   }"

text \<open>The names in the first \<open>n\<close> bytes, each ended by a NUL, as the loop steps over them.\<close>

fun xattr_names :: "nat \<Rightarrow> byte_string \<Rightarrow> string list" where
  "xattr_names n buf =
     (if n = 0 then [] else c_str buf # xattr_names (n - (length (c_str buf) + 1)) (drop (length (c_str buf) + 1) buf))"

declare xattr_names.simps [simp del]

fun log_names :: "bb_env \<Rightarrow> string list \<Rightarrow> ('w bb, unit) state" where
  "log_names e [] = State_Monad.return ()"
| "log_names e (n # ns) = do { log_msg e (''    '' @ quoted n @ [newline]); log_names e ns }"

text \<open>\<open>None\<close> is a NULL list.\<close>

definition bb_listxattr ::
    "bb_env \<Rightarrow> 'w libc \<Rightarrow> string \<Rightarrow> 64 word \<Rightarrow> byte_string option \<Rightarrow> nat \<Rightarrow> ('w bb, int \<times> byte_string option) state" where
  "bb_listxattr e k path list_at lst len = do {
     announce e ''bb_listxattr'' path ('', list=0x'' @ fmt_addr list_at @ '', size='' @ fmt_size len);
     fpath \<leftarrow> bb_fullpath e path;
     r \<leftarrow> sys (c_llistxattr k fpath len);
     retstat \<leftarrow> log_syscall e ''llistxattr'' (ret_len (res_map fst r)) 0;
     (if 0 \<le> retstat then do {
        log_msg e (''    returned attributes (length '' @ put_int retstat @ ''):'' @ [newline]);
        (case lst of
           Some buf \<Rightarrow> log_names e (xattr_names (nat retstat) (fill r buf))
         | None \<Rightarrow> log_msg e (''    (null)'' @ [newline]))
      }
      else State_Monad.return ());
     State_Monad.return (retstat, map_option (fill r) lst)
   }"

definition bb_removexattr :: "bb_env \<Rightarrow> 'w libc \<Rightarrow> string \<Rightarrow> string \<Rightarrow> ('w bb, int) state" where
  "bb_removexattr e k path name = do {
     announce e ''bb_removexattr'' path ('', name='' @ quoted name);
     fpath \<leftarrow> bb_fullpath e path;
     r \<leftarrow> sys (c_lremovexattr k fpath name);
     log_syscall e ''lremovexattr'' (ret_unit r) 0
   }"

subsection \<open>Directories\<close>

definition bb_opendir :: "bb_env \<Rightarrow> 'w libc \<Rightarrow> string \<Rightarrow> file_info \<Rightarrow> ('w bb, int \<times> file_info) state" where
  "bb_opendir e k path fi = do {
     announce e ''bb_opendir'' path (with_fi fi);
     fpath \<leftarrow> bb_fullpath e path;
     r \<leftarrow> sys (c_opendir k fpath);
     let dp = stored r 0;
     log_msg e (''    opendir returned 0x'' @ fmt_p dp @ [newline]);
     retstat \<leftarrow> (if dp = 0 then log_error e ''bb_opendir opendir'' else State_Monad.return 0);
     let fi' = fi\<lparr>fi_fh := dp\<rparr>;
     log_fi e fi';
     State_Monad.return (retstat, fi')
   }"

text \<open>
  The loop of \<^verbatim>\<open>bb_readdir\<close> from an entry on.  It ends when the directory does or the buffer is full; over a
  directory without end it does not return.  The result is \<^verbatim>\<open>-ENOMEM\<close> for a full buffer.
\<close>

partial_function (option) fill_dir ::
    "bb_env \<Rightarrow> 'w libc \<Rightarrow> 64 word \<Rightarrow> ('b \<Rightarrow> string \<Rightarrow> 'b \<times> int) \<Rightarrow> 'b \<Rightarrow> string \<Rightarrow> 'w bb \<Rightarrow> ((int option \<times> 'b) \<times> 'w bb) option"
where
  "fill_dir e k dp filler buf name s =
     (let s1 = after (log_msg e (''calling filler with name '' @ name @ [newline])) s
      in case filler buf name of (buf', r) \<Rightarrow>
           if r \<noteq> 0 then Some ((Some (- ENOMEM), buf'), after (log_msg e ''    ERROR bb_readdir filler:  buffer full'') s1)
           else case run_state (sys (c_readdir k dp)) s1 of
                  (Inr (Some (de, name')), s2) \<Rightarrow> fill_dir e k dp filler buf' name' s2
                | (_, s2) \<Rightarrow> Some ((None, buf'), s2))"

text \<open>\<open>None\<close>: it does not return.\<close>

definition bb_readdir ::
    "bb_env \<Rightarrow> 'w libc \<Rightarrow> string \<Rightarrow> 64 word \<Rightarrow> 64 word \<Rightarrow> 'b \<Rightarrow> ('b \<Rightarrow> string \<Rightarrow> 'b \<times> int) \<Rightarrow> int \<Rightarrow> file_info
      \<Rightarrow> 'w bb \<Rightarrow> ((int \<times> 'b) \<times> 'w bb) option" where
  "bb_readdir e k path buf_at filler_at buf filler offset fi s =
     (let s1 = after (announce e ''bb_readdir'' path ('', buf=0x'' @ fmt_addr buf_at @ '', filler=0x'' @ fmt_addr filler_at
                 @ '', offset='' @ put_int offset @ with_fi fi)) s;
          dp = fi_fh fi
      in case run_state (sys (c_readdir k dp)) s1 of
           (Inr (Some (de, name)), s2) \<Rightarrow>
             (case fill_dir e k dp filler buf name (after (log_msg e (''    readdir returned 0x'' @ fmt_p de @ [newline])) s2) of
                None \<Rightarrow> None
              | Some ((Some err, buf'), s3) \<Rightarrow> Some ((err, buf'), s3)
              | Some ((None, buf'), s3) \<Rightarrow> Some ((0, buf'), after (log_fi e fi) s3))
         | (_, s2) \<Rightarrow>
             (case run_state (log_error e ''bb_readdir readdir'')
                     (after (log_msg e (''    readdir returned 0x'' @ fmt_p 0 @ [newline])) s2) of
                (retstat, s3) \<Rightarrow> Some ((retstat, buf), s3)))"

definition bb_releasedir :: "bb_env \<Rightarrow> 'w libc \<Rightarrow> string \<Rightarrow> file_info \<Rightarrow> ('w bb, int) state" where
  "bb_releasedir e k path fi = do {
     announce e ''bb_releasedir'' path (with_fi fi);
     log_fi e fi;
     sys (c_closedir k (fi_fh fi));
     State_Monad.return 0
   }"

definition bb_fsyncdir :: "bb_env \<Rightarrow> string \<Rightarrow> int \<Rightarrow> file_info \<Rightarrow> ('w bb, int) state" where
  "bb_fsyncdir e path datasync fi = do {
     announce e ''bb_fsyncdir'' path ('', datasync='' @ put_int datasync @ with_fi fi);
     log_fi e fi;
     State_Monad.return 0
   }"

subsection \<open>Beginning and end\<close>

text \<open>\<^verbatim>\<open>bb_init\<close> returns \<^verbatim>\<open>BB_DATA\<close>, the private data of the context.\<close>

definition bb_init :: "bb_env \<Rightarrow> conn_info \<Rightarrow> fuse_context \<Rightarrow> ('w bb, 64 word) state" where
  "bb_init e conn ctx = do {
     log_msg e (newline # ''bb_init()'' @ [newline]);
     log_conn e conn;
     log_fuse_context e ctx;
     State_Monad.return (ctx_private_data ctx)
   }"

definition bb_destroy :: "bb_env \<Rightarrow> 64 word \<Rightarrow> ('w bb, unit) state" where
  "bb_destroy e userdata = log_msg e (newline # ''bb_destroy(userdata=0x'' @ fmt_addr userdata @ '')'' @ [newline])"

text \<open>The members of \<^verbatim>\<open>bb_oper\<close> as calls of FUSE.\<close>

datatype 'b bb_call =
    BGetattr string "64 word" stat_buf
  | BReadlink string string nat
  | BMknod string "32 word" "64 word"
  | BMkdir string "32 word"
  | BUnlink string
  | BRmdir string
  | BSymlink string string
  | BRename string string
  | BLink string string
  | BChmod string "32 word"
  | BChown string "32 word" "32 word"
  | BTruncate string int
  | BUtime string "64 word"
  | BOpen string file_info
  | BRead string "64 word" nat int file_info
  | BWrite string "64 word" byte_string int file_info
  | BStatfs string "64 word" statvfs_buf
  | BFlush string file_info
  | BRelease string file_info
  | BFsync string int file_info
  | BSetxattr string string byte_string "32 word"
  | BGetxattr string string "64 word" byte_string nat
  | BListxattr string "64 word" "byte_string option" nat
  | BRemovexattr string string
  | BOpendir string file_info
  | BReaddir string "64 word" "64 word" 'b "'b \<Rightarrow> string \<Rightarrow> 'b \<times> int" int file_info
  | BReleasedir string file_info
  | BFsyncdir string int file_info
  | BAccess string "32 word"
  | BFtruncate string int file_info
  | BFgetattr string "64 word" stat_buf file_info

text \<open>The return value with what is in the buffer or structure then.\<close>

datatype 'b bb_reply =
    BCode int
  | BStat int stat_buf
  | BText int string
  | BBytes int byte_string
  | BList int "byte_string option"
  | BVfs int statvfs_buf
  | BFile int file_info
  | BDir int 'b

definition returns :: "('a \<Rightarrow> 'c) \<Rightarrow> ('w bb, 'a) state \<Rightarrow> 'w bb \<Rightarrow> ('c \<times> 'w bb) option" where
  "returns f m s = (case run_state m s of (x, s') \<Rightarrow> Some (f x, s'))"

primrec bb_oper :: "bb_env \<Rightarrow> 'w libc \<Rightarrow> 'b bb_call \<Rightarrow> 'w bb \<Rightarrow> ('b bb_reply \<times> 'w bb) option" where
  "bb_oper e k (BGetattr p a b) = returns (\<lambda>(r, x). BStat r x) (bb_getattr e k p a b)"
| "bb_oper e k (BReadlink p l n) = returns (\<lambda>(r, x). BText r x) (bb_readlink e k p l n)"
| "bb_oper e k (BMknod p m d) = returns BCode (bb_mknod e k p m d)"
| "bb_oper e k (BMkdir p m) = returns BCode (bb_mkdir e k p m)"
| "bb_oper e k (BUnlink p) = returns BCode (bb_unlink e k p)"
| "bb_oper e k (BRmdir p) = returns BCode (bb_rmdir e k p)"
| "bb_oper e k (BSymlink p l) = returns BCode (bb_symlink e k p l)"
| "bb_oper e k (BRename p q) = returns BCode (bb_rename e k p q)"
| "bb_oper e k (BLink p q) = returns BCode (bb_link e k p q)"
| "bb_oper e k (BChmod p m) = returns BCode (bb_chmod e k p m)"
| "bb_oper e k (BChown p u g) = returns BCode (bb_chown e k p u g)"
| "bb_oper e k (BTruncate p n) = returns BCode (bb_truncate e k p n)"
| "bb_oper e k (BUtime p a) = returns BCode (bb_utime e k p a)"
| "bb_oper e k (BOpen p fi) = returns (\<lambda>(r, x). BFile r x) (bb_open e k p fi)"
| "bb_oper e k (BRead p a n off fi) = returns (\<lambda>(r, x). BBytes r x) (bb_read e k p a n off fi)"
| "bb_oper e k (BWrite p a d off fi) = returns BCode (bb_write e k p a d off fi)"
| "bb_oper e k (BStatfs p a b) = returns (\<lambda>(r, x). BVfs r x) (bb_statfs e k p a b)"
| "bb_oper e k (BFlush p fi) = returns BCode (bb_flush e p fi)"
| "bb_oper e k (BRelease p fi) = returns BCode (bb_release e k p fi)"
| "bb_oper e k (BFsync p d fi) = returns BCode (bb_fsync e k p d fi)"
| "bb_oper e k (BSetxattr p n v f) = returns BCode (bb_setxattr e k p n v f)"
| "bb_oper e k (BGetxattr p n a v l) = returns (\<lambda>(r, x). BBytes r x) (bb_getxattr e k p n a v l)"
| "bb_oper e k (BListxattr p a b n) = returns (\<lambda>(r, x). BList r x) (bb_listxattr e k p a b n)"
| "bb_oper e k (BRemovexattr p n) = returns BCode (bb_removexattr e k p n)"
| "bb_oper e k (BOpendir p fi) = returns (\<lambda>(r, x). BFile r x) (bb_opendir e k p fi)"
| "bb_oper e k (BReaddir p a f buf filler off fi) =
     (\<lambda>s. map_option (\<lambda>((r, x), s'). (BDir r x, s')) (bb_readdir e k p a f buf filler off fi s))"
| "bb_oper e k (BReleasedir p fi) = returns BCode (bb_releasedir e k p fi)"
| "bb_oper e k (BFsyncdir p d fi) = returns BCode (bb_fsyncdir e p d fi)"
| "bb_oper e k (BAccess p m) = returns BCode (bb_access e k p m)"
| "bb_oper e k (BFtruncate p n fi) = returns BCode (bb_ftruncate e k p n fi)"
| "bb_oper e k (BFgetattr p a b fi) = returns (\<lambda>(r, x). BStat r x) (bb_fgetattr e k p a b fi)"

subsection \<open>main\<close>

definition bb_usage :: string where
  "bb_usage = ''usage:  bbfs [FUSE and mount options] rootDir mountPoint'' @ [newline]"

datatype bb_start =
    BExits int
  | BAborts
  | BMounts "string list" "string option" string

definition dash :: "string \<Rightarrow> bool" where
  "dash s \<longleftrightarrow> take 1 s = ''-''"

text \<open>
  \<open>BMounts args root log\<close> is the call of \<^verbatim>\<open>fuse_main\<close>; \<^verbatim>\<open>realpath\<close> gives NULL for a root that does not exist, and
  nothing looks.
\<close>

definition bb_main ::
    "nat \<Rightarrow> nat \<Rightarrow> bool \<Rightarrow> (string \<Rightarrow> string option) \<Rightarrow> bool \<Rightarrow> string list \<Rightarrow> bb_start" where
  "bb_main uid euid got_memory realpath can_log argv =
     (let argc = length argv
      in if uid = 0 \<or> euid = 0 then BExits 1
         else if argc < 3 \<or> dash (argv ! (argc - 2)) \<or> dash (argv ! (argc - 1)) then BAborts
         else if \<not> got_memory then BAborts
         else
           let root = realpath (argv ! (argc - 2));
               argv' = butlast (argv[argc - 2 := argv ! (argc - 1)])
           in case log_open can_log of
                None \<Rightarrow> BExits 1
              | Some log \<Rightarrow> BMounts argv' root log)"

text \<open>The root is taken out of the arguments; the program's name, the options and the mount point stay.\<close>

lemma bb_main_mounts:
  "bb_main uid euid mem realpath True (prog # opts @ [root, mount])
     = (if uid = 0 \<or> euid = 0 then BExits 1
        else if dash root \<or> dash mount \<or> \<not> mem then BAborts
        else BMounts (prog # opts @ [mount]) (realpath root) [])"
proof -
  have "(prog # opts @ [root, mount]) ! Suc (length opts) = root"
    "(prog # opts @ [root, mount]) ! Suc (Suc (length opts)) = mount"
    "butlast ((prog # opts @ [root, mount])[Suc (length opts) := mount]) = prog # opts @ [mount]"
    by (simp_all add: nth_append list_update_append butlast_append)
  then show ?thesis
    by (simp add: bb_main_def Let_def log_open_def)
qed

end
