(* ===== verification/Bb_Spec.thy ===== *)
theory Bb_Spec
  imports Bbfs
begin

section \<open>The tutorial file system passes its calls on\<close>

text \<open>
  What \<^verbatim>\<open>bbfs.c\<close> says it is, "a no-op filesystem": every callback is the system call on the path below the
  root directory, its error number negated.  \<open>passes_on\<close> is this specification, without log and \<^verbatim>\<open>errno\<close>;
  the locale \<open>kernel_laws\<close> holds what is needed of the kernel, and in it the callbacks are proved to be it.
\<close>

subsection \<open>Specification\<close>

definition code :: "unit sysres \<Rightarrow> int" where
  "code r = (case r of Inl x \<Rightarrow> - x | Inr _ \<Rightarrow> 0)"

definition amount :: "nat sysres \<Rightarrow> int" where
  "amount r = (case r of Inl x \<Rightarrow> - x | Inr n \<Rightarrow> int n)"

abbreviation coded :: "unit sysres \<times> 'w \<Rightarrow> 'b bb_reply \<times> 'w" where
  "coded rw \<equiv> (BCode (code (fst rw)), snd rw)"

text \<open>The entries of a directory handed to the filler, until either ends.\<close>

partial_function (option) list_dir ::
    "'w libc \<Rightarrow> 64 word \<Rightarrow> ('b \<Rightarrow> string \<Rightarrow> 'b \<times> int) \<Rightarrow> 'b \<Rightarrow> string \<Rightarrow> 'w \<Rightarrow> ((int \<times> 'b) \<times> 'w) option"
where
  "list_dir k dp filler buf name w =
     (case filler buf name of (buf', r) \<Rightarrow>
        if r \<noteq> 0 then Some ((- ENOMEM, buf'), w)
        else case c_readdir k dp w of
               (Inr (Some (de, name')), w') \<Rightarrow> list_dir k dp filler buf' name' w'
             | (_, w') \<Rightarrow> Some ((0, buf'), w'))"

text \<open>
  \<open>err\<close> is the error number some earlier call has left: listing a directory that is at its end returns it.
\<close>

primrec passes_on :: "'w libc \<Rightarrow> bool \<Rightarrow> string \<Rightarrow> int \<Rightarrow> 'b bb_call \<Rightarrow> 'w \<Rightarrow> ('b bb_reply \<times> 'w) option" where
  "passes_on k fd root err (BGetattr p a b) w =
     (case c_lstat k (root @ p) w of (r, w') \<Rightarrow> Some (BStat (code (res_map (\<lambda>_. ()) r)) (stored r b), w'))"
| "passes_on k fd root err (BReadlink p l n) w =
     (case c_readlink k (root @ p) (n - 1) w of (r, w') \<Rightarrow> Some (BText (code (res_map (\<lambda>_. ()) r)) (stored r l), w'))"
| "passes_on k fd root err (BMknod p m d) w =
     (if S_ISREG m then
        case c_open k (root @ p) O_new m w of
          (Inl x, w') \<Rightarrow> Some (BCode (- x), w')
        | (Inr f, w') \<Rightarrow> Some (coded (c_close k f w'))
      else if S_ISFIFO m then Some (coded (c_mkfifo k (root @ p) m w))
      else Some (coded (c_mknod k (root @ p) m d w)))"
| "passes_on k fd root err (BMkdir p m) w = Some (coded (c_mkdir k (root @ p) m w))"
| "passes_on k fd root err (BUnlink p) w = Some (coded (c_unlink k (root @ p) w))"
| "passes_on k fd root err (BRmdir p) w = Some (coded (c_rmdir k (root @ p) w))"
| "passes_on k fd root err (BSymlink p l) w = Some (coded (c_symlink k p (root @ l) w))"
| "passes_on k fd root err (BRename p q) w = Some (coded (c_rename k (root @ p) (root @ q) w))"
| "passes_on k fd root err (BLink p q) w = Some (coded (c_link k (root @ p) (root @ q) w))"
| "passes_on k fd root err (BChmod p m) w = Some (coded (c_chmod k (root @ p) m w))"
| "passes_on k fd root err (BChown p u g) w = Some (coded (c_chown k (root @ p) u g w))"
| "passes_on k fd root err (BTruncate p n) w = Some (coded (c_truncate k (root @ p) n w))"
| "passes_on k fd root err (BUtime p a) w = Some (coded (c_utime k (root @ p) a w))"
| "passes_on k fd root err (BOpen p fi) w =
     (case c_open k (root @ p) (fi_flags fi) 0 w of
        (Inl x, w') \<Rightarrow> Some (BFile (- x) (fi\<lparr>fi_fh := word_of_int (- x)\<rparr>), w')
      | (Inr f, w') \<Rightarrow> Some (BFile 0 (fi\<lparr>fi_fh := word_of_int f\<rparr>), w'))"
| "passes_on k fd root err (BRead p a n off fi) w =
     (case c_pread k (fi_fd fi) n off w of (r, w') \<Rightarrow> Some (BBytes (amount (res_map length r)) (stored r []), w'))"
| "passes_on k fd root err (BWrite p a d off fi) w =
     (case c_pwrite k (fi_fd fi) d off w of (r, w') \<Rightarrow> Some (BCode (amount r), w'))"
| "passes_on k fd root err (BStatfs p a b) w =
     (case c_statvfs k (root @ p) w of (r, w') \<Rightarrow> Some (BVfs (code (res_map (\<lambda>_. ()) r)) (stored r b), w'))"
| "passes_on k fd root err (BFlush p fi) w = Some (BCode 0, w)"
| "passes_on k fd root err (BRelease p fi) w = Some (coded (c_close k (fi_fd fi) w))"
| "passes_on k fd root err (BFsync p d fi) w =
     Some (coded (if fd \<and> d \<noteq> 0 then c_fdatasync k (fi_fd fi) w else c_fsync k (fi_fd fi) w))"
| "passes_on k fd root err (BSetxattr p n v f) w = Some (coded (c_lsetxattr k (root @ p) n v f w))"
| "passes_on k fd root err (BGetxattr p n a v l) w =
     (case c_lgetxattr k (root @ p) n l w of (r, w') \<Rightarrow> Some (BBytes (amount (res_map fst r)) (fill r v), w'))"
| "passes_on k fd root err (BListxattr p a b n) w =
     (case c_llistxattr k (root @ p) n w of (r, w') \<Rightarrow> Some (BList (amount (res_map fst r)) (map_option (fill r) b), w'))"
| "passes_on k fd root err (BRemovexattr p n) w = Some (coded (c_lremovexattr k (root @ p) n w))"
| "passes_on k fd root err (BOpendir p fi) w =
     (case c_opendir k (root @ p) w of
        (Inl x, w') \<Rightarrow> Some (BFile (- x) (fi\<lparr>fi_fh := 0\<rparr>), w')
      | (Inr dp, w') \<Rightarrow> Some (BFile 0 (fi\<lparr>fi_fh := dp\<rparr>), w'))"
| "passes_on k fd root err (BReaddir p a f buf filler off fi) w =
     (case c_readdir k (fi_fh fi) w of
        (Inl x, w') \<Rightarrow> Some (BDir (- x) buf, w')
      | (Inr None, w') \<Rightarrow> Some (BDir (- err) buf, w')
      | (Inr (Some (de, name)), w') \<Rightarrow>
          map_option (\<lambda>((r, x), w''). (BDir r x, w'')) (list_dir k (fi_fh fi) filler buf name w'))"
| "passes_on k fd root err (BReleasedir p fi) w = Some (BCode 0, snd (c_closedir k (fi_fh fi) w))"
| "passes_on k fd root err (BFsyncdir p d fi) w = Some (BCode 0, w)"
| "passes_on k fd root err (BAccess p m) w = Some (coded (c_access k (root @ p) m w))"
| "passes_on k fd root err (BFtruncate p n fi) w = Some (coded (c_ftruncate k (fi_fd fi) n w))"
| "passes_on k fd root err (BFgetattr p a b fi) w =
     (case (if p = ''/'' then c_lstat k (root @ p) w else c_fstat k (fi_fd fi) w) of
        (r, w') \<Rightarrow> Some (BStat (code (res_map (\<lambda>_. ()) r)) (stored r b), w'))"


text \<open>The names a call hands to \<^verbatim>\<open>bb_fullpath\<close>, and the length of the buffer it brings.\<close>

primrec bb_paths :: "'b bb_call \<Rightarrow> string list" where
  "bb_paths (BGetattr p a b) = [p]"
| "bb_paths (BReadlink p l n) = [p]"
| "bb_paths (BMknod p m d) = [p]"
| "bb_paths (BMkdir p m) = [p]"
| "bb_paths (BUnlink p) = [p]"
| "bb_paths (BRmdir p) = [p]"
| "bb_paths (BSymlink p l) = [l]"
| "bb_paths (BRename p q) = [p, q]"
| "bb_paths (BLink p q) = [p, q]"
| "bb_paths (BChmod p m) = [p]"
| "bb_paths (BChown p u g) = [p]"
| "bb_paths (BTruncate p n) = [p]"
| "bb_paths (BUtime p a) = [p]"
| "bb_paths (BOpen p fi) = [p]"
| "bb_paths (BRead p a n off fi) = []"
| "bb_paths (BWrite p a d off fi) = []"
| "bb_paths (BStatfs p a b) = [p]"
| "bb_paths (BFlush p fi) = []"
| "bb_paths (BRelease p fi) = []"
| "bb_paths (BFsync p d fi) = []"
| "bb_paths (BSetxattr p n v f) = [p]"
| "bb_paths (BGetxattr p n a v l) = [p]"
| "bb_paths (BListxattr p a b n) = [p]"
| "bb_paths (BRemovexattr p n) = [p]"
| "bb_paths (BOpendir p fi) = [p]"
| "bb_paths (BReaddir p a f buf filler off fi) = []"
| "bb_paths (BReleasedir p fi) = []"
| "bb_paths (BFsyncdir p d fi) = []"
| "bb_paths (BAccess p m) = [p]"
| "bb_paths (BFtruncate p n fi) = []"
| "bb_paths (BFgetattr p a b fi) = (if p = ''/'' then [p] else [])"

definition sized :: "'b bb_call \<Rightarrow> bool" where
  "sized c \<longleftrightarrow> (case c of
     BReadlink p l n \<Rightarrow> 0 < n \<and> n < 2 ^ 31
   | BRead p a n off fi \<Rightarrow> n < 2 ^ 31
   | BWrite p a d off fi \<Rightarrow> length d < 2 ^ 31
   | _ \<Rightarrow> True)"

definition fits :: "string \<Rightarrow> 'b bb_call \<Rightarrow> bool" where
  "fits root c \<longleftrightarrow> sized c \<and> list_all (\<lambda>p. length root + length p < PATH_MAX) (bb_paths c)"

text \<open>What is left of the process when log and \<^verbatim>\<open>errno\<close> are not looked at.\<close>

definition seen :: "'w bb \<Rightarrow> 'w \<times> bool \<times> string" where
  "seen s = (kernel s, smashed s, rootdir (bb_data s))"

definition observe :: "('r \<times> 'w bb) option \<Rightarrow> ('r \<times> 'w \<times> bool \<times> string) option" where
  "observe = map_option (\<lambda>(r, s). (r, seen s))"

subsection \<open>Helpers\<close>

lemma cut_small:
  assumes "n < 2 ^ 31"
  shows "cut n = int n"
proof -
  have "int n < 2 ^ 31"
    using assms by (metis of_nat_less_iff of_nat_numeral of_nat_power)
  then have "signed_take_bit 31 (int n) = int n"
    by (intro signed_take_bit_int_eq_self) (auto intro: order_trans[of _ 0])
  then show ?thesis
    by (simp add: cut_def signed_of_nat)
qed

lemma run_sys: "run_state (sys f) s = (case f (kernel s) of (r, w) \<Rightarrow>
     (r, s\<lparr>kernel := w, errno := (case r of Inl x \<Rightarrow> x | Inr _ \<Rightarrow> errno s)\<rparr>))"
  by (simp add: sys_def)

lemma run_overrun [simp]: "run_state (overrun b) s = ((), s\<lparr>smashed := smashed s \<or> b\<rparr>)"
  by (simp add: overrun_def State_Monad.update_def)

lemma log_names_logs: "only_logs (log_names e ns)"
  by (induction ns) (simp_all add: only_logs_bind logging)

lemmas after_names [simp] = only_logs_after[OF log_names_logs] run_logging[of "log_names e ns" for e ns]

lemma run_announce [simp]: "run_state (announce e f p t) s = ((), after (announce e f p t) s)"
  by (simp add: announce_def)

lemma after_announce [simp]:
  "kernel (after (announce e f p t) s) = kernel s" "smashed (after (announce e f p t) s) = smashed s"
  "rootdir (bb_data (after (announce e f p t) s)) = rootdir (bb_data s)"
  by (simp_all add: announce_def)

lemma run_fullpath: "run_state (bb_fullpath e p) s = (rootdir (bb_data s) @ take PATH_MAX p, after (bb_fullpath e p) s)"
  by (simp add: bb_fullpath_def after_def Let_def log_msg_def State_Monad.update_def del: run_logs)

lemma after_fullpath [simp]:
  "kernel (after (bb_fullpath e p) s) = kernel s" "rootdir (bb_data (after (bb_fullpath e p) s)) = rootdir (bb_data s)"
  "smashed (after (bb_fullpath e p) s) \<longleftrightarrow> smashed s \<or> PATH_MAX \<le> length (rootdir (bb_data s) @ take PATH_MAX p)"
  by (simp_all add: bb_fullpath_def after_def Let_def State_Monad.update_def log_msg_def del: run_logs)


subsection \<open>Filling a directory\<close>

text \<open>The two loops do the same, and one ends where the other does.\<close>

lemma list_of_fill:
  "fill_dir e k dp filler buf name s = Some y \<Longrightarrow>
   list_dir k dp filler buf name (kernel s)
     = Some ((case fst (fst y) of None \<Rightarrow> 0 | Some x \<Rightarrow> x, snd (fst y)), kernel (snd y))
   \<and> smashed (snd y) = smashed s \<and> rootdir (bb_data (snd y)) = rootdir (bb_data s)"
proof (erule fill_dir.raw_induct[rotated], goal_cases)
  case (1 rec e k dp filler buf name s y)
  show ?case
    using 1(2) by (subst list_dir.simps)
      (auto simp: Let_def run_sys dest!: 1(1) split: prod.splits if_splits sum.splits option.splits)
qed

lemma fill_of_list:
  "list_dir k dp filler buf name w = Some y \<Longrightarrow> \<forall>s. kernel s = w \<longrightarrow> fill_dir e k dp filler buf name s \<noteq> None"
proof (erule list_dir.raw_induct[rotated], goal_cases)
  case (1 rec k dp filler buf name w y)
  show ?case
    using 1(2) by (subst fill_dir.simps)
      (auto simp: Let_def run_sys dest!: 1(1) split: prod.splits if_splits sum.splits option.splits)
qed


lemma list_ends: "fill_dir e k dp filler buf name s = None \<Longrightarrow> list_dir k dp filler buf name (kernel s) = None"
  using fill_of_list by (metis not_None_eq)

subsection \<open>What is needed of the kernel\<close>

text \<open>
  Error numbers are positive and descriptors are not negative, a transfer is not longer than was asked for,
  attributes are shorter than an \<^verbatim>\<open>int\<close> can count, and a directory stream is not NULL.
\<close>

locale kernel_laws =
  fixes k :: "'w libc"
  assumes open_result: "c_open k p f m w = (r, w') \<Longrightarrow> case r of Inl x \<Rightarrow> 0 < x | Inr fd \<Rightarrow> 0 \<le> fd"
    and readlink_result: "c_readlink k p n w = (r', w') \<Longrightarrow> case r' of Inl x \<Rightarrow> 0 < x | Inr b \<Rightarrow> length b \<le> n"
    and pread_result: "c_pread k fd n off w = (r', w') \<Longrightarrow> case r' of Inl _ \<Rightarrow> True | Inr b \<Rightarrow> length b \<le> n"
    and pwrite_result: "c_pwrite k fd d off w = (len, w') \<Longrightarrow> case len of Inl _ \<Rightarrow> True | Inr n \<Rightarrow> n \<le> length d"
    and getxattr_result: "c_lgetxattr k p a n w = (v, w') \<Longrightarrow> case v of Inl _ \<Rightarrow> True | Inr (l, b) \<Rightarrow> l < 2 ^ 31"
    and listxattr_result: "c_llistxattr k p n w = (v, w') \<Longrightarrow> case v of Inl _ \<Rightarrow> True | Inr (l, b) \<Rightarrow> l < 2 ^ 31"
    and opendir_result: "c_opendir k p w = (dp, w') \<Longrightarrow> case dp of Inl _ \<Rightarrow> True | Inr a \<Rightarrow> a \<noteq> 0"

lemma quiet_syscall:
  assumes "quiet e"
  shows "run_state (log_syscall e func r m) s = (if r < m then - errno s else r, after (log_syscall e func r m) s)"
  using assms by (subst run_log_syscall) (simp add: fst_log_syscall quiet_def)

lemma run_error:
  "run_state (log_error e func) s = (- errno s, after (log_error e func) s)"
  by (simp add: run_log_error after_def del: run_logs)

lemma quiet_errno:
  assumes "quiet e"
  shows "errno (after (log_syscall e func r m) s) = errno s" "errno (after (announce e f p t) s) = errno s"
    "vfprintf_errno e t x = x"
  using assms
  by (simp_all add: quiet_def log_syscall_def log_retstat_def set_errno_def log_error_def announce_def
      State_Monad.update_def after_def log_msg_def get_errno_def del: run_logs run_announce errno_after_msg)

lemma fullpath_fits:
  assumes "length (rootdir (bb_data s)) + length p < PATH_MAX"
  shows "run_state (bb_fullpath e p) s = (rootdir (bb_data s) @ p, after (bb_fullpath e p) s)"
    "smashed (after (bb_fullpath e p) s) = smashed s"
  using assms by (simp_all add: run_fullpath)

named_theorems callbacks \<open>definitions of the callbacks\<close>

lemmas [callbacks] = bb_getattr_def bb_readlink_def bb_mknod_def bb_mkdir_def bb_unlink_def bb_rmdir_def
  bb_symlink_def bb_rename_def bb_link_def bb_chmod_def bb_chown_def bb_truncate_def bb_utime_def bb_open_def
  bb_read_def bb_write_def bb_statfs_def bb_flush_def bb_release_def bb_fsync_def bb_setxattr_def bb_getxattr_def
  bb_listxattr_def bb_removexattr_def bb_opendir_def bb_releasedir_def bb_fsyncdir_def bb_access_def
  bb_ftruncate_def bb_fgetattr_def

text \<open>A call does what the specification says.\<close>

definition conforms :: "bb_env \<Rightarrow> 'w libc \<Rightarrow> 'b bb_call \<Rightarrow> 'w bb \<Rightarrow> bool" where
  "conforms e k c s \<longleftrightarrow> (quiet e \<longrightarrow> fits (rootdir (bb_data s)) c \<longrightarrow>
     observe (bb_oper e k c s) = map_option (\<lambda>(r, w). (r, w, smashed s, rootdir (bb_data s)))
       (passes_on k (has_fdatasync e) (rootdir (bb_data s)) (errno s) c (kernel s)))"

lemma conformsI [intro!]:
  assumes "quiet e \<Longrightarrow> fits (rootdir (bb_data s)) c \<Longrightarrow>
    observe (bb_oper e k c s) = map_option (\<lambda>(r, w). (r, w, smashed s, rootdir (bb_data s)))
      (passes_on k (has_fdatasync e) (rootdir (bb_data s)) (errno s) c (kernel s))"
  shows "conforms e k c s"
  using assms by (simp add: conforms_def)

lemma results [simp]:
  "ret_unit (Inl x) = -1" "ret_unit (Inr y) = 0" "ret_int (Inl x) = -1" "ret_int (Inr i) = i"
  "ret_len (Inl x) = -1" "ret_len (Inr n) = cut n" "stored (Inl x) z = z" "stored (Inr z') z = z'"
  "res_map f (Inl x) = Inl x" "res_map f (Inr y) = Inr (f y)" "code (Inl x) = - x" "code (Inr ()) = 0"
  "amount (Inl x) = - x" "amount (Inr n) = int n" "fill (Inl x) buf = buf"
  by (simp_all add: ret_unit_def ret_int_def ret_len_def stored_def res_map_def code_def amount_def fill_def)

lemmas passing = callbacks fits_def sized_def observe_def seen_def returns_def fullpath_fits quiet_syscall run_error
  quiet_errno run_sys Let_def split_beta cut_small

lemma conforms_names:
  "conforms e k (BMkdir p m) s" "conforms e k (BUnlink p) s" "conforms e k (BRmdir p) s" "conforms e k (BSymlink p l) s"
  "conforms e k (BRename p q) s" "conforms e k (BLink p q) s" "conforms e k (BChmod p m) s" "conforms e k (BChown p u g) s"
  "conforms e k (BTruncate p off) s" "conforms e k (BUtime p a) s" "conforms e k (BAccess p m) s"
  "conforms e k (BSetxattr p n v f) s" "conforms e k (BRemovexattr p n) s"
  by (auto simp: passing code_def ret_unit_def split: sum.splits)

lemma conforms_handles:
  "conforms e k (BFlush p fi) s" "conforms e k (BRelease p fi) s" "conforms e k (BFsync p d fi) s"
  "conforms e k (BReleasedir p fi) s" "conforms e k (BFsyncdir p d fi) s" "conforms e k (BFtruncate p off fi) s"
  by (auto simp: passing code_def ret_unit_def split: sum.splits)

lemma conforms_getattr: "conforms e k (BGetattr p a b) s"
  by (cases "c_lstat k (rootdir (bb_data s) @ p) (kernel s)"; cases "fst (c_lstat k (rootdir (bb_data s) @ p) (kernel s))")
    (auto simp: passing)

lemma conforms_statfs: "conforms e k (BStatfs p a b) s"
  by (cases "c_statvfs k (rootdir (bb_data s) @ p) (kernel s)"; cases "fst (c_statvfs k (rootdir (bb_data s) @ p) (kernel s))")
    (auto simp: passing)

lemma conforms_fgetattr: "conforms e k (BFgetattr p a b fi) s"
proof (cases "c_lstat k (rootdir (bb_data s) @ p) (kernel s)"; cases "c_fstat k (fi_fd fi) (kernel s)")
  fix r w r' w'
  assume "c_lstat k (rootdir (bb_data s) @ p) (kernel s) = (r, w)" "c_fstat k (fi_fd fi) (kernel s) = (r', w')"
  then show ?thesis
    by (cases r; cases r') (auto simp: passing)
qed

lemma conforms_readdir: "conforms e k (BReaddir p a f buf filler off fi) s"
proof (cases "c_readdir k (fi_fh fi) (kernel s)")
  case (Pair r w')
  then show ?thesis
    by (cases r)
      (auto simp: passing bb_readdir_def dest!: list_of_fill list_ends split: sum.splits prod.splits option.splits)
qed

context kernel_laws
begin

lemma conforms_readlink: "conforms e k (BReadlink p l n) s"
proof (cases "c_readlink k (rootdir (bb_data s) @ p) (n - 1) (kernel s)")
  case (Pair r w')
  from Pair readlink_result[OF Pair] show ?thesis
    by (cases r) (auto simp: passing)
qed

lemma conforms_open: "conforms e k (BOpen p fi) s"
proof (cases "c_open k (rootdir (bb_data s) @ p) (fi_flags fi) 0 (kernel s)")
  case (Pair r w')
  from Pair open_result[OF Pair] show ?thesis
    by (cases r) (auto simp: passing)
qed

lemma conforms_mknod: "conforms e k (BMknod p m d) s"
proof (cases "c_open k (rootdir (bb_data s) @ p) O_new m (kernel s)")
  case (Pair r w')
  from Pair open_result[OF Pair] show ?thesis
    by (cases r) (auto simp: passing split: sum.splits prod.splits)
qed

lemma conforms_read: "conforms e k (BRead p a n off fi) s"
proof (cases "c_pread k (fi_fd fi) n off (kernel s)")
  case (Pair r w')
  from Pair pread_result[OF Pair] show ?thesis
    by (cases r) (auto simp: passing)
qed

lemma conforms_write: "conforms e k (BWrite p a d off fi) s"
proof (cases "c_pwrite k (fi_fd fi) d off (kernel s)")
  case (Pair r w')
  from Pair pwrite_result[OF Pair] show ?thesis
    by (cases r) (auto simp: passing)
qed

lemma conforms_getxattr: "conforms e k (BGetxattr p n a v l) s"
proof (cases "c_lgetxattr k (rootdir (bb_data s) @ p) n l (kernel s)")
  case (Pair r w')
  from Pair getxattr_result[OF Pair] show ?thesis
    by (cases r) (auto simp: passing)
qed

lemma conforms_listxattr: "conforms e k (BListxattr p a b n) s"
proof (cases "c_llistxattr k (rootdir (bb_data s) @ p) n (kernel s)")
  case (Pair r w')
  from Pair listxattr_result[OF Pair] show ?thesis
    by (cases r; cases b) (auto simp: passing)
qed

lemma conforms_opendir: "conforms e k (BOpendir p fi) s"
proof (cases "c_opendir k (rootdir (bb_data s) @ p) (kernel s)")
  case (Pair r w')
  from Pair opendir_result[OF Pair] show ?thesis
    by (cases r) (auto simp: passing)
qed

text \<open>So every call conforms.\<close>

lemma conforming: "conforms e k c s"
  by (cases c)
    (simp_all only: conforms_names conforms_handles conforms_getattr conforms_statfs conforms_fgetattr conforms_readdir
      conforms_readlink conforms_open conforms_mknod conforms_read conforms_write conforms_getxattr conforms_listxattr
      conforms_opendir)

end

text \<open>What the specification returns, the program returns, and the other way round.\<close>

lemma conforms_run:
  assumes "conforms e k c s" "quiet e" "fits (rootdir (bb_data s)) c"
    and "passes_on k (has_fdatasync e) (rootdir (bb_data s)) (errno s) c (kernel s) = Some (r, w)"
  obtains s' where "bb_oper e k c s = Some (r, s')" "kernel s' = w" "smashed s' = smashed s"
    "rootdir (bb_data s') = rootdir (bb_data s)"
  using assms by (auto simp: conforms_def observe_def seen_def)

lemma conforms_ran:
  assumes "conforms e k c s" "quiet e" "fits (rootdir (bb_data s)) c" "bb_oper e k c s = Some (r, s')"
  shows "passes_on k (has_fdatasync e) (rootdir (bb_data s)) (errno s) c (kernel s) = Some (r, kernel s')
    \<and> smashed s' = smashed s \<and> rootdir (bb_data s') = rootdir (bb_data s)"
proof -
  have "map_option (\<lambda>(r, w). (r, w, smashed s, rootdir (bb_data s)))
      (passes_on k (has_fdatasync e) (rootdir (bb_data s)) (errno s) c (kernel s)) = Some (r, seen s')"
    using assms by (simp add: conforms_def observe_def)
  then show ?thesis
    by (auto simp: seen_def)
qed


end
