(* ===== verification/Bb_Posix.thy ===== *)
theory Bb_Posix
  imports Bb_Spec Open_Files Server_Faults
begin

section \<open>The tutorial file system over the model of POSIX\<close>

text \<open>
  The system calls of \<open>Posix\<close> as a kernel below \<^verbatim>\<open>bbfs.c\<close>, which keeps the laws of \<open>kernel_laws\<close>.  On it are
  proved: a directory that is opened and read gives its names and the reading ends, and no series of
  callbacks reaches a name outside the root directory.  What that file system does not have (links, devices,
  owners, permissions, extended attributes) fails with \<^verbatim>\<open>ENOSYS\<close>; as there, directories are not renamed.
\<close>

subsection \<open>The kernel\<close>

abbreviation ENOSYS :: int where "ENOSYS \<equiv> 38"
abbreviation EMFILE :: int where "EMFILE \<equiv> 24"

text \<open>An open directory stream is the names it has still to give.\<close>

record world =
  kfs :: fs
  streams :: "64 word \<Rightarrow> string list option"
  next_stream :: "64 word"

definition decode_flags :: "32 word \<Rightarrow> open_flags" where
  "decode_flags fl = \<lparr>o_read = (fl AND 3 \<noteq> 1), o_write = (fl AND 3 \<noteq> 0), o_creat = (fl AND 0x40 \<noteq> 0),
     o_excl = (fl AND 0x80 \<noteq> 0), o_trunc = (fl AND 0x200 \<noteq> 0), o_append = (fl AND 0x400 \<noteq> 0)\<rparr>"

definition asks :: "(fs \<Rightarrow> 'a sysres) \<Rightarrow> world \<Rightarrow> 'a sysres \<times> world" where
  "asks f w = (f (kfs w), w)"

definition does :: "(fs \<Rightarrow> fs \<times> 'a sysres) \<Rightarrow> world \<Rightarrow> 'a sysres \<times> world" where
  "does f w = (case f (kfs w) of (s, r) \<Rightarrow> (r, w\<lparr>kfs := s\<rparr>))"

definition unsupported :: "world \<Rightarrow> 'a sysres \<times> world" where
  "unsupported w = (Inl ENOSYS, w)"

text \<open>The table of descriptors has \<^verbatim>\<open>INT_MAX\<close> entries at most, and a pointer to a stream is not NULL.\<close>

definition px_open :: "string \<Rightarrow> 32 word \<Rightarrow> 32 word \<Rightarrow> fs \<Rightarrow> fs \<times> int sysres" where
  "px_open p fl mode s =
     (if 0 \<le> fs_next_fd s \<and> fs_next_fd s < 2 ^ 31 - 1 then sys_open s p (decode_flags fl) mode else (s, Inl EMFILE))"

definition px_readlink :: "string \<Rightarrow> fs \<Rightarrow> byte_string sysres" where
  "px_readlink p s = (case sys_stat s p of Inl x \<Rightarrow> Inl x | Inr _ \<Rightarrow> Inl EINVAL)"

definition px_fstat :: "int \<Rightarrow> fs \<Rightarrow> stat_buf sysres" where
  "px_fstat fd s = (case fs_fds s fd of None \<Rightarrow> Inl EBADF | Some f \<Rightarrow> Inr (stat_of s (of_ino f)))"

definition px_opendir :: "string \<Rightarrow> world \<Rightarrow> 64 word sysres \<times> world" where
  "px_opendir p w =
     (case resolve (kfs w) p of
        Inl x \<Rightarrow> (Inl x, w)
      | Inr cp \<Rightarrow>
          (case read_dir (kfs w) p of
             None \<Rightarrow> (Inl (if node (kfs w) cp = None then ENOENT else ENOTDIR), w)
           | Some names \<Rightarrow>
               if next_stream w = 0 then (Inl ENOMEM, w)
               else (Inr (next_stream w), w\<lparr>streams := (streams w)(next_stream w \<mapsto> names), next_stream := next_stream w + 1\<rparr>)))"

definition px_readdir :: "64 word \<Rightarrow> world \<Rightarrow> (64 word \<times> string) option sysres \<times> world" where
  "px_readdir dp w =
     (case streams w dp of
        None \<Rightarrow> (Inl EBADF, w)
      | Some [] \<Rightarrow> (Inr None, w)
      | Some (name # names) \<Rightarrow> (Inr (Some (dp, name)), w\<lparr>streams := (streams w)(dp \<mapsto> names)\<rparr>))"

definition px_closedir :: "64 word \<Rightarrow> world \<Rightarrow> unit sysres \<times> world" where
  "px_closedir dp w = (if streams w dp = None then (Inl EBADF, w) else (Inr (), w\<lparr>streams := (streams w)(dp := None)\<rparr>))"

definition posix_libc :: "world libc" where
  "posix_libc = \<lparr>
     c_lstat = (\<lambda>p. asks (\<lambda>s. sys_stat s p)),
     c_readlink = (\<lambda>p n. asks (px_readlink p)),
     c_open = (\<lambda>p fl m. does (px_open p fl m)),
     c_close = (\<lambda>fd. does (\<lambda>s. sys_close s fd)),
     c_mkfifo = (\<lambda>p m. unsupported),
     c_mknod = (\<lambda>p m d. unsupported),
     c_mkdir = (\<lambda>p m. does (\<lambda>s. sys_mkdir s p m)),
     c_unlink = (\<lambda>p. does (\<lambda>s. sys_unlink s p)),
     c_rmdir = (\<lambda>p. does (\<lambda>s. sys_rmdir s p)),
     c_symlink = (\<lambda>p q. unsupported),
     c_rename = (\<lambda>p q. does (\<lambda>s. sys_rename s p q)),
     c_link = (\<lambda>p q. unsupported),
     c_chmod = (\<lambda>p m. unsupported),
     c_chown = (\<lambda>p u g. unsupported),
     c_truncate = (\<lambda>p n. does (\<lambda>s. sys_truncate s p n)),
     c_utime = (\<lambda>p a. unsupported),
     c_pread = (\<lambda>fd n off. asks (\<lambda>s. sys_pread s fd n off)),
     c_pwrite = (\<lambda>fd d off. does (\<lambda>s. sys_pwrite s fd d off)),
     c_statvfs = (\<lambda>p. unsupported),
     c_fsync = (\<lambda>fd. asks (\<lambda>s. sys_fsync s fd)),
     c_fdatasync = (\<lambda>fd. asks (\<lambda>s. sys_fsync s fd)),
     c_lsetxattr = (\<lambda>p n v f. unsupported),
     c_lgetxattr = (\<lambda>p n l. unsupported),
     c_llistxattr = (\<lambda>p l. unsupported),
     c_lremovexattr = (\<lambda>p n. unsupported),
     c_opendir = px_opendir,
     c_readdir = px_readdir,
     c_closedir = px_closedir,
     c_access = (\<lambda>p m. asks (\<lambda>s. res_map (\<lambda>_. ()) (sys_stat s p))),
     c_ftruncate = (\<lambda>fd n. does (\<lambda>s. sys_ftruncate s fd n)),
     c_fstat = (\<lambda>fd. asks (px_fstat fd))\<rparr>"

lemma px_calls [simp]:
  "c_lstat posix_libc p = asks (\<lambda>s. sys_stat s p)" "c_readlink posix_libc p n = asks (px_readlink p)"
  "c_open posix_libc p fl m = does (px_open p fl m)" "c_close posix_libc fd = does (\<lambda>s. sys_close s fd)"
  "c_mkfifo posix_libc p m = unsupported" "c_mknod posix_libc p m d = unsupported"
  "c_mkdir posix_libc p m = does (\<lambda>s. sys_mkdir s p m)" "c_unlink posix_libc p = does (\<lambda>s. sys_unlink s p)"
  "c_rmdir posix_libc p = does (\<lambda>s. sys_rmdir s p)" "c_symlink posix_libc p q = unsupported"
  "c_rename posix_libc p q = does (\<lambda>s. sys_rename s p q)" "c_link posix_libc p q = unsupported"
  "c_chmod posix_libc p m = unsupported" "c_chown posix_libc p u g = unsupported"
  "c_truncate posix_libc p off = does (\<lambda>s. sys_truncate s p off)" "c_utime posix_libc p a = unsupported"
  "c_pread posix_libc fd n off = asks (\<lambda>s. sys_pread s fd n off)"
  "c_pwrite posix_libc fd v off = does (\<lambda>s. sys_pwrite s fd v off)" "c_statvfs posix_libc p = unsupported"
  "c_fsync posix_libc fd = asks (\<lambda>s. sys_fsync s fd)" "c_fdatasync posix_libc fd = asks (\<lambda>s. sys_fsync s fd)"
  "c_lsetxattr posix_libc p x v fl = unsupported" "c_lgetxattr posix_libc p x n = unsupported"
  "c_llistxattr posix_libc p n = unsupported" "c_lremovexattr posix_libc p x = unsupported"
  "c_opendir posix_libc = px_opendir" "c_readdir posix_libc = px_readdir" "c_closedir posix_libc = px_closedir"
  "c_access posix_libc p m = asks (\<lambda>s. res_map (\<lambda>_. ()) (sys_stat s p))"
  "c_ftruncate posix_libc fd off = does (\<lambda>s. sys_ftruncate s fd off)" "c_fstat posix_libc fd = asks (px_fstat fd)"
  by (simp_all add: posix_libc_def)

subsection \<open>It keeps the laws\<close>

lemma walk_errno: "walk s cur cs = Inl x \<Longrightarrow> 0 < x"
  by (induction cs arbitrary: cur) (auto split: if_splits)

lemma resolve_errno: "resolve s p = Inl x \<Longrightarrow> 0 < x"
  by (auto simp: resolve_def split: if_splits dest: walk_errno)

lemma sys_stat_error: "sys_stat s p = Inl x \<Longrightarrow> 0 < x"
  by (auto simp: sys_stat_def split: sum.splits option.splits dest: resolve_errno)

lemma sys_open_result:
  assumes "sys_open s p fl mode = (s', r)" "0 \<le> fs_next_fd s"
  shows "case r of Inl x \<Rightarrow> 0 < x | Inr fd \<Rightarrow> 0 \<le> fd"
proof (cases r)
  case (Inl x)
  then show ?thesis
    using assms(1)
    by (auto simp: sys_open_def open_node_def split: prod.splits sum.splits option.splits if_splits dest: resolve_errno)
next
  case (Inr fd)
  then show ?thesis
    using assms sys_open_fd by simp
qed

lemma posix_laws: "kernel_laws posix_libc"
proof
  fix p f m w r w'
  assume "c_open posix_libc p f m w = (r, w')"
  then show "case r of Inl x \<Rightarrow> 0 < x | Inr fd \<Rightarrow> 0 \<le> fd"
    using sys_open_result[of "kfs w" p "decode_flags f" m]
    by (auto simp: posix_libc_def does_def px_open_def split: prod.splits if_splits)
qed (auto simp: posix_libc_def does_def asks_def unsupported_def px_readlink_def px_opendir_def sys_pread_def
  sys_pwrite_def Let_def split: sum.splits option.splits if_splits prod.splits
  dest: sys_stat_error)

interpretation px: kernel_laws posix_libc
  by (rule posix_laws)


subsection \<open>Reading a directory\<close>

text \<open>A stream gives its names one after the other, so the loop over it ends.\<close>

lemma list_dir_ends:
  "streams w dp = Some names \<Longrightarrow> list_dir posix_libc dp filler buf name w \<noteq> None"
proof (induction names arbitrary: buf name w)
  case Nil
  then show ?case
    by (subst list_dir.simps) (auto simp: px_readdir_def split: prod.splits)
next
  case (Cons n names)
  then show ?case
    by (subst list_dir.simps) (auto simp: px_readdir_def split: prod.splits)
qed

definition collect :: "string list \<Rightarrow> string \<Rightarrow> string list \<times> int" where
  "collect buf name = (buf @ [name], 0)"

lemma list_dir_collects:
  "streams w dp = Some names \<Longrightarrow>
   list_dir posix_libc dp collect buf name w = Some ((0, buf @ name # names), w\<lparr>streams := (streams w)(dp \<mapsto> [])\<rparr>)"
proof (induction names arbitrary: buf name w)
  case Nil
  then show ?case
    by (subst list_dir.simps) (simp add: px_readdir_def collect_def fun_upd_idem)
next
  case (Cons n names)
  have "collect buf name = (buf @ [name], 0)"
    by (simp add: collect_def)
  then show ?case
    using Cons.IH[of "w\<lparr>streams := (streams w)(dp \<mapsto> names)\<rparr>" "buf @ [name]" n] Cons.prems
    by (subst list_dir.simps) (simp add: px_readdir_def fun_upd_def cong: if_cong)
qed


lemma list_dir_streams:
  "list_dir k dp filler buf name w = Some y \<Longrightarrow> k = posix_libc \<longrightarrow> kfs (snd y) = kfs w"
proof (erule list_dir.raw_induct[rotated], goal_cases)
  case (1 rec k dp filler buf name w y)
  show ?case
    using 1(2) by (auto simp: px_readdir_def dest!: 1(1) split: prod.splits if_splits sum.splits option.splits list.splits)
qed

text \<open>
  C33: opening and reading a directory below the root returns, whatever it holds, and gives \<^verbatim>\<open>.\<close>, \<^verbatim>\<open>..\<close> and
  every name in it once, without changing a file.  Reading the same handle once more stores nothing and
  returns the negation of whatever error number an earlier call has left.
\<close>

theorem bb_reads_directory:
  fixes s :: "world bb"
  assumes "quiet e" "fits (rootdir (bb_data s)) (BOpendir p fi :: string list bb_call)" "next_stream (kernel s) \<noteq> 0"
    and "resolve (kfs (kernel s)) (rootdir (bb_data s) @ p) = Inr cp" "is_dir (kfs (kernel s)) cp"
  shows "\<exists>fi' s1 s2 s3. bb_oper e posix_libc (BOpendir p fi :: string list bb_call) s = Some (BFile 0 fi', s1)
    \<and> bb_oper e posix_libc (BReaddir p a f buf collect off fi') s1
        = Some (BDir 0 (buf @ ''.'' # ''..'' # entries (kfs (kernel s)) cp), s2)
    \<and> kfs (kernel s2) = kfs (kernel s)
    \<and> bb_oper e posix_libc (BReaddir p a f buf collect off fi') s2 = Some (BDir (- errno s2) buf, s3)"
proof -
  let ?names = "entries (kfs (kernel s)) cp" and ?dp = "next_stream (kernel s)"
  let ?fi = "fi\<lparr>fi_fh := ?dp\<rparr>" and ?c = "BReaddir p a f buf collect off (fi\<lparr>fi_fh := ?dp\<rparr>)"
  obtain s1 where s1: "bb_oper e posix_libc (BOpendir p fi :: string list bb_call) s = Some (BFile 0 ?fi, s1)"
    "kfs (kernel s1) = kfs (kernel s)" "streams (kernel s1) ?dp = Some (''.'' # ''..'' # ?names)"
    by (rule conforms_run[OF px.conforming assms(1,2)]) (use assms(3-5) in \<open>auto simp: px_opendir_def read_dir_def\<close>)
  have fits: "fits root ?c" for root
    by (simp add: fits_def sized_def)
  note run = conforms_run[OF px.conforming assms(1) fits]
  obtain s2 where s2: "bb_oper e posix_libc ?c s1 = Some (BDir 0 (buf @ ''.'' # ''..'' # ?names), s2)"
    "kfs (kernel s2) = kfs (kernel s)" "streams (kernel s2) ?dp = Some []"
    by (rule run[where s = s1]) (use s1 in \<open>auto simp: px_readdir_def list_dir_collects\<close>)
  obtain s3 where "bb_oper e posix_libc ?c s2 = Some (BDir (- errno s2) buf, s3)"
    by (rule run[where s = s2]) (use s2 in \<open>auto simp: px_readdir_def\<close>)
  with s1 s2 show ?thesis by blast
qed

end
