(* ===== verification/Bb_Confined.thy ===== *)
theory Bb_Confined
  imports Bb_Posix "HOL-Library.Sublist"
begin

section \<open>What the tutorial file system can reach\<close>

text \<open>
  Over the model of POSIX no series of callbacks changes a name outside the root directory, when the
  paths FUSE hands over have no \<^verbatim>\<open>..\<close> and the descriptors open at the beginning lead below the root.
\<close>

subsection \<open>Calls that stay below a directory\<close>

definition inside :: "string list \<Rightarrow> fs \<Rightarrow> bool" where
  "inside base s \<longleftrightarrow> wf_fs s \<and> (\<forall>fd q. links s fd q \<longrightarrow> prefix base q)"

definition remains :: "string list \<Rightarrow> fs \<Rightarrow> fs \<Rightarrow> bool" where
  "remains base s s' \<longleftrightarrow> (inside base s \<longrightarrow> inside base s' \<and> (\<forall>q. \<not> prefix base q \<longrightarrow> view s' q = view s q))"

definition below :: "string list \<Rightarrow> fs \<Rightarrow> string \<Rightarrow> bool" where
  "below base s p \<longleftrightarrow> (\<forall>q. resolve s p = Inr q \<longrightarrow> prefix base q)"

named_theorems remaining \<open>calls that stay below the root\<close>

lemma remains_refl [remaining]: "remains base s s"
  by (simp add: remains_def)

lemma remains_trans: "remains base s s' \<Longrightarrow> remains base s' s'' \<Longrightarrow> remains base s s''"
  by (simp add: remains_def)

lemma remainsI:
  assumes "wf_fs s \<Longrightarrow> wf_fs s'" "wf_fs s \<Longrightarrow> no_new_links s s'"
    and "\<And>q. wf_fs s \<Longrightarrow> \<not> prefix base q \<Longrightarrow> view s' q = view s q"
  shows "remains base s s'"
  using assms unfolding remains_def inside_def no_new_links_def by blast

lemma remains_unlink [remaining]: "below base s p \<Longrightarrow> remains base s (fst (sys_unlink s p))"
  by (intro remainsI wf_unlink no_new_links_unlink frame_unlink) (auto simp: below_def)

lemma no_new_links_rmdir: "no_new_links s (fst (sys_rmdir s p))"
  by (simp add: sys_rmdir_def no_new_links_drop drop_name_def[symmetric] split: sum.splits option.splits)

lemma remains_rmdir [remaining]: "below base s p \<Longrightarrow> remains base s (fst (sys_rmdir s p))"
  by (intro remainsI wf_rmdir no_new_links_rmdir frame_rmdir) (auto simp: below_def)

lemma no_new_links_mkdir: "wf_fs s \<Longrightarrow> no_new_links s (fst (sys_mkdir s p m))"
  by (simp add: sys_mkdir_def no_new_links_create split: sum.splits option.splits)

lemma remains_mkdir [remaining]: "below base s p \<Longrightarrow> remains base s (fst (sys_mkdir s p m))"
  by (intro remainsI wf_mkdir no_new_links_mkdir frame_mkdir) (auto simp: below_def)

text \<open>Storing through a name or a descriptor.\<close>

lemma view_set_data_other: "node s q \<noteq> Some i \<Longrightarrow> view (set_data s i d) q = view s q"
  by (cases "node s q") (simp_all add: view_def, simp add: set_data_def)

lemma remains_data:
  assumes "\<And>q. inside base s \<Longrightarrow> node s q = Some i \<Longrightarrow> prefix base q"
  shows "remains base s (set_data s i d)"
  using assms by (auto simp: remains_def inside_def intro!: view_set_data_other)

lemma remains_at:
  assumes "below base s p" "resolve s p = Inr cp" "node s cp = Some i"
  shows "remains base s (set_data s i d)"
proof (rule remains_data)
  fix q
  assume "inside base s" "node s q = Some i"
  then have "q = cp" using node_inj assms(3) by (auto simp: inside_def)
  then show "prefix base q" using assms(1,2) by (simp add: below_def)
qed

lemma remains_open_file: "fs_fds s fd = Some f \<Longrightarrow> remains base s (set_data s (of_ino f) d)"
  by (rule remains_data) (auto simp: inside_def links_def)

lemma remains_truncate [remaining]: "below base s p \<Longrightarrow> remains base s (fst (sys_truncate s p n))"
  by (auto simp: sys_truncate_def intro: remaining remains_at split: sum.splits option.splits)

lemma remains_ftruncate [remaining]: "remains base s (fst (sys_ftruncate s fd n))"
  by (auto simp: sys_ftruncate_def intro: remaining remains_open_file split: option.splits)

lemma remains_pwrite [remaining]: "remains base s (fst (sys_pwrite s fd d off))"
  by (auto simp: sys_pwrite_def Let_def intro: remaining remains_open_file split: option.splits)

lemma remains_close [remaining]: "remains base s (fst (sys_close s fd))"
  by (intro remainsI wf_sys_close no_new_links_close) (auto simp: sys_close_def view_def node_def)


subsection \<open>Opening and renaming\<close>

lemma open_node_at:
  assumes "open_node s p fl m = (s', Inr i)"
  obtains cp where "resolve s p = Inr cp" "node s' cp = Some i"
  using assms by (cases rule: open_node_cases) (auto simp: node_create)

lemma remains_open_node:
  assumes "below base s p" "open_node s p fl m = (s', Inr i)"
  shows "remains base s s'"
  using assms(2)
proof (cases rule: open_node_cases)
  case (created cp)
  show ?thesis
  proof (rule remainsI)
    show "wf_fs s'" if "wf_fs s" using wf_open_node[OF that, of p fl m] assms(2) by simp
    show "no_new_links s s'" if "wf_fs s" by (rule no_new_links_node[OF that assms(2)])
    show "view s' q = view s q" if "wf_fs s" "\<not> prefix base q" for q
      using that created assms(1) view_create[OF that(1)] by (auto simp: below_def)
  qed
next
  case (emptied cp)
  then show ?thesis using remains_at[OF assms(1)] by simp
qed (simp add: remaining)

lemma inside_new_fd:
  assumes "inside base s" "node s cp = Some i" "prefix base cp"
    "of_ino f = i"
  shows "inside base (s\<lparr>fs_fds := (fs_fds s)(fs_next_fd s \<mapsto> f), fs_next_fd := fs_next_fd s + 1\<rparr>)"
proof -
  let ?s = "s\<lparr>fs_fds := (fs_fds s)(fs_next_fd s \<mapsto> f), fs_next_fd := fs_next_fd s + 1\<rparr>"
  have wf: "wf_fs s" using assms(1) by (simp add: inside_def)
  have "is_dir ?s q = is_dir s q" for q by (simp add: is_dir_def)
  then have "wf_fs ?s"
    using wf node_less[OF wf assms(2)] assms(4) by (auto simp: wf_fs_def intro: less_imp_le)
  moreover have "prefix base q" if "links ?s fd q" for fd q
  proof (cases "fd = fs_next_fd s")
    case True
    then have "q = cp" using that assms(2,4) node_inj[OF wf] by (auto simp: links_def)
    then show ?thesis using assms(3) by simp
  qed (use that assms(1) in \<open>auto simp: inside_def links_def\<close>)
  ultimately show ?thesis by (simp add: inside_def)
qed

lemma remains_open:
  assumes "below base s p"
  shows "remains base s (fst (sys_open s p fl m))"
proof (cases "open_node s p fl m")
  case (Pair s1 r)
  show ?thesis
  proof (cases r)
    case (Inl x)
    then show ?thesis using Pair remains_refl by (auto simp: sys_open_def dest: open_node_error)
  next
    case (Inr i)
    let ?f = "\<lparr>of_ino = i, of_read = o_read fl, of_write = o_write fl, of_append = o_append fl\<rparr>"
    let ?s = "s1\<lparr>fs_fds := (fs_fds s1)(fs_next_fd s1 \<mapsto> ?f), fs_next_fd := fs_next_fd s1 + 1\<rparr>"
    from Pair Inr obtain cp where cp: "resolve s p = Inr cp" "node s1 cp = Some i"
      by (auto elim: open_node_at)
    have "remains base s s1" using remains_open_node assms Pair Inr by blast
    moreover have "view ?s q = view s1 q" for q by (simp add: view_def)
    moreover have "inside base s1 \<Longrightarrow> inside base ?s"
      using inside_new_fd[OF _ cp(2), of base ?f] assms cp(1) by (simp add: below_def)
    ultimately show ?thesis
      using Pair Inr by (simp add: sys_open_def remains_def)
  qed
qed

lemma remains_px_open [remaining]: "below base s p \<Longrightarrow> remains base s (fst (px_open p fl m s))"
  by (auto simp: px_open_def intro: remains_open remaining)

lemma links_rename:
  assumes "links (fst (sys_rename s old new)) fd q"
  shows "links s fd q \<or> resolve s new = Inr q"
  using assms by (auto simp: sys_rename_def links_def node_def update_conv' delete_conv' split: sum.splits option.splits if_splits)

lemma remains_rename [remaining]:
  assumes "below base s p" "below base s p'"
  shows "remains base s (fst (sys_rename s p p'))"
proof -
  have "inside base (fst (sys_rename s p p'))" if "inside base s"
    using that wf_rename links_rename assms(2) by (fastforce simp: inside_def below_def)
  moreover have "view (fst (sys_rename s p p')) q = view s q" if "inside base s" "\<not> prefix base q" for q
    using that frame_rename[of s p p' q] assms by (auto simp: inside_def below_def)
  ultimately show ?thesis by (simp add: remains_def)
qed


subsection \<open>Callbacks\<close>

text \<open>A root without \<^verbatim>\<open>.\<close> and \<^verbatim>\<open>..\<close>, as \<^verbatim>\<open>realpath\<close> gives it, and paths without \<^verbatim>\<open>..\<close>, as FUSE gives them.\<close>

definition real_root :: "string \<Rightarrow> bool" where
  "real_root root \<longleftrightarrow> list_all (\<lambda>w. w \<noteq> ''.'' \<and> w \<noteq> ''..'') (path_comps root)"

definition fuse_path :: "string \<Rightarrow> bool" where
  "fuse_path p \<longleftrightarrow> take 1 p = ''/'' \<and> no_dotdot p"

lemma walk_plain:
  "list_all (\<lambda>w. w \<noteq> ''.'' \<and> w \<noteq> ''..'') cs \<Longrightarrow> walk s cur cs = Inr cp \<Longrightarrow> cp = cur @ cs"
  by (induction cs arbitrary: cur) (auto split: if_splits, fastforce)

lemma fullpath_below:
  assumes "real_root root" "fuse_path p"
  shows "below (path_comps root) s (root @ p)"
  unfolding below_def
proof (intro allI impI)
  fix q
  obtain p' where p: "p = CHR ''/'' # p'"
    using assms(2) by (cases p) (auto simp: fuse_path_def)
  have "path_comps p' = path_comps p"
    using path_comps_slash[of "[]" p'] p by (simp add: path_comps_def)
  then have dd: "''..'' \<notin> set (path_comps p')"
    using assms(2) by (simp add: fuse_path_def no_dotdot_def)
  assume "resolve s (root @ p) = Inr q"
  then have "walk s [] (path_comps root @ path_comps p') = Inr q"
    using p by (simp add: resolve_def path_comps_slash split: if_splits)
  then obtain cp where "walk s [] (path_comps root) = Inr cp" "walk s cp (path_comps p') = Inr q"
    by (auto simp: walk_append split: sum.splits)
  then have "cp = path_comps root" "\<exists>zs. q = cp @ zs"
    using walk_plain assms(1) walk_below[OF dd] by (force simp: real_root_def)+
  then show "prefix (path_comps root) q" by (auto simp: prefix_def)
qed

lemma kfs_does [simp]: "kfs (snd (does f w)) = fst (f (kfs w))"
  by (simp add: does_def split: prod.splits)

lemma kfs_asks [simp]: "kfs (snd (asks g w)) = kfs w" "kfs (snd (unsupported w)) = kfs w"
  by (simp_all add: asks_def unsupported_def)

lemma kfs_streams [simp]: "kfs (snd (px_opendir p w)) = kfs w" "kfs (snd (px_readdir dp w)) = kfs w"
  "kfs (snd (px_closedir dp w)) = kfs w"
  by (auto simp: px_opendir_def px_readdir_def px_closedir_def split: sum.splits option.splits list.splits)

text \<open>What the specification does to the files, for one call and for a file that is made and closed.\<close>

lemma remains_made: "below base s p \<Longrightarrow> remains base s (fst (sys_close (fst (px_open p fl m s)) fd))"
  by (rule remains_trans[OF remains_px_open remains_close])

lemma list_dir_kfs: "list_dir posix_libc dp filler buf name w = Some (y, w') \<Longrightarrow> kfs w' = kfs w"
  using list_dir_streams by fastforce

lemma remains_passed:
  assumes "passes_on posix_libc fd root err c w = Some (r, w')" "real_root root" "list_all fuse_path (bb_paths c)"
  shows "remains (path_comps root) (kfs w) (kfs w')"
  using assms
  by (cases c) (auto simp: split_beta remaining remains_made fullpath_below dest!: list_dir_kfs
    split: sum.splits if_splits option.splits)


subsection \<open>Sessions\<close>

text \<open>Callbacks one after the other, as long as they return.\<close>

fun bb_calls :: "bb_env \<Rightarrow> 'w libc \<Rightarrow> 'b bb_call list \<Rightarrow> 'w bb \<Rightarrow> ('b bb_reply list \<times> 'w bb) option" where
  "bb_calls e k [] s = Some ([], s)"
| "bb_calls e k (c # cs) s =
     (case bb_oper e k c s of
        None \<Rightarrow> None
      | Some (r, s') \<Rightarrow> map_option (\<lambda>(rs, s''). (r # rs, s'')) (bb_calls e k cs s'))"


end
