(* ===== verification/Bb_Faults.thy ===== *)
theory Bb_Faults
  imports Bb_Confined Server_Start
begin

section \<open>Faults of the tutorial file system, and samples\<close>

text \<open>
  Where \<^verbatim>\<open>bbfs.c\<close> is not what it says: a failed call can be answered with an error number the log made up,
  and a long path is written behind the end of an array.  Then a small process over an almost empty disk, on
  which the witnesses run.
\<close>

subsection \<open>Error numbers\<close>

abbreviation ENOSPC :: int where "ENOSPC \<equiv> 28"

text \<open>
  C40: a call that fails is answered differently by two kinds of callbacks.  Those that test the result
  themselves and call \<^verbatim>\<open>log_error\<close> give the kernel's error number; those that go through \<^verbatim>\<open>log_syscall\<close> give
  whatever writing the message has left in \<^verbatim>\<open>errno\<close>.
\<close>

theorem failed_calls_report:
  assumes "length (rootdir (bb_data s)) + length p < PATH_MAX"
    and "c_unlink k (rootdir (bb_data s) @ p) (kernel s) = (Inl x, w)"
    and "c_access k (rootdir (bb_data s) @ p) m (kernel s) = (Inl y, w')"
  shows "fst (run_state (bb_unlink e k p) s)
      = - vfprintf_errno e (''    ERROR unlink: '' @ strerror e x @ [newline]) x
    \<and> fst (run_state (bb_access e k p m) s) = - y"
  using assms
  by (simp add: bb_unlink_def bb_access_def fullpath_fits run_sys fst_log_syscall run_log_error)

text \<open>The handle of a file that could not be opened is the negated error number, not \<^verbatim>\<open>-1\<close>.\<close>

lemma bb_open_failed_handle:
  assumes "quiet e" "length (rootdir (bb_data s)) + length p < PATH_MAX" "0 < x"
    and "c_open k (rootdir (bb_data s) @ p) (fi_flags fi) 0 (kernel s) = (Inl x, w)"
  shows "fst (run_state (bb_open e k p fi) s) = (- x, fi\<lparr>fi_fh := word_of_int (- x)\<rparr>)"
  using assms by (simp add: bb_open_def fullpath_fits run_sys quiet_syscall quiet_errno run_error Let_def)

subsection \<open>Long paths\<close>

text \<open>
  No path FUSE can hand over is shortened by \<^verbatim>\<open>strncat\<close>, whose bound is on what it appends; so the array
  is overrun exactly when root and path do not fit into it together.
\<close>

lemma bb_fullpath_overruns:
  assumes "length p < PATH_MAX"
  shows "fst (run_state (bb_fullpath e p) s) = rootdir (bb_data s) @ p
    \<and> (smashed (snd (run_state (bb_fullpath e p) s)) \<longleftrightarrow> smashed s \<or> PATH_MAX \<le> length (rootdir (bb_data s)) + length p)"
  using assms after_fullpath(3)[of e p s] by (simp add: run_fullpath)

subsection \<open>Samples\<close>

definition bb_sample_env :: bb_env where
  "bb_sample_env = \<lparr>vfprintf_errno = (\<lambda>t x. x), strerror = (\<lambda>x. ''error ''), logfile_at = 0, has_fdatasync = True\<rparr>"

text \<open>A disk with the directory \<^verbatim>\<open>/r\<close>, and the process that has it as its root.\<close>

definition bb_sample_world :: world where
  "bb_sample_world = \<lparr>kfs = create_node sample_fs [''r''] True 0x1FF, streams = (\<lambda>_. None), next_stream = 1\<rparr>"

definition bb_sample :: "world bb" where
  "bb_sample = \<lparr>bb_data = \<lparr>logfile = [], rootdir = ''/r''\<rparr>, errno = 0, kernel = bb_sample_world, smashed = False\<rparr>"

definition bb_sample_fi :: file_info where
  "bb_sample_fi = \<lparr>fi_at = 0, fi_flags = 0, fi_fh_old = 0, fi_writepage = 0, fi_direct_io = False, fi_keep_cache = False,
     fi_fh = 0, fi_lock_owner = 0\<rparr>"

lemma quiet_sample: "quiet bb_sample_env"
  by (simp add: quiet_def bb_sample_env_def)

lemma sample_simps [simp]:
  "rootdir (bb_data bb_sample) = ''/r''" "kernel bb_sample = bb_sample_world" "\<not> smashed bb_sample" "errno bb_sample = 0"
  "next_stream bb_sample_world = 1" "kfs bb_sample_world = create_node sample_fs [''r''] True 0x1FF"
  by (simp_all add: bb_sample_def bb_sample_world_def)

lemma node_bb_sample: "node (create_node sample_fs [''r''] True 0x1FF) = [[] \<mapsto> 0, [''r''] \<mapsto> 1]"
  by (rule ext) (simp add: node_def create_node_def sample_fs_def)

lemma dirs_bb_sample:
  "is_dir (create_node sample_fs [''r''] True 0x1FF) []" "is_dir (create_node sample_fs [''r''] True 0x1FF) [''r'']"
  by (simp_all add: is_dir_def node_bb_sample) (simp_all add: create_node_def sample_fs_def new_inode_def)

lemma bb_comps [simp]: "path_comps ''/r'' = [''r'']" "path_comps (''/r'' @ ''/'') = [''r'']" "path_comps ''/d'' = [''d'']"
    "path_comps ''/r/d'' = [''r'', ''d'']" "path_comps ''/r/'' = [''r'']" "path_comps ''/'' = []"
  by (simp_all add: path_comps_def)


lemma inside_sample: "inside [''r''] (create_node sample_fs [''r''] True 0x1FF)"
proof -
  have "wf_fs (create_node sample_fs [''r''] True 0x1FF)"
    by (rule wf_create) (simp_all add: wf_sample_fs, simp_all add: sample_fs_def node_def is_dir_def)
  moreover have "fs_fds (create_node sample_fs [''r''] True 0x1FF) = (\<lambda>_. None)"
    by (simp add: create_node_def sample_fs_def)
  ultimately show ?thesis by (simp add: inside_def links_def)
qed


theorem bb_reads_directory_witness:
  "\<exists>fi' s1 s2. bb_oper bb_sample_env posix_libc (BOpendir ''/'' bb_sample_fi :: string list bb_call) bb_sample = Some (BFile 0 fi', s1)
    \<and> bb_oper bb_sample_env posix_libc (BReaddir ''/'' 0 0 [] collect 0 fi') s1 = Some (BDir 0 [''.'', ''..''], s2)"
proof -
  have "fits (rootdir (bb_data bb_sample)) (BOpendir ''/'' bb_sample_fi :: string list bb_call)"
    by (simp add: fits_def sized_def PATH_MAX_def)
  moreover have "resolve (kfs (kernel bb_sample)) (rootdir (bb_data bb_sample) @ ''/'') = Inr [''r'']"
    by (simp add: resolve_def dirs_bb_sample)
  moreover have "entries (create_node sample_fs [''r''] True 0x1FF) [''r''] = []"
    by (simp add: entries_none node_bb_sample)
  ultimately show ?thesis
    using bb_reads_directory[OF quiet_sample, of bb_sample "''/''" bb_sample_fi "[''r'']" 0 0 "[]" 0] dirs_bb_sample(2) by auto
qed

theorem failed_calls_report_witness:
  "fst (run_state (bb_unlink (bb_sample_env\<lparr>vfprintf_errno := (\<lambda>t x. ENOSPC)\<rparr>) posix_libc ''/d'') bb_sample) = - ENOSPC
    \<and> fst (run_state (bb_access (bb_sample_env\<lparr>vfprintf_errno := (\<lambda>t x. ENOSPC)\<rparr>) posix_libc ''/d'' 4) bb_sample) = - ENOENT"
proof -
  let ?s = "create_node sample_fs [''r''] True 0x1FF"
  have "resolve ?s ''/r/d'' = Inr [''r'', ''d'']"
    by (simp add: resolve_def dirs_bb_sample)
  then have "sys_unlink ?s ''/r/d'' = (?s, Inl ENOENT)" "sys_stat ?s ''/r/d'' = Inl ENOENT"
    by (simp_all add: sys_unlink_def sys_stat_def node_bb_sample)
  then show ?thesis
    using failed_calls_report[of bb_sample "''/d''" posix_libc ENOENT "bb_sample_world\<lparr>kfs := ?s\<rparr>" 4 ENOENT bb_sample_world]
    by (simp add: does_def asks_def PATH_MAX_def)
qed

end
