(* ===== verification/Spec2Isabelle.thy ===== *)
theory Spec2Isabelle
  imports Client_Text Time_Crash Read_Race Open_Race Client_Oper Remote Coherence_Samples Send_File Drivers Bb_Faults
begin

text \<open>
  \<^bold>\<open>A verification development for AFSv1, a whole-file-caching distributed file system\<close>

  \<^bold>\<open>The program.\<close>  A FUSE client (\<^verbatim>\<open>src/afs_client.cc\<close>) caches whole files of a server
  (\<^verbatim>\<open>src/afs_server.cc\<close>) and talks to it through gRPC messages (\<^verbatim>\<open>src/protos/afs.proto\<close>).  A file is
  downloaded when it is opened (unless the copy carries the server's modification time), read and
  written in the cache, and uploaded when it is closed and dirty.  The server fills a cache file of
  its own and renames it into the tree.  The client keeps two persistent tables, the times of its
  copies and which of them are dirty, each as a snapshot and a log.

  \<^bold>\<open>Theories, from the bottom up.\<close>

  \<^item> \<open>Afs_Prelude\<close>: byte strings, little-endian words, \<^verbatim>\<open>struct timespec\<close> and its sixteen bytes,
    \<^verbatim>\<open>std::getline\<close>, association lists for \<^verbatim>\<open>unordered_map\<close>; the shared rewrite collections.
  \<^item> \<open>Hash_Path\<close>: \<^verbatim>\<open>hashpath\<close>, \<^verbatim>\<open>cachepath\<close> and the server's \<^verbatim>\<open>hashFilepath\<close>.  SHA-256 is a parameter.
  \<^item> \<open>Table_Store\<close>: the snapshot, temporary and log file of a table, the writes to them as a list of
    disk operations of which a crash keeps a prefix, and the locales \<open>persistent_table\<close> and
    \<open>lenient_table\<close>: the contract of a serialisation, and once for all its clients that
    restarting reads back the table.
  \<^item> \<open>Is_Dirty\<close> (\<^verbatim>\<open>is_dirty_t\<close>, lines 59-167) and \<open>Last_Modified\<close> (\<^verbatim>\<open>last_modified_t\<close>, 169-296): the two
    tables, interpreting the locales.  \<open>Time_Crash\<close>: crashes inside \<^verbatim>\<open>last_modified_t::set\<close>.
  \<^item> \<open>Posix\<close>: the C library and POSIX calls both programs use, on inodes and names.  \<open>Posix_Spec\<close> and
    \<open>Posix_Files\<close>: the same calls as updates of a map from resolved paths to entries (\<open>view\<close>), the
    abstract file system every later statement is about.
  \<^item> \<open>Proto\<close>: the messages, and the loop that sends a file in pieces.
  \<^item> \<open>Server\<close>: \<^verbatim>\<open>getServerFilepath\<close>, a definition \<open>srv_X\<close> for each handler \<^verbatim>\<open>X\<close> of \<^verbatim>\<open>AFSServiceImpl\<close>, and
    \<open>server_main\<close>.  \<open>Server_Spec\<close> (\<^verbatim>\<open>Write\<close> and the invariant), \<open>Server_Start\<close>, \<open>Server_Files\<close> (the other
    handlers, refinement of the names), \<open>Server_Faults\<close> (confinement, and what goes wrong) hold its
    properties, \<open>Server_Samples\<close> their witnesses.
  \<^item> \<open>Client\<close>: \<^verbatim>\<open>afs_data_t\<close> as the record \<open>client\<close>, and a definition for every callback \<^verbatim>\<open>afs_*\<close>, over a
    record \<open>stub\<close> of remote calls.  \<open>Client_Cache\<close>: the callbacks' steps on the cache directory.
    \<open>Client_Tables\<close>: when the tables and their files agree, and restarting then.
  \<^item> \<open>Service\<close>: the locale \<open>afs_service\<close>, what the client needs of the remote calls; opening and closing
    proved against it.  \<open>Link\<close>: the stub that calls the handlers of \<open>Server\<close>, for which the locale is
    interpreted.
  \<^item> \<open>Sessions\<close>, \<open>Client_Faults\<close>: the properties spanning client and server, on the joined model;
    \<open>Client_Samples\<close>: their witnesses.
  \<^item> \<open>Remote\<close>: the callbacks that keep nothing on the client (\<^verbatim>\<open>getattr\<close>, \<^verbatim>\<open>mkdir\<close>, \<^verbatim>\<open>rmdir\<close>, \<^verbatim>\<open>readdir\<close>) against
    the server's system calls.
  \<^item> \<open>Write_Race\<close>, \<open>Write_Torn\<close>, \<open>Write_Live\<close>: \<^verbatim>\<open>Write\<close> as a step relation of concurrent handlers, one step
    for each stretch of statements between which another thread can run: safety, the races, and
    that every handler finishes under every fair schedule.  \<open>Read_Race\<close>: \<^verbatim>\<open>GetContent\<close> in steps beside them.
  \<^item> \<open>Open_Steps\<close>: \<^verbatim>\<open>afs_open\<close> in steps.  \<open>Client_Race\<close>: \<^verbatim>\<open>afs_release\<close> and \<^verbatim>\<open>afs_write\<close> in steps, and all three
    beside each other, as FUSE's threads run them.  \<open>Open_Race\<close>: openings among them.  \<open>Cache_Apart\<close>: what
    the calls of these steps leave alone.
  \<^item> \<open>Client_Oper\<close>: the table \<^verbatim>\<open>afs_oper\<close> as a datatype of calls and their dispatch, and sessions of
    any calls over any server.
  \<^item> \<open>Times\<close>: the order of \<^verbatim>\<open>struct timespec\<close>.  \<open>Open_Files\<close>: descriptors and the inodes they keep.
    \<open>Coherence\<close>: any number of client machines and one server as a step relation over the callbacks,
    with the invariant that a clean copy with the server's time holds the server's bytes;
    \<open>Coherence_Samples\<close>: a history of two machines.
  \<^item> \<open>Getopt\<close>: \<^verbatim>\<open>getopt\<close>.  \<open>Startup\<close>: the client's \<^verbatim>\<open>main\<close>.  \<open>Printf\<close>: the conversions of \<^verbatim>\<open>printf\<close>.
    \<open>Client_Text\<close>: the client's output, and \<^verbatim>\<open>readFileIntoMap\<close>.
  \<^item> \<open>Measurement\<close>: \<^verbatim>\<open>sub_timespec\<close> of \<^verbatim>\<open>src/measurement/timespec_lib.cc\<close>.  \<open>Drivers\<close>: the programs of
    \<^verbatim>\<open>src/measurement\<close>.  \<open>Send_File\<close>: client and server of \<^verbatim>\<open>src/grpc_example\<close>.
  \<^item> The FUSE tutorial of \<^verbatim>\<open>src/fuse-tutorial-2018-02-04\<close>, whose structure the client has, in the state
    monad.  \<open>Bb_Log\<close>: \<^verbatim>\<open>log.c\<close>, \<^verbatim>\<open>log.h\<close> and \<^verbatim>\<open>params.h\<close>.  \<open>Bbfs\<close>: every callback \<^verbatim>\<open>bb_*\<close> of \<^verbatim>\<open>bbfs.c\<close> over a
    record \<open>libc\<close> of system calls, the table \<^verbatim>\<open>bb_oper\<close> and \<^verbatim>\<open>main\<close>.  \<open>Bb_Spec\<close>: the specification
    \<open>passes_on\<close>, the locale \<open>kernel_laws\<close>, and the refinement proved in it.  \<open>Bb_Posix\<close>: the calls of
    \<open>Posix\<close> as such a kernel, for which the locale is interpreted, and reading a directory.
    \<open>Bb_Confined\<close>: sessions stay below the root.  \<open>Bb_Faults\<close>: what goes wrong, and samples.

  \<^bold>\<open>What is proved.\<close>
  Cluster: after any history of opens, writes, closes, creations, removals, deaths and restarts of any
  number of machines, an open by a machine without unsaved writes reads the current file, as long as
  the clock of the server's disk moves on between versions.
  Sessions: close-to-open consistency, downloading, use of the copy, local writes, uploads, the last
  close wins, recovery from a death during an upload; attributes and directory calls pass through
  unchanged; cache names are well formed and apart.
  Server: a completed \<^verbatim>\<open>Write\<close> publishes exactly the uploaded bytes in one step and a cancelled one
  publishes nothing; concurrent uploads of different files stay whole, and all uploads return, in a
  bounded number of steps; a download beside uploads sends the bytes of one version; undisturbed, the
  steps of handlers and callbacks compute the handlers and callbacks; the sending loop computes the division of a file in closed form; names refine the abstract
  operations; requests without \<^verbatim>\<open>..\<close> are confined; well-formedness is kept; the start-up establishes
  the invariant.
  Client: whatever calls it serves and whatever the server answers, its file system outside the cache
  names is untouched, and a restart finds tables that say what they said before; a release beside
  writes to and openings of other files uploads its copy as it is, and an opening beside callbacks on
  other files gives the copy it found or the whole of one download.
  Tables: restarts read the table back after any history of operations and crashes (dirty marks) or
  operations and restarts (times); what a crash inside a stored time can disturb.
  Other programs: the transfer example stores the file it was sent and its table adds up;
  \<^verbatim>\<open>driver_write\<close> leaves the file it promises and prints exact times.
  Tutorial file system: every callback is the system call on the path below the root, log and \<^verbatim>\<open>errno\<close>
  apart; reading a directory ends and gives every name; no session reaches a name outside the root.
  Faults, each as a theorem about the code: two uploads of one path can publish half a file, a download
  can carry old bytes with the time of the new version, a write during an upload of its file is
  acknowledged and never uploaded, so is a write between two first openings of its file, the
  error return of \<^verbatim>\<open>Write\<close> keeps the mutex, a lost \<^verbatim>\<open>rename\<close> is reported as success, \<^verbatim>\<open>Ls\<close> of a missing
  directory crashes, \<^verbatim>\<open>..\<close> escapes, equal times hide an update, an open can drop unsaved bytes, a
  truncation is never uploaded, failures to open and a missing server are reported as success,
  the tables' constructors abort on a marker of a local file or a torn line, the argument array
  overflows; in the tutorial, a failed call is answered with an error number of the log, and long
  paths overrun an array.

  \<^bold>\<open>Conventions.\<close>  Handlers return \<open>Done\<close>, \<open>Blocked\<close> (a mutex that is never released) or \<open>Crashed\<close>;
  callbacks return \<open>Ret\<close>, \<open>Died\<close> (an assertion or \<^verbatim>\<open>exit\<close>), \<open>Hang\<close> or \<open>Undef\<close> (undefined behaviour).  In the
  tutorial, writing behind an array sets the flag \<open>smashed\<close>.  No
  definition uses fuel: the reading and sending loops, path resolution and option scanning end by
  a measure or by structure; the tutorial's loop over a directory is a partial function, shown to return
  where the kernel's directories end.  Machine integers are words where the code converts between them
  (descriptors in \<^verbatim>\<open>uint64_t fh\<close>, 32-bit return codes, \<^verbatim>\<open>ssize_t\<close> to \<^verbatim>\<open>int\<close>, times).  Bytes, times and
  orders the code leaves undetermined are parameters: the uninitialised counters of the tables, the
  iteration order of \<^verbatim>\<open>unordered_map\<close>, the uninitialised \<^verbatim>\<open>struct stat\<close> (\<open>junk\<close>), SHA-256, which
  messages a gRPC writer accepts.

  \<^bold>\<open>Not modelled.\<close>  gRPC and FUSE beyond the calls above, full or broken disks, permissions and links;
  what unsynchronised access does inside the C++ containers (the operations of the tables are single
  steps where callbacks run beside each other); the client's and the server's log output other than the
  table and the usage text, messages to the terminal of the tutorial's \<^verbatim>\<open>main\<close>, and \<^verbatim>\<open>set_deadline\<close>, whose
  body is empty; the \<^verbatim>\<open>double\<close>s of the bandwidth table; the experiments of \<^verbatim>\<open>test.cc\<close>, which are commented
  out.  \<^verbatim>\<open>afs_mknod\<close>, \<^verbatim>\<open>afs_unlink\<close> and the requests beside uploads and downloads are modelled run to their
  end, not interleaved; the tutorial's callbacks are modelled one after the other.
  The files of the tables are kept apart from the cache directory's other files, whose names are 64
  hexadecimal digits and never theirs.
\<close>

end
